(* ===== verification/VPN_Prelude.thy ===== *)
theory VPN_Prelude
  imports Main "HOL-Library.Word" "HOL-Library.Finite_Map"
begin

section \<open>Shared types, byte operations and lemmas\<close>

text \<open>
  The vocabulary the component theories share: the machine integers of the Go code as
  words, byte slices as lists of bytes, Go's \<open>copy\<close>, the big-endian accessors of
  \<open>encoding/binary\<close> that the code uses, the outcome of a call that may return an error
  or panic, and the lemmas about them that every component needs. The collections
  \<open>be_simps\<close> (byte order) and \<open>buf_simps\<close> (buffers and slices) are filled here and in the
  components.
\<close>

unbundle bit_operations_syntax

named_theorems be_simps \<open>reading and writing big-endian integers\<close>
named_theorems buf_simps \<open>slices and buffer copies\<close>

subsection \<open>Machine types\<close>

type_synonym byte = "8 word"
type_synonym u16 = "16 word"
type_synonym u32 = "32 word"
type_synonym u64 = "64 word"
type_synonym bytes = "byte list"

text \<open>
  The outcome of a Go call: a value, an error value, or a run-time panic (an index or a
  slice bound out of range, a send on a closed channel).
\<close>

datatype ('e, 'a) outcome = Ok 'a | Err 'e | Panic

fun ok_value :: "('e, 'a) outcome \<Rightarrow> 'a option" where
  "ok_value (Ok a) = Some a"
| "ok_value (Err e) = None"
| "ok_value Panic = None"

text \<open>Go's integer division and remainder truncate towards zero.\<close>

definition go_div :: "int \<Rightarrow> int \<Rightarrow> int" where
  "go_div a b = sgn a * sgn b * (\<bar>a\<bar> div \<bar>b\<bar>)"

definition go_mod :: "int \<Rightarrow> int \<Rightarrow> int" where
  "go_mod a b = a - b * go_div a b"

lemma go_div_nonneg: "0 \<le> a \<Longrightarrow> 0 < b \<Longrightarrow> go_div a b = a div b"
  and go_mod_nonneg: "0 \<le> a \<Longrightarrow> 0 < b \<Longrightarrow> go_mod a b = a mod b"
  by (auto simp: go_mod_def go_div_def sgn_if minus_mult_div_eq_mod)

subsection \<open>Slices and copies\<close>

text \<open>
  Go's \<open>b[lo:hi]\<close> on a slice that is long enough, and \<open>copy(dst, src)\<close>: it overwrites the
  first \<open>min (len dst) (len src)\<close> bytes of \<open>dst\<close>, keeps the rest and returns the number
  of bytes written.
\<close>

definition subslice :: "nat \<Rightarrow> nat \<Rightarrow> 'a list \<Rightarrow> 'a list" where
  "subslice lo hi b = take (hi - lo) (drop lo b)"

definition copy_into :: "'a list \<Rightarrow> 'a list \<Rightarrow> 'a list \<times> nat" where
  "copy_into dst src =
     (let n = min (length dst) (length src) in (take n src @ drop n dst, n))"

lemma length_subslice [buf_simps]: "length (subslice lo hi b) = min (hi - lo) (length b - lo)"
  by (simp add: subslice_def)

lemma subslice_append_left [buf_simps]: "subslice 0 (length xs) (xs @ ys) = xs"
  by (simp add: subslice_def)

lemma subslice_append_right: "subslice (length xs) (length xs + length ys) (xs @ ys @ zs) = ys"
  by (simp add: subslice_def)

lemma subslice_nth: "lo + i < hi \<Longrightarrow> hi \<le> length b \<Longrightarrow> subslice lo hi b ! i = b ! (lo + i)"
  by (simp add: subslice_def)

lemma subslice_4: "hi = lo + 4 \<Longrightarrow> hi \<le> length b \<Longrightarrow>
    subslice lo hi b = [b ! lo, b ! (lo + 1), b ! (lo + 2), b ! (lo + 3)]"
  by (rule nth_equalityI)
     (auto simp: length_subslice subslice_nth nth_Cons numeral_eq_Suc less_Suc_eq split: nat.splits)

lemma split3: "xs = take a xs @ take b (drop a xs) @ drop (a + b) xs"
  by (metis add.commute append_take_drop_id drop_drop)

lemma length_copy_into [buf_simps]: "length (fst (copy_into dst src)) = length dst"
  by (simp add: copy_into_def Let_def)

lemma snd_copy_into [buf_simps]: "snd (copy_into dst src) = min (length dst) (length src)"
  by (simp add: copy_into_def Let_def)

text \<open>What a reader that slices the buffer to the returned count sees.\<close>

lemma take_copy_into [buf_simps]:
  "take (snd (copy_into dst src)) (fst (copy_into dst src)) = take (length dst) src"
  by (simp add: copy_into_def Let_def min_def)

subsection \<open>Big-endian integers\<close>

text \<open>
  \<open>binary.BigEndian.Uint16\<close>, \<open>Uint32\<close>, \<open>PutUint16\<close> and \<open>PutUint32\<close>, on the first two or
  four bytes, as the Go library defines them. A slice that is too short panics there; the
  callers in the code have checked the length, and the \<open>None\<close> of the readers is that
  panic.
\<close>

fun be_u16 :: "bytes \<Rightarrow> u16 option" where
  "be_u16 (a # b # _) = Some (push_bit 8 (ucast a) OR ucast b)"
| "be_u16 _ = None"

fun be_u32 :: "bytes \<Rightarrow> u32 option" where
  "be_u32 (a # b # c # d # _) =
     Some (push_bit 24 (ucast a) OR push_bit 16 (ucast b) OR push_bit 8 (ucast c) OR ucast d)"
| "be_u32 _ = None"

definition put_u16 :: "u16 \<Rightarrow> bytes" where
  "put_u16 w = [ucast (drop_bit 8 w), ucast w]"

definition put_u32 :: "u32 \<Rightarrow> bytes" where
  "put_u32 w = [ucast (drop_bit 24 w), ucast (drop_bit 16 w), ucast (drop_bit 8 w), ucast w]"

lemma bit_byte_ge [be_simps]: "8 \<le> n \<Longrightarrow> \<not> bit (a :: byte) n"
  using bit_imp_le_length [of a n] by auto

lemma unat_byte_less: "unat (b :: byte) < 256"
  using unsigned_less [of b, where 'a = nat] by simp

lemma unat_u32_less: "unat (w :: u32) < 4294967296"
  using unsigned_less [of w, where 'a = nat] by simp

lemma length_put_u16 [be_simps]: "length (put_u16 w) = 2"
  by (simp add: put_u16_def)

lemma length_put_u32 [be_simps]: "length (put_u32 w) = 4"
  by (simp add: put_u32_def)

lemma be_u16_put [be_simps]: "be_u16 (put_u16 w @ bs) = Some w"
  by (simp add: put_u16_def) (rule bit_word_eqI, auto simp: bit_simps)

lemma be_u32_put_append [be_simps]: "be_u32 (put_u32 w @ bs) = Some w"
proof -
  have "bit (push_bit 24 (ucast (ucast (drop_bit 24 w) :: byte))
        OR push_bit 16 (ucast (ucast (drop_bit 16 w) :: byte))
        OR push_bit 8 (ucast (ucast (drop_bit 8 w) :: byte))
        OR ucast (ucast w :: byte) :: u32) n = bit w n" if "n < 32" for n
  proof -
    consider "n < 8" | "8 \<le> n" "n < 16" | "16 \<le> n" "n < 24" | "24 \<le> n"
      by linarith
    then show ?thesis
      using that by cases (auto simp: bit_simps be_simps)
  qed
  then show ?thesis
    by (auto simp: put_u32_def intro!: bit_word_eqI)
qed

lemma be_u32_put [be_simps]: "be_u32 (put_u32 w) = Some w"
  using be_u32_put_append [of w "[]"] by simp

lemma put_be_u32: "length bs = 4 \<Longrightarrow> be_u32 bs = Some w \<Longrightarrow> put_u32 w = bs"
  by (cases bs rule: be_u32.cases)
     (auto simp: put_u32_def bit_simps be_simps intro!: bit_word_eqI)

lemma be_u32_Some [be_simps]: "4 \<le> length bs \<Longrightarrow> \<exists>w. be_u32 bs = Some w"
  by (cases bs rule: be_u32.cases) auto

lemma be_u16_Some [be_simps]: "2 \<le> length bs \<Longrightarrow> \<exists>w. be_u16 bs = Some w"
  by (cases bs rule: be_u16.cases) auto

lemma be_u16_prefix [be_simps]: "2 \<le> length bs \<Longrightarrow> be_u16 (subslice 0 2 bs) \<noteq> None"
  using be_u16_Some [of "subslice 0 2 bs"] by (auto simp: length_subslice)

lemma be_u32_prefix [be_simps]: "4 \<le> length bs \<Longrightarrow> be_u32 (subslice 0 4 bs) \<noteq> None"
  using be_u32_Some [of "subslice 0 4 bs"] by (auto simp: length_subslice)

lemma put_u32_inj: "put_u32 v = put_u32 w \<Longrightarrow> v = w"
  by (metis be_u32_put option.inject)

lemma be_u32_take: "4 \<le> n \<Longrightarrow> be_u32 (take n bs) = be_u32 bs"
  by (cases bs rule: be_u32.cases) (auto simp: numeral_eq_Suc Suc_le_eq gr0_conv_Suc take_Cons')

end
