(* ===== verification/Packet.thy ===== *)
theory Packet
  imports VPN_Prelude
begin

section \<open>IPv4 header parsing (shared/packet.go)\<close>

text \<open>
  The full parser \<open>ParseIPv4Header\<close> and the four fast paths the forwarding loops use
  instead of it. A packet is a byte list; a parser returns the value, one of the two
  sentinel errors, or \<open>Panic\<close> where the Go code would index out of range. The lemmas show
  that no input panics, that the fast paths agree with the full parser on every input, and
  that a header written by \<open>makeIPv4Packet\<close> is read back.
\<close>

datatype pkt_err = ErrPacketTooSmall | ErrNotIPv4

definition ProtoICMP :: byte where "ProtoICMP = 1"
definition ProtoTCP :: byte where "ProtoTCP = 6"
definition ProtoUDP :: byte where "ProtoUDP = 17"

record ipv4_header =
  Version :: byte
  IHL :: byte
  TotalLen :: u16
  Protocol :: byte
  SrcIP :: bytes
  DstIP :: bytes

definition ParseIPv4Header :: "bytes \<Rightarrow> (pkt_err, ipv4_header) outcome" where
  "ParseIPv4Header pkt =
     (if length pkt < 20 then Err ErrPacketTooSmall
      else let version = drop_bit 4 (pkt ! 0) in
        if version \<noteq> 4 then Err ErrNotIPv4
        else let ihl = pkt ! 0 AND 0x0F in
          case be_u16 (subslice 2 4 pkt) of
            None \<Rightarrow> Panic
          | Some totalLen \<Rightarrow>
             let protocol = pkt ! 9;
                 srcIP = fst (copy_into (replicate 4 0) (subslice 12 16 pkt));
                 dstIP = fst (copy_into (replicate 4 0) (subslice 16 20 pkt))
             in Ok \<lparr>Version = version, IHL = ihl, TotalLen = totalLen,
                    Protocol = protocol, SrcIP = srcIP, DstIP = dstIP\<rparr>)"

definition DstIPFromPacket :: "bytes \<Rightarrow> (pkt_err, bytes) outcome" where
  "DstIPFromPacket pkt =
     (if length pkt < 20 then Err ErrPacketTooSmall
      else if drop_bit 4 (pkt ! 0) \<noteq> 4 then Err ErrNotIPv4
      else Ok (fst (copy_into (replicate 4 0) (subslice 16 20 pkt))))"

definition SrcIPFromPacket :: "bytes \<Rightarrow> (pkt_err, bytes) outcome" where
  "SrcIPFromPacket pkt =
     (if length pkt < 20 then Err ErrPacketTooSmall
      else if drop_bit 4 (pkt ! 0) \<noteq> 4 then Err ErrNotIPv4
      else Ok (fst (copy_into (replicate 4 0) (subslice 12 16 pkt))))"

definition DstIPUint32 :: "bytes \<Rightarrow> (pkt_err, u32) outcome" where
  "DstIPUint32 pkt =
     (if length pkt < 20 then Err ErrPacketTooSmall
      else if drop_bit 4 (pkt ! 0) \<noteq> 4 then Err ErrNotIPv4
      else case be_u32 (subslice 16 20 pkt) of None \<Rightarrow> Panic | Some w \<Rightarrow> Ok w)"

definition SrcIPUint32 :: "bytes \<Rightarrow> (pkt_err, u32) outcome" where
  "SrcIPUint32 pkt =
     (if length pkt < 20 then Err ErrPacketTooSmall
      else if drop_bit 4 (pkt ! 0) \<noteq> 4 then Err ErrNotIPv4
      else case be_u32 (subslice 12 16 pkt) of None \<Rightarrow> Panic | Some w \<Rightarrow> Ok w)"

text \<open>
  \<open>makeIPv4Packet\<close> of the daemon's test file: the packet the tests send through the tunnel
  (version 4, five header words, TTL 64, checksum left zero).
\<close>

definition makeIPv4Packet :: "bytes \<Rightarrow> bytes \<Rightarrow> byte \<Rightarrow> bytes \<Rightarrow> bytes" where
  "makeIPv4Packet src dst protocol payload =
     (let totalLen = 20 + length payload
      in [0x45, 0] @ put_u16 (word_of_nat totalLen) @ put_u16 0 @ put_u16 0
         @ [64, protocol] @ [0, 0]
         @ fst (copy_into (replicate 4 0) src) @ fst (copy_into (replicate 4 0) dst)
         @ payload)"

subsection \<open>Lemmas\<close>

lemma copy_into_zero4 [buf_simps]:
  "length bs = 4 \<Longrightarrow> fst (copy_into (replicate 4 0) bs) = bs"
  by (simp add: copy_into_def)

text \<open>The two guards every parser starts with.\<close>

definition is_ipv4 :: "bytes \<Rightarrow> bool" where
  "is_ipv4 pkt \<longleftrightarrow> 20 \<le> length pkt \<and> drop_bit 4 (pkt ! 0) = 4"

lemmas parser_defs =
  ParseIPv4Header_def SrcIPFromPacket_def DstIPFromPacket_def SrcIPUint32_def DstIPUint32_def

lemma be_u32_subslice:
  assumes "hi = lo + 4" and "hi \<le> length pkt"
  obtains w where "be_u32 (subslice lo hi pkt) = Some w" and "put_u32 w = subslice lo hi pkt"
proof -
  have len: "length (subslice lo hi pkt) = 4"
    using assms by (simp add: buf_simps)
  then obtain w where "be_u32 (subslice lo hi pkt) = Some w"
    using be_u32_Some [of "subslice lo hi pkt"] by auto
  with len show thesis
    using put_be_u32 that by blast
qed

lemma parsers_is_ipv4:
  assumes "is_ipv4 pkt"
  obtains t s d where
    "ParseIPv4Header pkt = Ok \<lparr>Version = 4, IHL = pkt ! 0 AND 0x0F, TotalLen = t,
       Protocol = pkt ! 9, SrcIP = subslice 12 16 pkt, DstIP = subslice 16 20 pkt\<rparr>"
    and "SrcIPFromPacket pkt = Ok (subslice 12 16 pkt)"
    and "DstIPFromPacket pkt = Ok (subslice 16 20 pkt)"
    and "SrcIPUint32 pkt = Ok s" and "put_u32 s = subslice 12 16 pkt"
    and "DstIPUint32 pkt = Ok d" and "put_u32 d = subslice 16 20 pkt"
proof -
  have len: "20 \<le> length pkt" and ver: "drop_bit 4 (pkt ! 0) = 4"
    using assms by (auto simp: is_ipv4_def)
  obtain s where s: "be_u32 (subslice 12 16 pkt) = Some s" "put_u32 s = subslice 12 16 pkt"
    using len be_u32_subslice [of 16 12 pkt] by auto
  obtain d where d: "be_u32 (subslice 16 20 pkt) = Some d" "put_u32 d = subslice 16 20 pkt"
    using len be_u32_subslice [of 20 16 pkt] by auto
  obtain t where t: "be_u16 (subslice 2 4 pkt) = Some t"
    using len be_u16_Some [of "subslice 2 4 pkt"] by (auto simp: buf_simps)
  show thesis
    using len ver s d t by (intro that) (auto simp: parser_defs Let_def buf_simps)
qed

lemma parsers_not_ipv4:
  assumes "\<not> is_ipv4 pkt"
  obtains e where "ParseIPv4Header pkt = Err e" and "SrcIPFromPacket pkt = Err e"
    and "DstIPFromPacket pkt = Err e" and "SrcIPUint32 pkt = Err e" and "DstIPUint32 pkt = Err e"
proof (cases "length pkt < 20")
  case True
  then show thesis
    by (intro that [of ErrPacketTooSmall]) (simp_all add: parser_defs)
next
  case False
  then show thesis
    using assms by (intro that [of ErrNotIPv4]) (simp_all add: parser_defs is_ipv4_def)
qed

lemma src_key_iff: "SrcIPUint32 pkt = Ok w \<longleftrightarrow> is_ipv4 pkt \<and> subslice 12 16 pkt = put_u32 w"
proof (cases "is_ipv4 pkt")
  case True
  then show ?thesis
    by (rule parsers_is_ipv4) (auto dest: put_u32_inj simp: \<open>is_ipv4 pkt\<close>)
next
  case False
  then show ?thesis
    by (rule parsers_not_ipv4) (auto simp: \<open>\<not> is_ipv4 pkt\<close>)
qed

lemma dst_key_iff: "DstIPUint32 pkt = Ok w \<longleftrightarrow> is_ipv4 pkt \<and> subslice 16 20 pkt = put_u32 w"
proof (cases "is_ipv4 pkt")
  case True
  then show ?thesis
    by (rule parsers_is_ipv4) (auto dest: put_u32_inj simp: \<open>is_ipv4 pkt\<close>)
next
  case False
  then show ?thesis
    by (rule parsers_not_ipv4) (auto simp: \<open>\<not> is_ipv4 pkt\<close>)
qed

lemma keys_not_panic: "SrcIPUint32 pkt \<noteq> Panic" "DstIPUint32 pkt \<noteq> Panic"
  by (cases "is_ipv4 pkt"; (erule parsers_is_ipv4 | erule parsers_not_ipv4); simp)+

subsection \<open>Properties\<close>

text \<open>
  On every byte sequence the four fast paths agree with the full parser: they return the
  same error or the same address, the integer versions return the address as the big-endian
  integer, and none of the five functions panics, whatever the packet holds.
\<close>

theorem fast_paths_agree:
  "SrcIPFromPacket pkt = map_outcome id SrcIP (ParseIPv4Header pkt)
   \<and> DstIPFromPacket pkt = map_outcome id DstIP (ParseIPv4Header pkt)
   \<and> map_outcome id put_u32 (SrcIPUint32 pkt) = SrcIPFromPacket pkt
   \<and> map_outcome id put_u32 (DstIPUint32 pkt) = DstIPFromPacket pkt
   \<and> ParseIPv4Header pkt \<noteq> Panic"
proof (cases "is_ipv4 pkt")
  case True
  then show ?thesis by (rule parsers_is_ipv4) simp
next
  case False
  then show ?thesis by (rule parsers_not_ipv4) simp
qed

text \<open>
  A packet laid out by \<open>makeIPv4Packet\<close> from two four-byte addresses parses back to its
  fields: version 4, five header words, the protocol, both addresses, and the total length
  modulo 65536 (the field is 16 bits wide); the fast paths return the two addresses.
\<close>

theorem make_packet_parses:
  assumes "length src = 4" and "length dst = 4"
  shows "ParseIPv4Header (makeIPv4Packet src dst proto payload)
         = Ok \<lparr>Version = 4, IHL = 5, TotalLen = word_of_nat (20 + length payload),
               Protocol = proto, SrcIP = src, DstIP = dst\<rparr>
     \<and> SrcIPFromPacket (makeIPv4Packet src dst proto payload) = Ok src
     \<and> DstIPFromPacket (makeIPv4Packet src dst proto payload) = Ok dst"
proof -
  obtain s0 s1 s2 s3 where s: "src = [s0, s1, s2, s3]"
    using assms(1) by (auto simp: length_Suc_conv numeral_eq_Suc)
  obtain d0 d1 d2 d3 where d: "dst = [d0, d1, d2, d3]"
    using assms(2) by (auto simp: length_Suc_conv numeral_eq_Suc)
  obtain l0 l1 where l: "put_u16 (20 + word_of_nat (length payload)) = [l0, l1]"
    by (simp add: put_u16_def)
  have be: "push_bit 8 (ucast l0) OR ucast l1 = (20 + word_of_nat (length payload) :: u16)"
    using be_u16_put [of "20 + word_of_nat (length payload)" "[]"] l by simp
  define pkt where "pkt = makeIPv4Packet src dst proto payload"
  have pkt: "pkt = [0x45, 0, l0, l1, 0, 0, 0, 0, 64, proto, 0, 0,
                    s0, s1, s2, s3, d0, d1, d2, d3] @ payload"
    by (simp add: pkt_def makeIPv4Packet_def Let_def l s d copy_into_def put_u16_def [of 0])
  show ?thesis
    unfolding pkt_def [symmetric]
    by (simp add: parser_defs Let_def pkt subslice_def be s d copy_into_def)
qed

theorem make_packet_parses_witness:
  "ParseIPv4Header (makeIPv4Packet [10, 8, 0, 2] [8, 8, 8, 8] ProtoUDP [1, 2, 3])
     = Ok \<lparr>Version = 4, IHL = 5, TotalLen = 23, Protocol = 17,
           SrcIP = [10, 8, 0, 2], DstIP = [8, 8, 8, 8]\<rparr>"
  using make_packet_parses [of "[10, 8, 0, 2]" "[8, 8, 8, 8]" ProtoUDP "[1, 2, 3]"]
  by (simp add: ProtoUDP_def)

end
