(* ===== verification/Go_Strings.thy ===== *)
theory Go_Strings
  imports VPN_Prelude "HOL-Library.Char_ord"
begin

section \<open>The string functions of Go's standard library that the code calls\<close>

text \<open>
  Decimal text (\<open>strconv.ParseInt\<close>, \<open>strconv.Atoi\<close>, \<open>FormatInt\<close> and the \<open>%d\<close> verb), hexadecimal
  text (\<open>hex.DecodeString\<close> and the \<open>%x\<close> verb) and the splitting functions of package
  \<open>strings\<close>. Strings are byte strings; the white space of \<open>strings.Fields\<close> is the ASCII
  white space. The lemmas are the round trips and the bounds the components need.
\<close>

subsection \<open>Decimal numbers\<close>

definition is_digit :: "char \<Rightarrow> bool" where
  "is_digit c \<longleftrightarrow> (48::nat) \<le> of_char c \<and> of_char c \<le> (57::nat)"

definition digit_value :: "char \<Rightarrow> nat" where
  "digit_value c = of_char c - 48"

definition digit_char :: "nat \<Rightarrow> char" where
  "digit_char n = char_of (48 + n)"

fun dec_value :: "string \<Rightarrow> nat \<Rightarrow> nat option" where
  "dec_value [] acc = Some acc"
| "dec_value (c # cs) acc =
     (if is_digit c then dec_value cs (10 * acc + digit_value c) else None)"

text \<open>
  \<open>strconv.ParseInt(s, 10, 64)\<close> and, on a 64-bit platform, \<open>strconv.Atoi(s)\<close>: an optional
  sign, at least one digit, nothing else, and a value that fits in 64 bits. \<open>None\<close> is a
  non-nil error; the callers look at nothing else of it.
\<close>

definition ParseInt64 :: "string \<Rightarrow> int option" where
  "ParseInt64 s =
     (let neg = (s \<noteq> [] \<and> hd s = CHR ''-'');
          body = (if s \<noteq> [] \<and> (hd s = CHR ''-'' \<or> hd s = CHR ''+'') then tl s else s)
      in if body = [] then None
         else case dec_value body 0 of
           None \<Rightarrow> None
         | Some n \<Rightarrow>
             if neg then (if int n \<le> 2 ^ 63 then Some (- int n) else None)
             else (if int n < 2 ^ 63 then Some (int n) else None))"

fun format_nat :: "nat \<Rightarrow> string" where
  "format_nat n =
     (if n < 10 then [digit_char n] else format_nat (n div 10) @ [digit_char (n mod 10)])"

declare format_nat.simps [simp del]

definition format_int :: "int \<Rightarrow> string" where
  "format_int i = (if i < 0 then CHR ''-'' # format_nat (nat (- i)) else format_nat (nat i))"

lemma digit_char_digit [simp]: "n < 10 \<Longrightarrow> is_digit (digit_char n)"
  and digit_value_char [simp]: "n < 10 \<Longrightarrow> digit_value (digit_char n) = n"
  by (simp_all add: is_digit_def digit_value_def digit_char_def of_char_of)

lemma dec_value_append:
  "dec_value (s @ t) acc = (case dec_value s acc of None \<Rightarrow> None | Some a \<Rightarrow> dec_value t a)"
  by (induction s arbitrary: acc) auto

lemma dec_value_format: "dec_value (format_nat n) 0 = Some n"
proof (induction n rule: format_nat.induct)
  case (1 n)
  show ?case
  proof (cases "n < 10")
    case True
    then show ?thesis by (simp add: format_nat.simps)
  next
    case False
    with "1.IH" have "dec_value (format_nat (n div 10)) 0 = Some (n div 10)" by simp
    with False show ?thesis
      by (subst format_nat.simps) (simp add: dec_value_append)
  qed
qed

lemma format_nat_digits: "c \<in> set (format_nat n) \<Longrightarrow> is_digit c"
proof (induction n rule: format_nat.induct)
  case (1 n)
  then show ?case
    by (subst (asm) format_nat.simps) (auto split: if_splits)
qed

lemma format_nat_nonempty [simp]: "format_nat n \<noteq> []"
  by (subst format_nat.simps) simp

lemma not_digit_sign [simp]: "\<not> is_digit CHR ''-''" "\<not> is_digit CHR ''+''"
  "\<not> is_digit CHR ''.''" "\<not> is_digit CHR ''/''" "\<not> is_digit CHR '':''"
  by (simp_all add: is_digit_def)

lemma hd_format_nat_digit: "is_digit (hd (format_nat n))"
  by (rule format_nat_digits [of _ n]) simp

lemma hd_format_nat [simp]: "hd (format_nat n) \<noteq> CHR ''-''" "hd (format_nat n) \<noteq> CHR ''+''"
  using hd_format_nat_digit [of n] not_digit_sign by metis+

lemma ParseInt64_format:
  assumes "- (2 ^ 63) \<le> i" and "i < 2 ^ 63"
  shows "ParseInt64 (format_int i) = Some i"
  using assms by (auto simp: ParseInt64_def format_int_def dec_value_format Let_def)

lemma ParseInt64_bounds: "ParseInt64 s = Some i \<Longrightarrow> - (2 ^ 63) \<le> i \<and> i < 2 ^ 63"
  by (auto simp: ParseInt64_def Let_def split: if_splits option.splits)

lemma ParseInt64_empty [simp]: "ParseInt64 [] = None"
  by (simp add: ParseInt64_def)

lemma dec_value_mono: "dec_value s acc = Some n \<Longrightarrow> acc \<le> n"
proof (induction s arbitrary: acc)
  case (Cons c s)
  then have "10 * acc + digit_value c \<le> n" by (auto split: if_splits)
  then show ?case by simp
qed simp

subsection \<open>Hexadecimal text\<close>

text \<open>
  The \<open>%x\<close> verb on a byte slice writes two lower-case digits per byte;
  \<open>hex.DecodeString\<close> reads digits of either case and fails on another character or on an
  odd number of characters.
\<close>

definition hex_digit :: "nat \<Rightarrow> char" where
  "hex_digit n = (if n < 10 then char_of (48 + n) else char_of (87 + n))"

definition from_hex :: "char \<Rightarrow> nat option" where
  "from_hex c =
     (let n = (of_char c :: nat) in
      if 48 \<le> n \<and> n \<le> 57 then Some (n - 48)
      else if 97 \<le> n \<and> n \<le> 102 then Some (n - 87)
      else if 65 \<le> n \<and> n \<le> 70 then Some (n - 55)
      else None)"

fun hex_encode :: "bytes \<Rightarrow> string" where
  "hex_encode [] = []"
| "hex_encode (b # bs) = hex_digit (unat b div 16) # hex_digit (unat b mod 16) # hex_encode bs"

fun hex_decode :: "string \<Rightarrow> bytes option" where
  "hex_decode [] = Some []"
| "hex_decode [c] = None"
| "hex_decode (a # b # cs) =
     (case (from_hex a, from_hex b) of
        (Some x, Some y) \<Rightarrow> map_option (\<lambda>bs. word_of_nat (16 * x + y) # bs) (hex_decode cs)
      | _ \<Rightarrow> None)"

lemma from_hex_digit [simp]: "n < 16 \<Longrightarrow> from_hex (hex_digit n) = Some n"
  by (auto simp: from_hex_def hex_digit_def of_char_of Let_def)

lemma unat_byte_div [simp]: "unat (b :: byte) div 16 < 16"
  by (rule less_mult_imp_div_less) (simp add: unat_byte_less)

lemma hex_decode_encode [simp]: "hex_decode (hex_encode bs) = Some bs"
  by (induction bs) (simp_all del: of_nat_add of_nat_mult)

lemma length_hex_encode [simp]: "length (hex_encode bs) = 2 * length bs"
  by (induction bs) simp_all

lemma hex_encode_inj: "hex_encode xs = hex_encode ys \<Longrightarrow> xs = ys"
  by (metis hex_decode_encode option.inject)

lemma length_hex_decode: "hex_decode s = Some bs \<Longrightarrow> length s = 2 * length bs"
  by (induction s arbitrary: bs rule: hex_decode.induct) (auto split: option.splits)

subsection \<open>Splitting\<close>

definition is_space :: "char \<Rightarrow> bool" where
  "is_space c \<longleftrightarrow> (let n = (of_char c :: nat) in n = 32 \<or> (9 \<le> n \<and> n \<le> 13))"

function Fields :: "string \<Rightarrow> string list" where
  "Fields s =
     (case dropWhile is_space s of
        [] \<Rightarrow> []
      | c # cs \<Rightarrow> takeWhile (\<lambda>x. \<not> is_space x) (c # cs)
                 # Fields (dropWhile (\<lambda>x. \<not> is_space x) (c # cs)))"
  by pat_completeness auto
termination
proof (relation "measure length", simp)
  fix s :: string and c cs
  assume d: "dropWhile is_space s = c # cs"
  then have "\<not> is_space c" by (simp add: dropWhile_eq_Cons_conv)
  then have "length (dropWhile (\<lambda>x. \<not> is_space x) (c # cs)) < length (c # cs)"
    by (simp add: length_dropWhile_le less_Suc_eq_le)
  also have "length (c # cs) \<le> length s"
    using d length_dropWhile_le [of is_space s] by simp
  finally show "(dropWhile (\<lambda>x. \<not> is_space x) (c # cs), s) \<in> measure length"
    by simp
qed

declare Fields.simps [simp del]

fun split_on :: "char \<Rightarrow> string \<Rightarrow> string list" where
  "split_on sep [] = [[]]"
| "split_on sep (c # cs) =
     (if c = sep then [] # split_on sep cs
      else case split_on sep cs of
        [] \<Rightarrow> [[c]]
      | w # ws \<Rightarrow> (c # w) # ws)"

text \<open>\<open>strings.SplitN(s, sep, 2)\<close>: the text before and after the first separator.\<close>

fun split_first :: "char \<Rightarrow> string \<Rightarrow> string list" where
  "split_first sep [] = [[]]"
| "split_first sep (c # cs) =
     (if c = sep then [[], cs]
      else case split_first sep cs of
        [] \<Rightarrow> [[c]]
      | w # ws \<Rightarrow> (c # w) # ws)"

definition HasPrefix :: "string \<Rightarrow> string \<Rightarrow> bool" where
  "HasPrefix s p \<longleftrightarrow> take (length p) s = p"

fun Contains :: "string \<Rightarrow> string \<Rightarrow> bool" where
  "Contains [] p = (p = [])"
| "Contains (c # cs) p = (HasPrefix (c # cs) p \<or> Contains cs p)"

definition TrimSpace :: "string \<Rightarrow> string" where
  "TrimSpace s = rev (dropWhile is_space (rev (dropWhile is_space s)))"

lemma split_on_nonempty [simp]: "split_on sep s \<noteq> []"
  by (induction s) (auto split: list.splits)

lemma split_on_no_sep: "sep \<notin> set w \<Longrightarrow> split_on sep w = [w]"
  by (induction w) auto

lemma split_on_append: "sep \<notin> set w \<Longrightarrow> split_on sep (w @ sep # s) = w # split_on sep s"
  by (induction w) auto

lemma Fields_empty [simp]: "Fields [] = []"
  by (simp add: Fields.simps)

lemma Fields_space: "is_space c \<Longrightarrow> Fields (c # s) = Fields s"
  by (simp add: Fields.simps [of "c # s"] Fields.simps [of s])

lemma Fields_word:
  assumes "w \<noteq> []" and "\<forall>c\<in>set w. \<not> is_space c" and "s = [] \<or> is_space (hd s)"
  shows "Fields (w @ s) = w # Fields s"
proof -
  obtain c cs where w: "w = c # cs" and c: "\<not> is_space c"
    using assms(1,2) by (cases w) auto
  have tw: "takeWhile (\<lambda>x. \<not> is_space x) (w @ s) = w"
    using assms(2,3) by (cases s) auto
  have dw: "dropWhile (\<lambda>x. \<not> is_space x) (w @ s) = s"
    using assms(2,3) by (cases s) auto
  have "Fields (w @ s) = takeWhile (\<lambda>x. \<not> is_space x) (w @ s)
          # Fields (dropWhile (\<lambda>x. \<not> is_space x) (w @ s))"
    using c by (subst Fields.simps) (simp add: w)
  with tw dw show ?thesis by simp
qed

end
