(* ===== verification/Net_Addr.thy ===== *)
theory Net_Addr
  imports Go_Strings
begin

section \<open>IP addresses and prefixes (Go's package net, as the code uses it)\<close>

text \<open>
  An address is Go's \<open>net.IP\<close>, a byte slice of length 4 or 16, or empty for nil. IPv4 text is
  parsed and printed here; the textual form of IPv6 is the parameter \<open>p6\<close> (and \<open>f6\<close> for
  printing) of the functions that can meet it. The lemmas give the round trip of a dotted
  quad, the sizes of canonical masks, and the link between the byte-wise mask test of
  \<open>IPNet.Contains\<close> and arithmetic on the 32-bit address.
\<close>

definition v4_in_v6_prefix :: bytes where
  "v4_in_v6_prefix = replicate 10 0 @ [255, 255]"

definition To4 :: "bytes \<Rightarrow> bytes option" where
  "To4 ip =
     (if length ip = 4 then Some ip
      else if length ip = 16 \<and> take 12 ip = v4_in_v6_prefix then Some (drop 12 ip)
      else None)"

subsection \<open>Text\<close>

definition parse_octet :: "string \<Rightarrow> byte option" where
  "parse_octet w =
     (if w = [] \<or> (1 < length w \<and> hd w = CHR ''0'') then None
      else case dec_value w 0 of
        None \<Rightarrow> None
      | Some n \<Rightarrow> if n \<le> 255 then Some (word_of_nat n) else None)"

definition parse_ipv4 :: "string \<Rightarrow> bytes option" where
  "parse_ipv4 s =
     (case split_on CHR ''.'' s of
        [a, b, c, d] \<Rightarrow>
          (case (parse_octet a, parse_octet b, parse_octet c, parse_octet d) of
             (Some w, Some x, Some y, Some z) \<Rightarrow> Some [w, x, y, z]
           | _ \<Rightarrow> None)
      | _ \<Rightarrow> None)"

text \<open>
  \<open>netip.ParseAddr\<close>: the first of the characters dot, colon and percent decides the family.
  The result is the 16-byte form with the number of bits of the family.
\<close>

definition parse_addr :: "(string \<Rightarrow> bytes option) \<Rightarrow> string \<Rightarrow> (bytes \<times> nat) option" where
  "parse_addr p6 s =
     (case dropWhile (\<lambda>c. c \<noteq> CHR ''.'' \<and> c \<noteq> CHR '':'' \<and> c \<noteq> CHR ''%'') s of
        [] \<Rightarrow> None
      | c # _ \<Rightarrow>
          if c = CHR ''.'' then map_option (\<lambda>ip. (v4_in_v6_prefix @ ip, 32)) (parse_ipv4 s)
          else if c = CHR '':'' then map_option (\<lambda>ip. (ip, 128)) (p6 s)
          else None)"

definition ParseIP :: "(string \<Rightarrow> bytes option) \<Rightarrow> string \<Rightarrow> bytes option" where
  "ParseIP p6 s = map_option fst (parse_addr p6 s)"

definition dotted :: "bytes \<Rightarrow> string" where
  "dotted ip =
     (case ip of
        [a, b, c, d] \<Rightarrow> format_nat (unat a) @ ''.'' @ format_nat (unat b) @ ''.''
                        @ format_nat (unat c) @ ''.'' @ format_nat (unat d)
      | _ \<Rightarrow> [])"

definition ip_string :: "(bytes \<Rightarrow> string) \<Rightarrow> bytes \<Rightarrow> string" where
  "ip_string f6 ip =
     (if ip = [] then ''<nil>'' else case To4 ip of Some v4 \<Rightarrow> dotted v4 | None \<Rightarrow> f6 ip)"

subsection \<open>Masks and prefixes\<close>

definition mask_byte :: "nat \<Rightarrow> byte" where
  "mask_byte k = (if 8 \<le> k then 255 else NOT (drop_bit k 255))"

definition CIDRMask :: "nat \<Rightarrow> nat \<Rightarrow> bytes" where
  "CIDRMask ones bits = map (\<lambda>i. mask_byte (ones - 8 * i)) [0..<bits div 8]"

fun lead_ones :: "nat \<Rightarrow> byte \<Rightarrow> nat \<times> byte" where
  "lead_ones 0 v = (0, v)"
| "lead_ones (Suc k) v =
     (if v AND 0x80 \<noteq> 0 then (let (n, v') = lead_ones k (push_bit 1 v) in (Suc n, v'))
      else (0, v))"

fun simple_mask_length :: "bytes \<Rightarrow> nat option" where
  "simple_mask_length [] = Some 0"
| "simple_mask_length (v # vs) =
     (if v = 255 then map_option (\<lambda>n. 8 + n) (simple_mask_length vs)
      else let (n, rest) = lead_ones 8 v in
        if rest \<noteq> 0 then None else if list_all (\<lambda>b. b = 0) vs then Some n else None)"

text \<open>\<open>IPMask.Size\<close>: the number of leading ones and the number of bits, or (0, 0).\<close>

definition mask_size :: "bytes \<Rightarrow> nat \<times> nat" where
  "mask_size m =
     (case simple_mask_length m of None \<Rightarrow> (0, 0) | Some n \<Rightarrow> (n, 8 * length m))"

record ip_net =
  net_ip :: bytes
  net_mask :: bytes

definition ip_mask :: "bytes \<Rightarrow> bytes \<Rightarrow> bytes" where
  "ip_mask ip m =
     (let ip' = (if length m = 4 \<and> length ip = 16 \<and> take 12 ip = v4_in_v6_prefix
                 then drop 12 ip else ip)
      in if length ip' \<noteq> length m then [] else map2 (AND) ip' m)"

definition ParseCIDR :: "(string \<Rightarrow> bytes option) \<Rightarrow> string \<Rightarrow> (bytes \<times> ip_net) option" where
  "ParseCIDR p6 s =
     (case split_first CHR ''/'' s of
        [a, mk] \<Rightarrow>
          (case (parse_addr p6 a, if mk = [] then None else dec_value mk 0) of
             (Some (ip, bitlen), Some n) \<Rightarrow>
               if bitlen < n then None
               else let m = CIDRMask n bitlen
                    in Some (ip, \<lparr>net_ip = ip_mask ip m, net_mask = m\<rparr>)
           | _ \<Rightarrow> None)
      | _ \<Rightarrow> None)"

definition net_contains :: "ip_net \<Rightarrow> bytes \<Rightarrow> bool" where
  "net_contains n ip =
     (let nn = (case To4 (net_ip n) of Some x \<Rightarrow> x | None \<Rightarrow> net_ip n);
          m = (if length (net_mask n) = 16 \<and> length nn = 4 then drop 12 (net_mask n)
               else net_mask n);
          x = (case To4 ip of Some v \<Rightarrow> v | None \<Rightarrow> ip)
      in (length nn = 4 \<or> length nn = 16) \<and> length m = length nn \<and> length x = length nn
         \<and> map2 (AND) nn m = map2 (AND) x m)"

subsection \<open>Lemmas\<close>

lemma To4_length: "To4 ip = Some v \<Longrightarrow> length v = 4"
  by (auto simp: To4_def split: if_splits)

lemma To4_id [simp]: "length ip = 4 \<Longrightarrow> To4 ip = Some ip"
  by (simp add: To4_def)

lemma length_v4_prefix [simp]: "length v4_in_v6_prefix = 12"
  by (simp add: v4_in_v6_prefix_def)

lemma To4_mapped [simp]: "length ip = 4 \<Longrightarrow> To4 (v4_in_v6_prefix @ ip) = Some ip"
  by (simp add: To4_def)

lemma length_CIDRMask [simp]: "length (CIDRMask n bits) = bits div 8"
  by (simp add: CIDRMask_def)

lemma mask_size_CIDRMask:
  assumes "n \<le> 32"
  shows "mask_size (CIDRMask n 32) = (n, 32)"
proof -
  have "\<forall>n \<in> set [0..<33]. mask_size (CIDRMask n 32) = (n, 32)"
    by code_simp
  then show ?thesis using assms by simp
qed

text \<open>A dotted quad reads back: each octet, then the four fields.\<close>

lemma format_nat_zero: "format_nat 0 = ''0''"
  by (subst format_nat.simps) (simp add: digit_char_def, code_simp)

lemma hd_format_nat_nonzero: "n \<noteq> 0 \<Longrightarrow> hd (format_nat n) \<noteq> CHR ''0''"
proof (induction n rule: format_nat.induct)
  case (1 n)
  show ?case
  proof (cases "n < 10")
    case True
    have "digit_char n \<noteq> CHR ''0''"
    proof
      assume "digit_char n = CHR ''0''"
      then have "digit_value (digit_char n) = digit_value CHR ''0''" by simp
      then have "n = digit_value CHR ''0''" using True by simp
      with 1 show False by (simp add: digit_value_def)
    qed
    with True show ?thesis by (simp add: format_nat.simps)
  next
    case False
    with 1 show ?thesis by (subst format_nat.simps) (simp add: hd_append)
  qed
qed

lemma length_format_small: "n < 10 \<Longrightarrow> length (format_nat n) = 1"
  by (simp add: format_nat.simps)

lemma parse_octet_format: "parse_octet (format_nat (unat (b :: byte))) = Some b"
proof -
  have "unat b \<le> 255"
    using unat_byte_less [of b] by simp
  moreover have "\<not> (1 < length (format_nat (unat b)) \<and> hd (format_nat (unat b)) = CHR ''0'')"
    using hd_format_nat_nonzero [of "unat b"]
    by (cases "unat b = 0") (simp_all add: format_nat_zero)
  ultimately show ?thesis
    by (simp add: parse_octet_def dec_value_format)
qed

lemma no_dot_in_number: "CHR ''.'' \<notin> set (format_nat n)"
  using format_nat_digits not_digit_sign(3) by blast

lemma dotted_4: "dotted [a, b, c, d] = format_nat (unat a) @ CHR ''.'' # format_nat (unat b)
    @ CHR ''.'' # format_nat (unat c) @ CHR ''.'' # format_nat (unat d)"
  by (simp add: dotted_def)

lemma length_4E:
  assumes "length ip = 4" obtains a b c d where "ip = [a, b, c, d]"
  using assms by (auto simp: length_Suc_conv numeral_eq_Suc)

lemma parse_ipv4_dotted: "length ip = 4 \<Longrightarrow> parse_ipv4 (dotted ip) = Some ip"
  by (erule length_4E)
     (simp add: parse_ipv4_def dotted_4 split_on_append split_on_no_sep no_dot_in_number
        parse_octet_format)

lemma digits_before_dot:
  "dropWhile (\<lambda>c. c \<noteq> CHR ''.'' \<and> c \<noteq> CHR '':'' \<and> c \<noteq> CHR ''%'') (format_nat n @ CHR ''.'' # s)
   = CHR ''.'' # s"
proof -
  have "\<And>c. c \<in> set (format_nat n) \<Longrightarrow> is_digit c" by (rule format_nat_digits)
  then have "\<forall>c\<in>set (format_nat n). c \<noteq> CHR ''.'' \<and> c \<noteq> CHR '':'' \<and> c \<noteq> CHR ''%''"
    by (force simp: is_digit_def)
  then show ?thesis by (simp add: dropWhile_append2)
qed

lemma ParseIP_dotted:
  "length ip = 4 \<Longrightarrow> ParseIP p6 (dotted ip) = Some (v4_in_v6_prefix @ ip)"
  using parse_ipv4_dotted [of ip]
  by (elim length_4E) (simp add: ParseIP_def parse_addr_def dotted_4 digits_before_dot)

subsection \<open>Masks as words\<close>

lemma CIDRMask_word:
  assumes "n \<le> 32"
  shows "CIDRMask n 32 = put_u32 (NOT (mask (32 - n)))"
proof -
  have "\<forall>n \<in> set [0..<33]. CIDRMask n 32 = put_u32 (NOT (mask (32 - n)))"
    by code_simp
  then show ?thesis using assms by simp
qed

lemma map2_and_put_u32: "map2 (AND) (put_u32 a) (put_u32 b) = put_u32 (a AND b)"
  by (auto simp: put_u32_def bit_simps intro!: bit_word_eqI)

lemma host_bits_zero: "(b :: u32) AND mask k = 0 \<Longrightarrow> unat b mod 2 ^ k = 0"
proof -
  assume "b AND mask k = 0"
  then have "take_bit k b = 0" by (simp add: take_bit_eq_mask)
  then have "take_bit k (unat b) = 0" by (metis unsigned_take_bit_eq unsigned_0)
  then show ?thesis by (simp add: take_bit_eq_mod)
qed

lemma host_bits_room:
  assumes "(b :: u32) AND mask k = 0" and "k \<le> 32"
  shows "unat b + 2 ^ k \<le> 2 ^ 32"
proof -
  obtain q where q: "unat b = 2 ^ k * q"
    using host_bits_zero [OF assms(1)] by (auto simp: mod_eq_0_iff_dvd elim: dvdE)
  have e: "(2::nat) ^ 32 = 2 ^ k * 2 ^ (32 - k)"
    using assms(2) by (simp add: power_add [symmetric])
  have "2 ^ k * q < 2 ^ k * (2 ^ (32 - k) :: nat)"
    using unat_u32_less [of b] e q by simp
  then have "q + 1 \<le> 2 ^ (32 - k)" by simp
  then have "2 ^ k * (q + 1) \<le> (2 ^ k * 2 ^ (32 - k) :: nat)" by (intro mult_le_mono2)
  then show ?thesis using q e by simp
qed

lemma and_not_mask: "(w :: u32) AND NOT (mask k) = w - take_bit k w"
proof -
  have "w AND NOT (mask k) = push_bit k (drop_bit k w)"
    by (rule bit_word_eqI) (auto simp: bit_simps)
  moreover have "push_bit k (drop_bit k w) + take_bit k w = w" by (rule bits_ident)
  ultimately show ?thesis by (metis add_diff_cancel_right')
qed

lemma host_part_dropped:
  assumes b: "(b :: u32) AND mask k = 0" and k: "k \<le> 32" and j: "j < 2 ^ k"
  shows "(b + word_of_nat j) AND NOT (mask k) = b"
proof -
  have room: "unat b + j < 2 ^ 32" using host_bits_room [OF b k] j by simp
  then have u: "unat (b + word_of_nat j) = unat b + j"
    by (simp add: unat_word_ariths unat_of_nat)
  have "(unat b + j) mod 2 ^ k = j" using host_bits_zero [OF b] j by (metis add_0 mod_add_left_eq mod_less)
  then have "take_bit k (unat b + j) = j" by (simp only: take_bit_eq_mod)
  then have "unat (take_bit k (b + word_of_nat j)) = unat (word_of_nat j :: u32)"
    using room by (simp only: unsigned_take_bit_eq u) (simp add: unat_of_nat)
  then have "take_bit k (b + word_of_nat j) = word_of_nat j" by (simp add: word_unat_eq_iff)
  then show ?thesis by (simp add: and_not_mask)
qed

lemma parse_ipv4_length: "parse_ipv4 s = Some ip \<Longrightarrow> length ip = 4"
  by (auto simp: parse_ipv4_def split: list.splits option.splits)

lemma parse_addr_cases:
  assumes "parse_addr p6 s = Some (ip, bits)"
  obtains (v4) ip4 where "ip = v4_in_v6_prefix @ ip4" "length ip4 = 4" "bits = 32"
  | (v6) "p6 s = Some ip" "bits = 128"
  using assms by (auto simp: parse_addr_def parse_ipv4_length split: list.splits if_splits)

lemma ip_mask_v4:
  "length ip4 = 4 \<Longrightarrow> length m = 4 \<Longrightarrow> ip_mask (v4_in_v6_prefix @ ip4) m = map2 (AND) ip4 m"
  by (simp add: ip_mask_def)

lemma ParseCIDR_Some:
  "ParseCIDR p6 s = Some (ip, nt) \<Longrightarrow> \<exists>a bits n. parse_addr p6 a = Some (ip, bits) \<and> n \<le> bits
     \<and> nt = \<lparr>net_ip = ip_mask ip (CIDRMask n bits), net_mask = CIDRMask n bits\<rparr>"
  by (clarsimp simp: ParseCIDR_def Let_def not_less split: list.splits option.splits if_splits)
     blast

text \<open>A prefix accepted for IPv4: the address masked to \<open>n\<close> leading bits.\<close>

lemma ParseCIDR_v4:
  assumes "ParseCIDR p6 s = Some (ip, nt)" and "mask_size (net_mask nt) = (ones, 32)"
  obtains b where "ones \<le> 32" and "net_mask nt = CIDRMask ones 32"
    and "net_ip nt = put_u32 b" and "b AND mask (32 - ones) = 0"
proof -
  obtain a bits n where a: "parse_addr p6 a = Some (ip, bits)" "n \<le> bits"
    and nt: "nt = \<lparr>net_ip = ip_mask ip (CIDRMask n bits), net_mask = CIDRMask n bits\<rparr>"
    using ParseCIDR_Some [OF assms(1)] by blast
  from a(1) show thesis
  proof (cases rule: parse_addr_cases)
    case (v4 ip4)
    then have ones: "n = ones" using assms(2) a(2) nt by (simp add: mask_size_CIDRMask)
    obtain w where w: "be_u32 ip4 = Some w" using be_u32_Some [of ip4] v4 by auto
    then have ip4: "ip4 = put_u32 w" using put_be_u32 v4(2) by metis
    have "net_ip nt = put_u32 (w AND NOT (mask (32 - n)))"
      using v4 a(2) by (simp add: nt ip_mask_v4 CIDRMask_word ip4 map2_and_put_u32 length_put_u32)
    moreover have "(w AND NOT (mask (32 - n))) AND mask (32 - n) = 0"
      by (rule bit_word_eqI) (simp add: bit_simps)
    ultimately show thesis
      using v4 a(2) nt unfolding ones by (intro that) simp_all
  next
    case v6
    then show thesis using assms(2) nt by (auto simp: mask_size_def split: option.splits)
  qed
qed

lemma net_contains_v4:
  assumes "net_ip nt = put_u32 b" and "net_mask nt = CIDRMask n 32" and "n \<le> 32"
  shows "net_contains nt (put_u32 a)
         \<longleftrightarrow> b AND NOT (mask (32 - n)) = a AND NOT (mask (32 - n))"
  using assms by (auto simp: net_contains_def length_put_u32 CIDRMask_word map2_and_put_u32 Let_def
      dest: put_u32_inj)

end
