(* ===== verification/Allocator_Spec.thy ===== *)
theory Allocator_Spec
  imports Main
begin

section \<open>The interface of an address allocator\<close>

text \<open>
  What the daemon relies on when it calls the address pool, apart from how the pool is
  implemented: \<open>take\<close> either fails and changes nothing, or returns a usable address that is
  not held and holds it from then on; \<open>give\<close> of a held address frees exactly that
  address. The client side is a ledger of outstanding leases, as the handlers of the daemon
  keep them: the locale shows once that the ledger never holds an address twice.
\<close>

datatype 'a lease_op = TakeOp | GiveOp 'a

text \<open>One operation of the client on the pool state and its ledger, and a sequence of them.\<close>

fun lease_step ::
  "('s \<Rightarrow> 'a option \<times> 's) \<Rightarrow> ('s \<Rightarrow> 'a \<Rightarrow> 's) \<Rightarrow> 'a lease_op \<Rightarrow> 's \<times> 'a list \<Rightarrow> 's \<times> 'a list"
where
  "lease_step take_fn give_fn TakeOp (s, ls) =
     (case take_fn s of (None, s') \<Rightarrow> (s', ls) | (Some a, s') \<Rightarrow> (s', ls @ [a]))"
| "lease_step take_fn give_fn (GiveOp a) (s, ls) =
     (if a \<in> set ls then (give_fn s a, remove1 a ls) else (s, ls))"

fun lease_run ::
  "('s \<Rightarrow> 'a option \<times> 's) \<Rightarrow> ('s \<Rightarrow> 'a \<Rightarrow> 's) \<Rightarrow> 'a lease_op list \<Rightarrow> 's \<times> 'a list \<Rightarrow> 's \<times> 'a list"
where
  "lease_run take_fn give_fn [] st = st"
| "lease_run take_fn give_fn (x # xs) st =
     lease_run take_fn give_fn xs (lease_step take_fn give_fn x st)"

locale ip_allocator =
  fixes take_fn :: "'s \<Rightarrow> 'a option \<times> 's"
    and give_fn :: "'s \<Rightarrow> 'a \<Rightarrow> 's"
    and held_fn :: "'s \<Rightarrow> 'a set"
    and usable_fn :: "'s \<Rightarrow> 'a set"
    and inv_fn :: "'s \<Rightarrow> bool"
  assumes take_None: "inv_fn s \<Longrightarrow> take_fn s = (None, s') \<Longrightarrow> s' = s"
    and take_Some: "inv_fn s \<Longrightarrow> take_fn s = (Some a, s') \<Longrightarrow>
      inv_fn s' \<and> a \<in> usable_fn s \<and> a \<notin> held_fn s
      \<and> held_fn s' = insert a (held_fn s) \<and> usable_fn s' = usable_fn s"
    and give_held: "inv_fn s \<Longrightarrow> a \<in> held_fn s \<Longrightarrow>
      inv_fn (give_fn s a) \<and> held_fn (give_fn s a) = held_fn s - {a}
      \<and> usable_fn (give_fn s a) = usable_fn s"
begin

definition ledger_ok :: "'s \<times> 'a list \<Rightarrow> bool" where
  "ledger_ok st \<longleftrightarrow> inv_fn (fst st) \<and> distinct (snd st) \<and> set (snd st) = held_fn (fst st)"

lemma ledger_step: "ledger_ok st \<Longrightarrow> ledger_ok (lease_step take_fn give_fn x st)"
proof (cases st)
  case (Pair s ls)
  assume ok: "ledger_ok st"
  then have inv: "inv_fn s" and d: "distinct ls" and h: "set ls = held_fn s"
    by (simp_all add: ledger_ok_def Pair)
  show ?thesis
  proof (cases x)
    case TakeOp
    show ?thesis
    proof (cases "take_fn s")
      case (Pair r s')
      show ?thesis
      proof (cases r)
        case None
        with Pair have "s' = s" using take_None [OF inv] by simp
        with ok None TakeOp Pair \<open>st = (s, ls)\<close> show ?thesis by simp
      next
        case (Some a)
        with Pair take_Some [OF inv, of a s'] d h TakeOp \<open>st = (s, ls)\<close>
        show ?thesis by (simp add: ledger_ok_def)
      qed
    qed
  next
    case (GiveOp a)
    then show ?thesis
      using ok give_held [OF inv, of a] d h Pair by (auto simp: ledger_ok_def)
  qed
qed

lemma ledger_run: "ledger_ok st \<Longrightarrow> ledger_ok (lease_run take_fn give_fn xs st)"
  by (induction xs arbitrary: st) (simp_all add: ledger_step)

lemma usable_step:
  "ledger_ok st \<Longrightarrow> usable_fn (fst (lease_step take_fn give_fn x st)) = usable_fn (fst st)"
  by (cases st; cases x)
     (auto simp: ledger_ok_def split: prod.split option.split dest: take_None take_Some give_held)

lemma usable_run:
  "ledger_ok st \<Longrightarrow> usable_fn (fst (lease_run take_fn give_fn xs st)) = usable_fn (fst st)"
  by (induction xs arbitrary: st) (simp_all add: ledger_step usable_step)

lemma held_usable_step:
  assumes ok: "ledger_ok st" and sub: "held_fn (fst st) \<subseteq> usable_fn (fst st)"
  shows "held_fn (fst (lease_step take_fn give_fn x st)) \<subseteq> usable_fn (fst st)"
proof (cases st)
  case (Pair s ls)
  with ok have inv: "inv_fn s" and h: "set ls = held_fn s" by (simp_all add: ledger_ok_def)
  show ?thesis
  proof (cases x)
    case TakeOp
    obtain r s' where t: "take_fn s = (r, s')" by fastforce
    show ?thesis
      using sub take_None [OF inv] take_Some [OF inv] t Pair TakeOp by (cases r) auto
  next
    case (GiveOp a)
    then show ?thesis using sub give_held [OF inv, of a] h Pair by auto
  qed
qed

theorem leases_distinct:
  assumes "ledger_ok st" and "held_fn (fst st) \<subseteq> usable_fn (fst st)"
  shows "distinct (snd (lease_run take_fn give_fn xs st))
         \<and> set (snd (lease_run take_fn give_fn xs st)) \<subseteq> usable_fn (fst st)"
  using assms
proof (induction xs arbitrary: st)
  case Nil
  then show ?case by (simp add: ledger_ok_def)
next
  case (Cons x xs)
  have "held_fn (fst (lease_step take_fn give_fn x st))
        \<subseteq> usable_fn (fst (lease_step take_fn give_fn x st))"
    using held_usable_step [OF Cons.prems] usable_step [OF Cons.prems(1)] by simp
  from Cons.IH [OF ledger_step [OF Cons.prems(1)] this] show ?case
    by (simp add: usable_step [OF Cons.prems(1)])
qed

end

end
