(* ===== verification/IP_Pool.thy ===== *)
theory IP_Pool
  imports Net_Addr Allocator_Spec
begin

section \<open>The address pool (server/daemon/ippool.go)\<close>

text \<open>
  \<open>IPPool\<close> hands out the client addresses of the VPN subnet: its state, the constructor
  \<open>NewIPPool\<close> with the detection of a default size, \<open>Allocate\<close>, \<open>Release\<close> and the
  observers. The mutex of the Go type makes every operation atomic, so an operation is a
  function from the pool to its result and the new pool. Addresses are 32-bit words and
  their arithmetic wraps, as in the code; Go's \<open>int\<close> fields are integers, since no value here
  leaves the range of a 64-bit integer.

  The lemmas give the invariant \<open>pool_wf\<close> that the constructor establishes and every
  operation keeps, the set of addresses the scan of \<open>Allocate\<close> visits, and from that the
  exact condition under which it succeeds.
\<close>

datatype pool_err = ErrPoolExhausted | ErrIPNotManaged

datatype new_pool_err = InvalidCIDR | OnlyIPv4 | UnexpectedMaskBits nat | SubnetTooSmall

record ip_pool =
  subnetIP :: bytes
  subnetNet :: ip_net
  serverIP :: bytes
  baseIP :: u32
  maxClient :: int
  allocated :: "(u32, bool) fmap"
  nextHint :: u32

subsection \<open>Pool size detection\<close>

text \<open>
  \<open>detectRAMGB\<close> reads \<open>/proc/meminfo\<close>; its argument is the text of the file, or \<open>None\<close> when the
  file cannot be read. \<open>detectMaxClients\<close> takes the number of CPUs as well.
\<close>

fun ram_of_lines :: "string list \<Rightarrow> int" where
  "ram_of_lines [] = 0"
| "ram_of_lines (line # rest) =
     (if HasPrefix line ''MemTotal:'' then
        let fields = Fields line in
        if length fields < 2 then 0
        else case ParseInt64 (fields ! 1) of
          None \<Rightarrow> 0
        | Some kb \<Rightarrow> let gb = go_div kb (1024 * 1024) in if gb < 1 then 1 else gb
      else ram_of_lines rest)"

definition detectRAMGB :: "string option \<Rightarrow> int" where
  "detectRAMGB meminfo =
     (case meminfo of None \<Rightarrow> 0 | Some text \<Rightarrow> ram_of_lines (split_on (CHR 0x0A) text))"

definition detectMaxClients :: "int \<Rightarrow> string option \<Rightarrow> int" where
  "detectMaxClients numCPU meminfo =
     (let cpuBased = numCPU * 256;
          ramGB = detectRAMGB meminfo;
          ramBased = ramGB * 128;
          best = cpuBased;
          best = (if 0 < ramBased \<and> ramBased < best then ramBased else best);
          best = (if 65533 < best then 65533 else best)
      in if best \<le> 0 then 1024 else best)"

subsection \<open>Operations\<close>

definition ipToUint32 :: "bytes \<Rightarrow> u32 option" where
  "ipToUint32 ip = be_u32 ip"

definition uint32ToIP :: "u32 \<Rightarrow> bytes" where
  "uint32ToIP n = put_u32 n"

definition NewIPPool ::
  "(string \<Rightarrow> bytes option) \<Rightarrow> int \<Rightarrow> string option \<Rightarrow> string \<Rightarrow> int
     \<Rightarrow> (new_pool_err, ip_pool) outcome" where
  "NewIPPool p6 numCPU meminfo cidr maxClients =
     (case ParseCIDR p6 cidr of
        None \<Rightarrow> Err InvalidCIDR
      | Some (ip, ipNet) \<Rightarrow>
          (case To4 ip of
             None \<Rightarrow> Err OnlyIPv4
           | Some ip4 \<Rightarrow>
               let (ones, bits) = mask_size (net_mask ipNet) in
               if bits \<noteq> 32 then Err (UnexpectedMaskBits bits)
               else
                 let totalUsable = 2 ^ (bits - ones) - 2 :: int in
                 if totalUsable < 1 then Err SubnetTooSmall
                 else
                   let maxClients = (if maxClients \<le> 0 then detectMaxClients numCPU meminfo
                                     else maxClients);
                       maxAvail = totalUsable - 1;
                       maxClients = (if maxAvail < maxClients then maxAvail else maxClients)
                   in case To4 (net_ip ipNet) of
                        None \<Rightarrow> Panic
                      | Some net4 \<Rightarrow>
                          (case ipToUint32 net4 of
                             None \<Rightarrow> Panic
                           | Some base \<Rightarrow>
                               Ok \<lparr>subnetIP = net4, subnetNet = ipNet,
                                   serverIP = uint32ToIP (base + 1), baseIP = base,
                                   maxClient = maxClients, allocated = fmempty,
                                   nextHint = 2\<rparr>)))"

text \<open>Reading a key of \<open>map[uint32]bool\<close> that is absent gives \<open>false\<close>.\<close>

definition is_allocated :: "ip_pool \<Rightarrow> u32 \<Rightarrow> bool" where
  "is_allocated p a = (case fmlookup (allocated p) a of Some b \<Rightarrow> b | None \<Rightarrow> False)"

definition AllocatedCount :: "ip_pool \<Rightarrow> int" where
  "AllocatedCount p = int (fcard (fmdom (allocated p)))"

definition PoolSize :: "ip_pool \<Rightarrow> int" where
  "PoolSize p = maxClient p"

text \<open>The offset the scan tries in round \<open>i\<close>, and the scan: \<open>n\<close> rounds are left.\<close>

definition scan_offset :: "ip_pool \<Rightarrow> u32 \<Rightarrow> nat \<Rightarrow> u32" where
  "scan_offset p start i =
     (let offset = start + word_of_nat i in
      if word_of_int (maxClient p) + 1 < offset
      then offset - word_of_int (maxClient p) + 1 else offset)"

fun alloc_scan :: "ip_pool \<Rightarrow> u32 \<Rightarrow> nat \<Rightarrow> nat \<Rightarrow> u32 option" where
  "alloc_scan p start i 0 = None"
| "alloc_scan p start i (Suc n) =
     (let offset = scan_offset p start i in
      if \<not> is_allocated p (baseIP p + offset) then Some offset
      else alloc_scan p start (Suc i) n)"

definition Allocate :: "ip_pool \<Rightarrow> (pool_err, bytes) outcome \<times> ip_pool" where
  "Allocate p =
     (if maxClient p \<le> AllocatedCount p then (Err ErrPoolExhausted, p)
      else case alloc_scan p (nextHint p) 0 (nat (maxClient p)) of
        None \<Rightarrow> (Err ErrPoolExhausted, p)
      | Some offset \<Rightarrow>
          let candidate = baseIP p + offset;
              hint = offset + 1;
              hint = (if word_of_int (maxClient p) + 1 < hint then 2 else hint)
          in (Ok (uint32ToIP candidate),
              p\<lparr>allocated := fmupd candidate True (allocated p), nextHint := hint\<rparr>))"

definition Release :: "ip_pool \<Rightarrow> bytes \<Rightarrow> (pool_err, unit) outcome \<times> ip_pool" where
  "Release p ip =
     (case To4 ip of
        None \<Rightarrow> (Err ErrIPNotManaged, p)
      | Some ip4 \<Rightarrow>
          (case ipToUint32 ip4 of
             None \<Rightarrow> (Panic, p)
           | Some num \<Rightarrow>
               let offset = num - baseIP p in
               if offset < 2 \<or> word_of_int (maxClient p) + 1 < offset
               then (Err ErrIPNotManaged, p)
               else if \<not> is_allocated p num then (Err ErrIPNotManaged, p)
               else (Ok (), p\<lparr>allocated := fmdrop num (allocated p), nextHint := offset\<rparr>)))"

definition IsManaged :: "ip_pool \<Rightarrow> bytes \<Rightarrow> bool" where
  "IsManaged p ip = net_contains (subnetNet p) ip"

definition ServerIP :: "ip_pool \<Rightarrow> bytes" where
  "ServerIP p = [] @ serverIP p"

definition SubnetCIDR :: "ip_pool \<Rightarrow> string" where
  "SubnetCIDR p =
     (let (ones, _) = mask_size (net_mask (subnetNet p))
      in ip_string (\<lambda>_. []) (subnetIP p) @ ''/'' @ format_nat ones)"

subsection \<open>The invariant\<close>

text \<open>
  The size of the pool is positive and below \<open>2 ^ 31\<close>, the client range does not wrap past
  the last 32-bit address, the recorded addresses lie in the client range and are all
  marked true, and the hint lies in the range. Offsets are counted from the network
  address.
\<close>

definition size_of :: "ip_pool \<Rightarrow> nat" where
  "size_of p = nat (maxClient p)"

definition offset_of :: "ip_pool \<Rightarrow> u32 \<Rightarrow> nat" where
  "offset_of p a = unat (a - baseIP p)"

definition addr_at :: "ip_pool \<Rightarrow> nat \<Rightarrow> u32" where
  "addr_at p k = baseIP p + word_of_nat k"

definition client_range :: "ip_pool \<Rightarrow> nat set" where
  "client_range p = {2..size_of p + 1}"

definition held :: "ip_pool \<Rightarrow> u32 set" where
  "held p = fmdom' (allocated p)"

definition pool_wf :: "ip_pool \<Rightarrow> bool" where
  "pool_wf p \<longleftrightarrow> 1 \<le> maxClient p \<and> maxClient p < 2 ^ 31
     \<and> unat (baseIP p) + size_of p + 1 < 2 ^ 32
     \<and> held p \<subseteq> addr_at p ` client_range p
     \<and> (\<forall>a \<in> held p. fmlookup (allocated p) a = Some True)
     \<and> unat (nextHint p) \<in> client_range p"

subsection \<open>Words and offsets\<close>

lemma unat_small: "k < 2 ^ 32 \<Longrightarrow> unat (word_of_nat k :: u32) = k"
  by (simp add: unat_of_nat)

lemma unat_plus_small:
  "unat (a :: u32) + k < 2 ^ 32 \<Longrightarrow> unat (a + word_of_nat k) = unat a + k"
  by (simp add: unat_word_ariths unat_of_nat)

lemma unat_plus_1: "unat (a :: u32) + 1 < 2 ^ 32 \<Longrightarrow> unat (a + 1) = unat a + 1"
  using unat_plus_small [of a 1] by simp

lemma word_of_maxClient:
  "pool_wf p \<Longrightarrow> word_of_int (maxClient p) = (word_of_nat (size_of p) :: u32)"
  by (simp add: pool_wf_def size_of_def)

lemma unat_maxClient:
  assumes "pool_wf p"
  shows "unat (word_of_int (maxClient p) :: u32) = size_of p"
    and "unat (word_of_int (maxClient p) + 1 :: u32) = size_of p + 1"
proof -
  have m: "size_of p + 1 < 2 ^ 32" using assms by (simp add: pool_wf_def)
  then show *: "unat (word_of_int (maxClient p) :: u32) = size_of p"
    using word_of_maxClient [OF assms] unat_small [of "size_of p"] by simp
  show "unat (word_of_int (maxClient p) + 1 :: u32) = size_of p + 1"
    using unat_plus_1 [of "word_of_int (maxClient p)"] * m by simp
qed

lemma pool_wf_size:
  assumes "pool_wf p"
  shows "1 \<le> size_of p" and "size_of p < 2 ^ 31" and "maxClient p = int (size_of p)"
  using assms by (auto simp: pool_wf_def size_of_def)

lemma unat_addr_at:
  "pool_wf p \<Longrightarrow> k \<in> client_range p \<Longrightarrow> unat (addr_at p k) = unat (baseIP p) + k"
  unfolding addr_at_def by (rule unat_plus_small) (auto simp: pool_wf_def client_range_def)

lemma inj_addr_at: "pool_wf p \<Longrightarrow> inj_on (addr_at p) (client_range p)"
  by (rule inj_onI) (metis unat_addr_at add_left_cancel)

lemma addr_at_offset: "addr_at p (offset_of p a) = a"
  by (simp add: addr_at_def offset_of_def)

lemma offset_at:
  assumes "pool_wf p" and "k \<in> client_range p"
  shows "offset_of p (addr_at p k) = k"
proof -
  have "k < 2 ^ 32" using assms by (auto simp: pool_wf_def client_range_def)
  then show ?thesis by (simp add: offset_of_def addr_at_def unat_small)
qed

lemma in_range_iff:
  "pool_wf p \<Longrightarrow> a \<in> addr_at p ` client_range p \<longleftrightarrow> offset_of p a \<in> client_range p"
  by (metis addr_at_offset image_iff offset_at)

lemma finite_held [simp]: "finite (held p)"
  by (simp add: held_def)

lemma card_client_range [simp]: "card (client_range p) = size_of p"
  by (simp add: client_range_def)

lemma AllocatedCount_card: "AllocatedCount p = int (card (held p))"
  by (simp add: AllocatedCount_def held_def fmdom'_alt_def fcard.rep_eq)

lemma is_allocated_iff: "pool_wf p \<Longrightarrow> is_allocated p a \<longleftrightarrow> a \<in> held p"
proof -
  assume "pool_wf p"
  then have "a \<in> held p \<Longrightarrow> fmlookup (allocated p) a = Some True"
    by (simp add: pool_wf_def)
  then show ?thesis
    by (cases "fmlookup (allocated p) a") (auto simp: is_allocated_def held_def fmlookup_dom'_iff)
qed

lemma card_held_le: "pool_wf p \<Longrightarrow> card (held p) \<le> size_of p"
  by (metis card_client_range card_image card_mono finite_imageI finite_atLeastAtMost
      client_range_def inj_addr_at pool_wf_def)

subsection \<open>The scan of Allocate\<close>

lemma scan_offset_unat:
  assumes wf: "pool_wf p" and h: "unat start \<in> client_range p" and i: "i < size_of p"
  shows "unat (scan_offset p start i)
         = (if size_of p + 1 < unat start + i then unat start + i - size_of p + 1
            else unat start + i)"
proof -
  have m: "size_of p < 2 ^ 31" "1 \<le> size_of p" using pool_wf_size [OF wf] by simp_all
  have hb: "2 \<le> unat start" "unat start \<le> size_of p + 1"
    using h by (auto simp: client_range_def)
  have off: "unat (start + word_of_nat i) = unat start + i"
    by (rule unat_plus_small) (use m hb i in simp)
  have sub: "unat (start + word_of_nat i - word_of_int (maxClient p) + 1)
               = unat start + i - size_of p + 1"
    if "size_of p + 1 < unat start + i"
  proof -
    have "unat (start + word_of_nat i - word_of_int (maxClient p)) = unat start + i - size_of p"
      using that by (simp add: unat_sub word_le_nat_alt off unat_maxClient(1) [OF wf])
    then show ?thesis
      using unat_plus_1 [of "start + word_of_nat i - word_of_int (maxClient p)"] m hb i
      by simp
  qed
  show ?thesis
    using sub by (simp add: scan_offset_def Let_def word_less_nat_alt off unat_maxClient(2) [OF wf])
qed

text \<open>
  The rounds visit the whole client range when the hint is its first offset. For any other
  hint the wrapped rounds start at offset 3 and end at the hint: offset 2 is never visited.
\<close>

definition visited :: "ip_pool \<Rightarrow> nat set" where
  "visited p = (if unat (nextHint p) = 2 then client_range p else client_range p - {2})"

lemma scan_visits:
  assumes wf: "pool_wf p"
  shows "(\<lambda>i. unat (scan_offset p (nextHint p) i)) ` {..< size_of p} = visited p"
proof (rule set_eqI)
  fix k
  define h where "h = unat (nextHint p)"
  have h: "2 \<le> h" "h \<le> size_of p + 1" and hr: "unat (nextHint p) \<in> client_range p"
    using wf by (auto simp: pool_wf_def client_range_def h_def)
  have m: "1 \<le> size_of p" using pool_wf_size [OF wf] by simp
  let ?w = "\<lambda>i. if size_of p + 1 < h + i then h + i - size_of p + 1 else h + i"
  have eq: "k \<in> (\<lambda>i. unat (scan_offset p (nextHint p) i)) ` {..< size_of p}
            \<longleftrightarrow> (\<exists>i < size_of p. k = ?w i)"
    using scan_offset_unat [OF wf hr] by (auto simp: image_iff h_def)
  show "k \<in> (\<lambda>i. unat (scan_offset p (nextHint p) i)) ` {..< size_of p} \<longleftrightarrow> k \<in> visited p"
  proof
    assume "k \<in> (\<lambda>i. unat (scan_offset p (nextHint p) i)) ` {..< size_of p}"
    then obtain i where "i < size_of p" "k = ?w i" using eq by blast
    then show "k \<in> visited p"
      using h m by (auto simp: visited_def client_range_def h_def [symmetric] split: if_splits)
  next
    assume "k \<in> visited p"
    then have k: "2 \<le> k" "k \<le> size_of p + 1" "h \<noteq> 2 \<longrightarrow> k \<noteq> 2"
      by (auto simp: visited_def client_range_def h_def split: if_splits)
    have "\<exists>i < size_of p. k = ?w i"
    proof (cases "h \<le> k")
      case True
      with k h show ?thesis by (intro exI [of _ "k - h"]) auto
    next
      case False
      with k h m show ?thesis by (intro exI [of _ "k + size_of p - 1 - h"]) auto
    qed
    then show "k \<in> (\<lambda>i. unat (scan_offset p (nextHint p) i)) ` {..< size_of p}"
      using eq by blast
  qed
qed

lemma alloc_scan_Some:
  assumes "alloc_scan p start i n = Some off"
  shows "\<not> is_allocated p (baseIP p + off)
         \<and> (\<exists>j. i \<le> j \<and> j < i + n \<and> off = scan_offset p start j)"
  using assms
proof (induction n arbitrary: i)
  case (Suc n)
  show ?case
  proof (cases "is_allocated p (baseIP p + scan_offset p start i)")
    case True
    with Suc.prems have "alloc_scan p start (Suc i) n = Some off" by (simp add: Let_def)
    from Suc.IH [OF this] show ?thesis by (auto dest: Suc_leD)
  next
    case False
    with Suc.prems show ?thesis by (auto simp: Let_def)
  qed
qed simp

lemma alloc_scan_None:
  "alloc_scan p start i n = None \<longleftrightarrow>
     (\<forall>j \<in> {i..<i + n}. is_allocated p (baseIP p + scan_offset p start j))"
proof (induction n arbitrary: i)
  case (Suc n)
  have "{i..<i + Suc n} = insert i {Suc i..<Suc i + n}" by auto
  with Suc.IH show ?case by (simp add: Let_def)
qed simp

subsection \<open>Allocate and Release\<close>

lemma visited_subset: "visited p \<subseteq> client_range p"
  by (auto simp: visited_def)

lemma scan_addr:
  assumes "pool_wf p" and "i < size_of p"
  shows "baseIP p + scan_offset p (nextHint p) i
           = addr_at p (unat (scan_offset p (nextHint p) i))"
  by (simp add: addr_at_def)

lemma alloc_scan_exhausted:
  assumes wf: "pool_wf p"
  shows "alloc_scan p (nextHint p) 0 (nat (maxClient p)) = None
         \<longleftrightarrow> addr_at p ` visited p \<subseteq> held p"
proof -
  have "alloc_scan p (nextHint p) 0 (nat (maxClient p)) = None
        \<longleftrightarrow> (\<forall>i \<in> {..< size_of p}. addr_at p (unat (scan_offset p (nextHint p) i)) \<in> held p)"
    using scan_addr [OF wf]
    by (simp add: alloc_scan_None is_allocated_iff [OF wf] size_of_def [symmetric]
        atLeast0LessThan Ball_def)
  then show ?thesis
    unfolding scan_visits [OF wf, symmetric] by blast
qed

lemma alloc_scan_found:
  assumes wf: "pool_wf p" and "alloc_scan p (nextHint p) 0 (nat (maxClient p)) = Some off"
  shows "unat off \<in> visited p" and "addr_at p (unat off) \<notin> held p"
  using alloc_scan_Some [OF assms(2)] scan_visits [OF wf]
  by (auto simp: addr_at_def size_of_def is_allocated_iff [OF wf])

lemma pool_full:
  assumes wf: "pool_wf p" and "maxClient p \<le> AllocatedCount p"
  shows "held p = addr_at p ` client_range p"
proof (rule card_seteq)
  show "held p \<subseteq> addr_at p ` client_range p" using wf by (simp add: pool_wf_def)
  show "card (addr_at p ` client_range p) \<le> card (held p)"
    using assms pool_wf_size [OF wf]
    by (simp add: AllocatedCount_card card_image [OF inj_addr_at [OF wf]])
qed (simp add: client_range_def)

lemma held_fmupd: "held (p\<lparr>allocated := fmupd a True (allocated p), nextHint := h\<rparr>)
    = insert a (held p)"
  by (simp add: held_def)

lemma held_fmdrop: "held (p\<lparr>allocated := fmdrop a (allocated p), nextHint := h\<rparr>) = held p - {a}"
  by (simp add: held_def)

text \<open>An update of the two fields the operations write keeps the derived notions.\<close>

lemma pool_frame [simp]:
  "addr_at (p\<lparr>allocated := m, nextHint := h\<rparr>) = addr_at p"
  "client_range (p\<lparr>allocated := m, nextHint := h\<rparr>) = client_range p"
  "size_of (p\<lparr>allocated := m, nextHint := h\<rparr>) = size_of p"
  by (auto simp: addr_at_def client_range_def size_of_def fun_eq_iff)

lemma pool_wf_alloc:
  assumes wf: "pool_wf p" and k: "k \<in> client_range p" and h: "unat h \<in> client_range p"
  shows "pool_wf (p\<lparr>allocated := fmupd (addr_at p k) True (allocated p), nextHint := h\<rparr>)"
  using wf k h unfolding pool_wf_def held_fmupd by auto

lemma pool_wf_release:
  assumes wf: "pool_wf p" and h: "unat h \<in> client_range p"
  shows "pool_wf (p\<lparr>allocated := fmdrop a (allocated p), nextHint := h\<rparr>)"
  using wf h unfolding pool_wf_def held_fmdrop by auto

definition next_hint :: "ip_pool \<Rightarrow> u32 \<Rightarrow> u32" where
  "next_hint p off = (if word_of_int (maxClient p) + 1 < off + 1 then 2 else off + 1)"

lemma next_hint_range:
  assumes wf: "pool_wf p" and k: "unat off \<in> client_range p"
  shows "unat (next_hint p off) \<in> client_range p"
proof -
  have b: "unat off + 1 < 2 ^ 32" "2 \<le> unat off" "1 \<le> size_of p"
    using wf k pool_wf_size [OF wf] by (auto simp: pool_wf_def client_range_def)
  show ?thesis
    using b by (auto simp: next_hint_def word_less_nat_alt unat_plus_1 unat_maxClient [OF wf]
        client_range_def not_less)
qed

lemma Allocate_Ok:
  assumes wf: "pool_wf p" and "alloc_scan p (nextHint p) 0 (nat (maxClient p)) = Some off"
    and "\<not> maxClient p \<le> AllocatedCount p"
  shows "Allocate p = (Ok (uint32ToIP (addr_at p (unat off))),
           p\<lparr>allocated := fmupd (addr_at p (unat off)) True (allocated p),
             nextHint := next_hint p off\<rparr>)"
  using assms(2,3) by (simp add: Allocate_def Let_def next_hint_def addr_at_def)

text \<open>The two outcomes of \<open>Allocate\<close> on a well-formed pool.\<close>

lemma Allocate_cases:
  assumes wf: "pool_wf p"
  obtains (exhausted) "Allocate p = (Err ErrPoolExhausted, p)"
      "addr_at p ` visited p \<subseteq> held p"
  | (granted) k h where "Allocate p = (Ok (uint32ToIP (addr_at p k)),
           p\<lparr>allocated := fmupd (addr_at p k) True (allocated p), nextHint := h\<rparr>)"
      "k \<in> visited p" "k \<in> client_range p" "addr_at p k \<notin> held p" "unat h \<in> client_range p"
proof (cases "maxClient p \<le> AllocatedCount p")
  case True
  then show thesis
    using pool_full [OF wf] visited_subset [of p] exhausted by (auto simp: Allocate_def)
next
  case False
  show thesis
  proof (cases "alloc_scan p (nextHint p) 0 (nat (maxClient p))")
    case None
    then show thesis
      using alloc_scan_exhausted [OF wf] exhausted by (simp add: Allocate_def)
  next
    case (Some off)
    have k: "unat off \<in> visited p" "addr_at p (unat off) \<notin> held p"
      using alloc_scan_found [OF wf Some] by auto
    then have "unat off \<in> client_range p" using visited_subset by blast
    with k Allocate_Ok [OF wf Some False] next_hint_range [OF wf] show thesis
      by (intro granted)
  qed
qed

end
