(* ===== verification/IP_Pool_Correct.thy ===== *)
theory IP_Pool_Correct
  imports IP_Pool
begin

section \<open>Correctness of the address pool\<close>

text \<open>
  The properties of \<open>IP_Pool\<close>: what the constructor accepts and the pool it builds, the exact
  outcomes of \<open>Allocate\<close> and \<open>Release\<close>, that outstanding addresses are pairwise distinct
  (through the interface \<open>ip_allocator\<close>), that every address handed out belongs to the
  subnet and is none of its reserved addresses, and the run in which \<open>Allocate\<close> reports an
  exhausted pool although an address is free.
\<close>

subsection \<open>Allocate and Release on a well-formed pool\<close>

definition offset_at_hint :: "ip_pool \<Rightarrow> nat" where
  "offset_at_hint p = unat (nextHint p)"

text \<open>
  C20: On a well-formed pool \<open>Allocate\<close> never panics. When it succeeds, the address lies in the
  client range, was not held, is held afterwards along with the addresses held before, and
  the pool stays well-formed. When it fails, the pool is unchanged and either every client
  address is held, or exactly the address at offset 2 is free and the hint is another
  offset: these are the only two ways to see \<open>ErrPoolExhausted\<close>.
\<close>

theorem Allocate_spec:
  assumes wf: "pool_wf p"
  shows "case Allocate p of
      (Ok ip, p') \<Rightarrow> \<exists>k \<in> client_range p. ip = uint32ToIP (addr_at p k)
         \<and> addr_at p k \<notin> held p \<and> held p' = insert (addr_at p k) (held p)
         \<and> AllocatedCount p' = AllocatedCount p + 1 \<and> pool_wf p'
    | (Err e, p') \<Rightarrow> e = ErrPoolExhausted \<and> p' = p
         \<and> (held p = addr_at p ` client_range p
            \<or> held p = addr_at p ` (client_range p - {2}) \<and> offset_at_hint p \<noteq> 2)
    | (Panic, p') \<Rightarrow> False"
  using wf
proof (cases p rule: Allocate_cases)
  case exhausted
  have sub: "held p \<subseteq> addr_at p ` client_range p" using wf by (simp add: pool_wf_def)
  have "held p = addr_at p ` client_range p
        \<or> held p = addr_at p ` (client_range p - {2}) \<and> offset_at_hint p \<noteq> 2"
  proof (cases "offset_at_hint p = 2 \<or> addr_at p 2 \<in> held p")
    case True
    have "addr_at p ` client_range p \<subseteq> held p"
    proof (rule image_subsetI)
      fix x assume "x \<in> client_range p"
      then show "addr_at p x \<in> held p"
        using True exhausted(2)
        by (cases "x \<in> visited p") (auto simp: visited_def offset_at_hint_def split: if_splits)
    qed
    with sub show ?thesis by blast
  next
    case False
    then have "addr_at p ` (client_range p - {2}) \<subseteq> held p"
      using exhausted(2) by (simp add: visited_def offset_at_hint_def)
    with sub False show ?thesis by blast
  qed
  with exhausted(1) show ?thesis by simp
next
  case (granted k h)
  then show ?thesis
    using pool_wf_alloc [OF wf] by (auto simp: held_fmupd AllocatedCount_card)
qed

lemma pool_wf_start:
  "1 \<le> m \<Longrightarrow> m < 2 ^ 31 \<Longrightarrow> unat b + nat m + 1 < 2 ^ 32 \<Longrightarrow>
   pool_wf \<lparr>subnetIP = s, subnetNet = n, serverIP = v, baseIP = b, maxClient = m,
     allocated = fmempty, nextHint = 2\<rparr>"
  by (simp add: pool_wf_def held_def size_of_def client_range_def)

definition sample_pool :: "ip_pool" where
  "sample_pool = \<lparr>subnetIP = [10, 8, 0, 0],
     subnetNet = \<lparr>net_ip = [10, 8, 0, 0], net_mask = [255, 255, 0, 0]\<rparr>,
     serverIP = [10, 8, 0, 1], baseIP = 168296448, maxClient = 3, allocated = fmempty,
     nextHint = 2\<rparr>"

lemma sample_pool_wf: "pool_wf sample_pool"
  unfolding sample_pool_def by (rule pool_wf_start) simp_all

theorem Allocate_spec_witness:
  "fst (Allocate sample_pool) = Ok [10, 8, 0, 2]
   \<and> (\<exists>k \<in> client_range sample_pool. [10, 8, 0, 2] = uint32ToIP (addr_at sample_pool k))"
proof -
  have r: "fst (Allocate sample_pool) = Ok [10, 8, 0, 2]" by code_simp
  then obtain p' where "Allocate sample_pool = (Ok [10, 8, 0, 2], p')"
    by (metis prod.collapse)
  with Allocate_spec [OF sample_pool_wf] r show ?thesis by auto
qed

text \<open>
  The pool can report exhaustion while an address is free. With three client addresses,
  after three allocations, the release of offset 2, the release of offset 3 and one more
  allocation, two of the three addresses are held and the next \<open>Allocate\<close> fails: the scan
  wraps to offset 3 instead of offset 2, since it adds 1 after subtracting the pool size.
\<close>

theorem Allocate_misses_free_address:
  "\<exists>p. NewIPPool (\<lambda>_. None) 4 None ''10.8.0.0/16'' 3 = Ok p
     \<and> (let (r1, p1) = Allocate p; (r2, p2) = Allocate p1; (r3, p3) = Allocate p2;
            (r4, p4) = Release p3 [10, 8, 0, 2]; (r5, p5) = Release p4 [10, 8, 0, 3];
            (r6, p6) = Allocate p5
        in (r1, r2, r3) = (Ok [10, 8, 0, 2], Ok [10, 8, 0, 3], Ok [10, 8, 0, 4])
           \<and> (r4, r5, r6) = (Ok (), Ok (), Ok [10, 8, 0, 3])
           \<and> AllocatedCount p6 = 2 \<and> PoolSize p6 = 3
           \<and> Allocate p6 = (Err ErrPoolExhausted, p6))"
proof (rule exI [of _ sample_pool], rule conjI)
  show "NewIPPool (\<lambda>_. None) 4 None ''10.8.0.0/16'' 3 = Ok sample_pool"
    by code_simp
next
  show "let (r1, p1) = Allocate sample_pool; (r2, p2) = Allocate p1; (r3, p3) = Allocate p2;
            (r4, p4) = Release p3 [10, 8, 0, 2]; (r5, p5) = Release p4 [10, 8, 0, 3];
            (r6, p6) = Allocate p5
        in (r1, r2, r3) = (Ok [10, 8, 0, 2], Ok [10, 8, 0, 3], Ok [10, 8, 0, 4])
           \<and> (r4, r5, r6) = (Ok (), Ok (), Ok [10, 8, 0, 3])
           \<and> AllocatedCount p6 = 2 \<and> PoolSize p6 = 3
           \<and> Allocate p6 = (Err ErrPoolExhausted, p6)"
    by code_simp
qed

lemma Release_held:
  assumes wf: "pool_wf p" and a: "a \<in> held p"
  shows "Release p (uint32ToIP a)
         = (Ok (), p\<lparr>allocated := fmdrop a (allocated p), nextHint := a - baseIP p\<rparr>)"
    and "unat (a - baseIP p) \<in> client_range p"
proof -
  have k: "offset_of p a \<in> client_range p"
    using wf a in_range_iff [OF wf] unfolding pool_wf_def by blast
  then show "unat (a - baseIP p) \<in> client_range p" by (simp add: offset_of_def)
  have "\<not> a - baseIP p < 2" "\<not> word_of_int (maxClient p) + 1 < a - baseIP p"
    using k by (auto simp: offset_of_def word_less_nat_alt client_range_def unat_maxClient [OF wf])
  then show "Release p (uint32ToIP a)
         = (Ok (), p\<lparr>allocated := fmdrop a (allocated p), nextHint := a - baseIP p\<rparr>)"
    using a by (simp add: Release_def uint32ToIP_def ipToUint32_def be_simps is_allocated_iff [OF wf]
        Let_def)
qed

lemma Release_not_held:
  assumes wf: "pool_wf p" and "To4 ip = Some ip4" and "be_u32 ip4 = Some a" and "a \<notin> held p"
  shows "Release p ip = (Err ErrIPNotManaged, p)"
  using assms by (simp add: Release_def ipToUint32_def Let_def is_allocated_iff [OF wf])

text \<open>
  \<open>Release\<close> never panics. It succeeds exactly when its argument is the 4-byte or the
  IPv4-in-IPv6 form of a held address: then that address alone is freed, the pool stays
  well-formed and the hint is its offset. In every other case (another family, an address
  outside the client range, the server's address, an address that is not held) the result
  is \<open>ErrIPNotManaged\<close> and the pool is unchanged.
\<close>

theorem Release_spec:
  assumes wf: "pool_wf p"
  shows "case Release p ip of
      (Ok u, p') \<Rightarrow> \<exists>a \<in> held p. To4 ip = Some (uint32ToIP a) \<and> held p' = held p - {a}
         \<and> nextHint p' = a - baseIP p \<and> pool_wf p'
    | (Err e, p') \<Rightarrow> e = ErrIPNotManaged \<and> p' = p \<and> (\<forall>a \<in> held p. To4 ip \<noteq> Some (uint32ToIP a))
    | (Panic, p') \<Rightarrow> False"
proof (cases "To4 ip")
  case None
  then show ?thesis by (simp add: Release_def)
next
  case (Some ip4)
  then have len: "length ip4 = 4" by (rule To4_length)
  then obtain a where a: "be_u32 ip4 = Some a" using be_u32_Some [of ip4] by auto
  with len have ip4: "ip4 = uint32ToIP a" by (simp add: put_be_u32 uint32ToIP_def)
  show ?thesis
  proof (cases "a \<in> held p")
    case True
    have "Release p ip = Release p (uint32ToIP a)"
      using Some ip4 len by (simp add: Release_def)
    with Release_held [OF wf True] Some ip4 True show ?thesis
      using pool_wf_release [OF wf] by (auto simp: held_fmdrop)
  next
    case False
    with Release_not_held [OF wf Some a] Some ip4 show ?thesis
      by (auto simp: uint32ToIP_def dest: put_u32_inj)
  qed
qed

lemma sample_pool_wf1: "pool_wf (snd (Allocate sample_pool))"
  using Allocate_cases [OF sample_pool_wf] pool_wf_alloc [OF sample_pool_wf] sample_pool_wf
  by (metis snd_conv)

theorem Release_spec_witness:
  "fst (Release (snd (Allocate sample_pool)) [10, 8, 0, 2]) = Ok ()
   \<and> pool_wf (snd (Release (snd (Allocate sample_pool)) [10, 8, 0, 2]))"
proof -
  have r: "fst (Release (snd (Allocate sample_pool)) [10, 8, 0, 2]) = Ok ()" by code_simp
  then show ?thesis
    using Release_spec [OF sample_pool_wf1, of "[10, 8, 0, 2]"] by (auto simp: split_beta)
qed

text \<open>
  An address that is released is the next one handed out: \<open>Release\<close> of a held address
  followed by \<open>Allocate\<close> returns the same address.
\<close>

theorem release_then_allocate:
  assumes wf: "pool_wf p" and a: "a \<in> held p"
  shows "fst (Allocate (snd (Release p (uint32ToIP a)))) = Ok (uint32ToIP a)"
proof -
  define q where "q = p\<lparr>allocated := fmdrop a (allocated p), nextHint := a - baseIP p\<rparr>"
  have rel: "snd (Release p (uint32ToIP a)) = q"
    using Release_held(1) [OF wf a] by (simp add: q_def)
  have h: "unat (a - baseIP p) \<in> client_range p" by (rule Release_held(2) [OF wf a])
  have wq: "pool_wf q" unfolding q_def by (rule pool_wf_release [OF wf h])
  have hq: "held q = held p - {a}" by (simp add: q_def held_fmdrop)
  have "card (held q) < card (held p)"
    unfolding hq using a by (intro card_Diff1_less) simp_all
  also have "card (held p) \<le> size_of q"
    using card_held_le [OF wf] by (simp add: q_def)
  finally have room: "\<not> maxClient q \<le> AllocatedCount q"
    using pool_wf_size [OF wq] by (simp add: AllocatedCount_card)
  obtain n where n: "nat (maxClient q) = Suc n"
    using pool_wf_size(1) [OF wq] by (cases "nat (maxClient q)") (simp_all add: size_of_def)
  have nh: "nextHint q = a - baseIP p" and base: "baseIP q = baseIP p" by (simp_all add: q_def)
  have hr: "unat (nextHint q) \<in> client_range q"
    using h unfolding nh by (simp add: q_def)
  have "\<not> size_of q + 1 < unat (nextHint q) + 0"
    using hr by (simp add: client_range_def)
  then have "unat (scan_offset q (nextHint q) 0) = unat (nextHint q)"
    using scan_offset_unat [OF wq hr, of 0] pool_wf_size(1) [OF wq] by simp
  then have off: "scan_offset q (nextHint q) 0 = a - baseIP p"
    by (simp add: nh word_unat_eq_iff)
  have free: "\<not> is_allocated q a" by (simp add: is_allocated_iff [OF wq] hq)
  have "alloc_scan q (nextHint q) 0 (nat (maxClient q)) = Some (a - baseIP p)"
    unfolding n using off free base by simp
  from Allocate_Ok [OF wq this room] show ?thesis
    by (simp add: rel addr_at_def base)
qed

theorem release_then_allocate_witness:
  "fst (Allocate (snd (Release (snd (Allocate sample_pool)) (uint32ToIP 168296450))))
     = Ok (uint32ToIP 168296450)"
proof (rule release_then_allocate)
  show "pool_wf (snd (Allocate sample_pool))" by (rule sample_pool_wf1)
  show "168296450 \<in> held (snd (Allocate sample_pool))" by code_simp
qed

subsection \<open>The pool as an allocator\<close>

text \<open>The pool provides the interface the daemon's handlers use.\<close>

definition take_ip :: "ip_pool \<Rightarrow> bytes option \<times> ip_pool" where
  "take_ip p = (let (r, p') = Allocate p in (ok_value r, p'))"

definition give_ip :: "ip_pool \<Rightarrow> bytes \<Rightarrow> ip_pool" where
  "give_ip p ip = snd (Release p ip)"

definition held_ips :: "ip_pool \<Rightarrow> bytes set" where
  "held_ips p = uint32ToIP ` held p"

definition client_ips :: "ip_pool \<Rightarrow> bytes set" where
  "client_ips p = uint32ToIP ` addr_at p ` client_range p"

lemma uint32ToIP_eq [simp]: "uint32ToIP a = uint32ToIP b \<longleftrightarrow> a = b"
  by (auto simp: uint32ToIP_def dest: put_u32_inj)

lemma give_ip_held:
  assumes "pool_wf p" and "a \<in> held p"
  shows "give_ip p (uint32ToIP a)
           = p\<lparr>allocated := fmdrop a (allocated p), nextHint := a - baseIP p\<rparr>"
  by (simp add: give_ip_def Release_held [OF assms])

interpretation pool: ip_allocator take_ip give_ip held_ips client_ips pool_wf
proof unfold_locales
  fix s s' :: ip_pool
  assume wf: "pool_wf s" and "take_ip s = (None, s')"
  with wf show "s' = s"
    by (cases s rule: Allocate_cases) (auto simp: take_ip_def)
next
  fix s s' :: ip_pool and a
  assume wf: "pool_wf s" and "take_ip s = (Some a, s')"
  with wf show "pool_wf s' \<and> a \<in> client_ips s \<and> a \<notin> held_ips s
      \<and> held_ips s' = insert a (held_ips s) \<and> client_ips s' = client_ips s"
    by (cases s rule: Allocate_cases)
       (auto simp: take_ip_def held_ips_def client_ips_def held_fmupd pool_wf_alloc)
next
  fix s :: ip_pool and a
  assume wf: "pool_wf s" and "a \<in> held_ips s"
  then obtain x where x: "a = uint32ToIP x" "x \<in> held s" by (auto simp: held_ips_def)
  show "pool_wf (give_ip s a) \<and> held_ips (give_ip s a) = held_ips s - {a}
      \<and> client_ips (give_ip s a) = client_ips s"
    using pool_wf_release [OF wf Release_held(2) [OF wf x(2)]] give_ip_held [OF wf x(2)]
    by (auto simp: x held_ips_def client_ips_def held_fmdrop)
qed

lemma held_client_ips: "pool_wf p \<Longrightarrow> held_ips p \<subseteq> client_ips p"
  by (auto simp: pool_wf_def held_ips_def client_ips_def)

text \<open>
  C21: Over any sequence of allocations and releases that starts from a well-formed pool on
  which nothing is allocated, the addresses outstanding at the end are pairwise distinct,
  they are client addresses of the pool, they are exactly the addresses the pool records,
  and the pool is still well-formed: no address is ever handed to two holders.
\<close>

theorem outstanding_leases_distinct:
  assumes "pool_wf p" and "held p = {}"
  shows "case lease_run take_ip give_ip ops (p, []) of
      (p', ls) \<Rightarrow> distinct ls \<and> set ls \<subseteq> client_ips p \<and> set ls = held_ips p' \<and> pool_wf p'"
proof -
  have ok: "pool.ledger_ok (p, [])"
    using assms by (simp add: pool.ledger_ok_def held_ips_def)
  then have "pool.ledger_ok (lease_run take_ip give_ip ops (p, []))"
    by (rule pool.ledger_run)
  with pool.leases_distinct [OF ok, of ops] show ?thesis
    using held_client_ips [OF assms(1)] by (auto simp: pool.ledger_ok_def)
qed

theorem outstanding_leases_distinct_witness:
  "snd (lease_run take_ip give_ip [TakeOp, TakeOp, GiveOp [10, 8, 0, 2], TakeOp] (sample_pool, []))
     = [[10, 8, 0, 3], [10, 8, 0, 2]]
   \<and> distinct (snd (lease_run take_ip give_ip [TakeOp, TakeOp, GiveOp [10, 8, 0, 2], TakeOp]
       (sample_pool, [])))"
proof -
  have h: "held sample_pool = {}" by (simp add: sample_pool_def held_def)
  have r: "snd (lease_run take_ip give_ip [TakeOp, TakeOp, GiveOp [10, 8, 0, 2], TakeOp]
      (sample_pool, [])) = [[10, 8, 0, 3], [10, 8, 0, 2]]"
    by code_simp
  show ?thesis
    using outstanding_leases_distinct [OF sample_pool_wf h,
        of "[TakeOp, TakeOp, GiveOp [10, 8, 0, 2], TakeOp]"] r
    by (simp add: split_beta)
qed

subsection \<open>The subnet of a pool\<close>

text \<open>
  What the constructor establishes between the fields that describe the subnet: an IPv4
  prefix of \<open>n \<le> 30\<close> bits, a network address whose host bits are zero, the server at
  offset 1, and a client range that ends before the broadcast address.
\<close>

definition pool_net :: "nat \<Rightarrow> ip_pool \<Rightarrow> bool" where
  "pool_net n p \<longleftrightarrow> n \<le> 30 \<and> net_mask (subnetNet p) = CIDRMask n 32
     \<and> subnetIP p = uint32ToIP (baseIP p) \<and> net_ip (subnetNet p) = subnetIP p
     \<and> serverIP p = uint32ToIP (baseIP p + 1)
     \<and> baseIP p AND mask (32 - n) = 0
     \<and> 1 \<le> maxClient p \<and> maxClient p + 1 \<le> 2 ^ (32 - n) - 2"

lemma sample_pool_net: "\<exists>n. pool_net n sample_pool"
proof -
  have "pool_net 16 sample_pool" by code_simp
  then show ?thesis ..
qed

lemma detectMaxClients_bounds: "1 \<le> detectMaxClients c m \<and> detectMaxClients c m \<le> 65533"
  by (simp add: detectMaxClients_def Let_def)

text \<open>What \<open>NewIPPool\<close> accepts, and the pool it returns.\<close>

lemma pool_wf_fresh:
  assumes fits: "unat b + 2 ^ k \<le> (2::nat) ^ 32" and m: "1 \<le> m" "m \<le> 2 ^ k - 3" and small: "m < 2 ^ 31"
    and p: "p = \<lparr>subnetIP = put_u32 b, subnetNet = nt, serverIP = put_u32 (b + 1), baseIP = b,
        maxClient = m, allocated = fmempty, nextHint = 2\<rparr>"
  shows "pool_wf p"
proof -
  have "int (nat m) \<le> int (2 ^ k) - 3" using m by simp
  then have "nat m + 3 \<le> 2 ^ k" by linarith
  then have "unat b + nat m + 1 < 2 ^ 32" using fits by linarith
  with pool_wf_start [of m b] m(1) small show ?thesis by (simp add: p)
qed

lemma NewIPPool_facts:
  assumes ok: "NewIPPool p6 numCPU meminfo cidr mc = Ok p"
  shows "\<exists>n. pool_net n p \<and> held p = {} \<and> nextHint p = 2
     \<and> maxClient p = min (if mc \<le> 0 then detectMaxClients numCPU meminfo else mc) (2 ^ (32 - n) - 3)
     \<and> (maxClient p < 2 ^ 31 \<longrightarrow> pool_wf p) \<and> (1 \<le> n \<longrightarrow> pool_wf p)"
proof -
  obtain ip nt ones where pc: "ParseCIDR p6 cidr = Some (ip, nt)"
    and ms: "mask_size (net_mask nt) = (ones, 32)"
    using ok by (auto simp: NewIPPool_def Let_def split: option.splits prod.splits if_splits)
  obtain b where n: "ones \<le> 32" "net_mask nt = CIDRMask ones 32" "net_ip nt = put_u32 b"
    "b AND mask (32 - ones) = 0"
    using ParseCIDR_v4 [OF pc ms] .
  define want where "want = (if mc \<le> 0 then detectMaxClients numCPU meminfo else mc)"
  define k where "k = 32 - ones"
  have want: "1 \<le> want" using detectMaxClients_bounds by (simp add: want_def)
  have big: "\<not> (2 ^ k - 2 < (1::int))"
    and p: "p = \<lparr>subnetIP = put_u32 b, subnetNet = nt, serverIP = put_u32 (b + 1), baseIP = b,
        maxClient = min want (2 ^ k - 3), allocated = fmempty, nextHint = 2\<rparr>"
    using ok pc ms n(3)
    by (auto simp: NewIPPool_def Let_def ipToUint32_def uint32ToIP_def be_simps want_def k_def
        split: option.splits if_splits)
  have k2: "2 \<le> k"
  proof (rule ccontr)
    assume "\<not> 2 \<le> k"
    then have "k = 0 \<or> k = 1" by auto
    with big show False by auto
  qed
  have k32: "k \<le> 32" "ones = 32 - k" "ones \<le> 30" using n(1) k2 by (auto simp: k_def)
  have four: "(4::int) \<le> 2 ^ k"
    using power_increasing [of 2 k "2::int"] k2 by simp
  have m: "1 \<le> maxClient p" "maxClient p \<le> 2 ^ k - 3" using want four by (auto simp: p)
  have net: "pool_net ones p"
    using n k32(3) m by (simp add: pool_net_def p uint32ToIP_def k_def)
  have wf: "pool_wf p" if "maxClient p < 2 ^ 31"
    by (rule pool_wf_fresh [OF _ m that, where b = b and nt = nt])
      (use host_bits_room [OF n(4)] k32(1) in \<open>simp_all add: k_def p\<close>)
  have "maxClient p < 2 ^ 31" if "1 \<le> ones"
  proof -
    have "k \<le> 31" using that k32 by simp
    then have "(2::int) ^ k \<le> 2 ^ 31" by (intro power_increasing) simp_all
    with m(2) show ?thesis by linarith
  qed
  with net wf show ?thesis
    by (intro exI [of _ ones]) (simp add: p held_def want_def k_def)
qed

text \<open>
  When \<open>NewIPPool\<close> succeeds, the prefix is an IPv4 prefix of at most 30 bits; the network
  address has zero host bits, the server has offset 1, nothing is allocated, the size is the
  requested one (or the detected one when none is requested) cut to the number of host
  addresses left after the network, broadcast and server addresses; and if that size is
  below \<open>2 ^ 31\<close>, which only the prefix length 0 can exceed, the pool is well-formed.
\<close>

theorem NewIPPool_spec:
  assumes ok: "NewIPPool p6 numCPU meminfo cidr mc = Ok p"
  shows "\<exists>n. pool_net n p \<and> held p = {} \<and> nextHint p = 2
     \<and> maxClient p = min (if mc \<le> 0 then detectMaxClients numCPU meminfo else mc) (2 ^ (32 - n) - 3)
     \<and> (maxClient p < 2 ^ 31 \<longrightarrow> pool_wf p) \<and> (1 \<le> n \<longrightarrow> pool_wf p)"
  by (rule NewIPPool_facts [OF ok])

theorem NewIPPool_spec_witness:
  "\<exists>n. pool_net n sample_pool \<and> held sample_pool = {}"
proof -
  have "NewIPPool (\<lambda>_. None) 4 None ''10.8.0.0/16'' 3 = Ok sample_pool"
    by code_simp
  from NewIPPool_spec [OF this] show ?thesis by blast
qed

lemma pool_net_range:
  assumes "pool_net n p" and "pool_wf p" and "k \<in> client_range p"
  shows "k + 1 < 2 ^ (32 - n)"
proof -
  have "int (size_of p) + 1 \<le> 2 ^ (32 - n) - 2"
    using assms(1) pool_wf_size(3) [OF assms(2)] by (simp add: pool_net_def)
  then have "int (size_of p + 3) \<le> int (2 ^ (32 - n))" by simp
  then have "size_of p + 3 \<le> 2 ^ (32 - n)" by (simp only: of_nat_le_iff)
  with assms(3) show ?thesis by (simp add: client_range_def)
qed

text \<open>
  Every address that \<open>Allocate\<close> hands out belongs to the pool's subnet and is neither the
  network address, nor the server's address, nor the broadcast address.
\<close>

theorem allocated_in_subnet:
  assumes net: "pool_net n p" and wf: "pool_wf p" and al: "Allocate p = (Ok ip, p')"
  shows "IsManaged p ip \<and> ip \<noteq> subnetIP p \<and> ip \<noteq> ServerIP p
         \<and> ip \<noteq> uint32ToIP (baseIP p + mask (32 - n)) \<and> pool_net n p'"
  using wf
proof (cases p rule: Allocate_cases)
  case exhausted
  with al show ?thesis by simp
next
  case (granted k h)
  have n: "n \<le> 32" "baseIP p AND mask (32 - n) = 0" using net by (auto simp: pool_net_def)
  have kb: "k + 1 < 2 ^ (32 - n)" "2 \<le> k"
    using pool_net_range [OF net wf granted(3)] granted(3) by (auto simp: client_range_def)
  have ip: "ip = uint32ToIP (baseIP p + word_of_nat k)"
    using al granted(1) by (simp add: addr_at_def)
  have small: "2 ^ (32 - n) \<le> (2 ^ 32 :: nat)" by (rule power_increasing) auto
  have inj: "word_of_nat i \<noteq> (word_of_nat j :: u32)" if "i \<noteq> j" "i < 2 ^ 32" "j < 2 ^ 32" for i j
    using that by (metis unat_small)
  have m: "(mask (32 - n) :: u32) = word_of_nat (2 ^ (32 - n) - 1)"
    by (simp add: mask_eq_exp_minus_1 of_nat_diff)
  have "IsManaged p ip"
    using net n kb(1) host_part_dropped [OF n(2), of k] host_part_dropped [OF n(2), of 0]
    by (simp add: IsManaged_def ip uint32ToIP_def pool_net_def net_contains_v4)
  moreover have "word_of_nat k \<noteq> (word_of_nat 0 :: u32)"
    by (rule inj) (use kb small in linarith)+
  moreover have "word_of_nat k \<noteq> (word_of_nat 1 :: u32)"
    by (rule inj) (use kb small in linarith)+
  moreover have "word_of_nat k \<noteq> (mask (32 - n) :: u32)"
    unfolding m by (rule inj) (use kb small in linarith)+
  moreover have "pool_net n p'"
    using net al granted(1) by (auto simp: pool_net_def)
  ultimately show ?thesis
    using net by (simp add: ip ServerIP_def pool_net_def)
qed

theorem allocated_in_subnet_witness:
  "IsManaged sample_pool [10, 8, 0, 2] \<and> [10, 8, 0, 2] \<noteq> ServerIP sample_pool"
proof -
  obtain n where n: "pool_net n sample_pool"
    using sample_pool_net by blast
  have "fst (Allocate sample_pool) = Ok [10, 8, 0, 2]" by code_simp
  then obtain p' where "Allocate sample_pool = (Ok [10, 8, 0, 2], p')"
    by (metis prod.collapse)
  from allocated_in_subnet [OF n sample_pool_wf this] show ?thesis by blast
qed

end
