(* ===== verification/Crypto.thy ===== *)
theory Crypto
  imports VPN_Prelude
begin

section \<open>Packet obfuscation (shared/crypto.go)\<close>

text \<open>
  \<open>Obfuscator\<close> wraps an AEAD cipher. The cipher (XChaCha20-Poly1305) and the hash of the key are
  code outside the repository: they are the parameter records \<open>aead\<close> and \<open>crypto_env\<close>, and
  \<open>aead_ok\<close> states what the documentation of \<open>cipher.AEAD\<close> promises of a correct cipher.
  The random nonce and the random padding are arguments; \<open>None\<close> for the nonce is a failure
  of the random source.

  \<open>ObfuscateTo\<close> works on a destination buffer whose length is its capacity, as the buffers of
  the code are: the result holds the returned count and the buffer afterwards, and a slice
  bound beyond the buffer is a panic. The lemmas give the layout it writes, the exact set of
  packets \<open>Deobfuscate\<close> accepts, the round trip, and the bounds.
\<close>

datatype obf_err =
    ErrPacketTooShort | ErrInvalidKeySize | ErrInvalidMagic | ErrAuthFailed
  | ErrDstTooSmall | ErrRandSource | ErrCipher

record aead =
  Seal :: "bytes \<Rightarrow> bytes \<Rightarrow> bytes \<Rightarrow> bytes"
  Open :: "bytes \<Rightarrow> bytes \<Rightarrow> bytes \<Rightarrow> bytes option"
  Overhead :: nat

record crypto_env =
  sha256_sum :: "bytes \<Rightarrow> bytes"
  new_cipher :: "bytes \<Rightarrow> aead option"

definition STUNMagic :: u32 where
  "STUNMagic = 0x2112A442"

definition NewObfuscator :: "crypto_env \<Rightarrow> bytes \<Rightarrow> (obf_err, aead) outcome" where
  "NewObfuscator env psk =
     (if length psk \<noteq> 32 then Err ErrInvalidKeySize
      else case new_cipher env (sha256_sum env psk) of None \<Rightarrow> Err ErrCipher | Some a \<Rightarrow> Ok a)"

definition header_size :: nat where
  "header_size = 4 + 24"

text \<open>
  The inner plaintext: two bytes of length, the payload, the padding. The length field keeps
  the low 16 bits of the payload's length.
\<close>

definition inner_plaintext :: "bytes \<Rightarrow> bytes \<Rightarrow> bytes" where
  "inner_plaintext payload pad = put_u16 (word_of_nat (length payload)) @ payload @ pad"

text \<open>
  \<open>Seal\<close> appends to the first \<open>header_size\<close> bytes of the buffer. When the sealed packet fits, it
  is written in place; when it does not, Go's append allocates a new array, and the buffer
  keeps the header and the plaintext written before.
\<close>

definition ObfuscateTo ::
  "aead \<Rightarrow> bytes \<Rightarrow> bytes \<Rightarrow> bytes option \<Rightarrow> bytes \<Rightarrow> (obf_err, nat \<times> bytes) outcome" where
  "ObfuscateTo ob plaintext dst rand_nonce pad =
     (if length dst < header_size + length plaintext + 2 + Overhead ob then Err ErrDstTooSmall
      else case rand_nonce of
        None \<Rightarrow> Err ErrRandSource
      | Some nonce \<Rightarrow>
          let header = put_u32 STUNMagic @ nonce;
              innerLen = 2 + length plaintext + length pad
          in if length dst < header_size + innerLen then Panic
             else
               let inner = inner_plaintext plaintext pad;
                   dst' = header @ inner @ drop (header_size + innerLen) dst;
                   sealed = header @ Seal ob nonce inner (put_u32 STUNMagic)
               in Ok (length sealed,
                      if length sealed \<le> length dst' then sealed @ drop (length sealed) dst'
                      else dst'))"

definition Deobfuscate :: "aead \<Rightarrow> bytes \<Rightarrow> (obf_err, bytes) outcome" where
  "Deobfuscate ob ciphertext =
     (if length ciphertext < header_size + Overhead ob + 2 then Err ErrPacketTooShort
      else case be_u32 (subslice 0 4 ciphertext) of
        None \<Rightarrow> Panic
      | Some magic \<Rightarrow>
          if magic \<noteq> STUNMagic then Err ErrInvalidMagic
          else
            let nonce = subslice 4 header_size ciphertext;
                sealed = drop header_size ciphertext
            in case Open ob nonce sealed (subslice 0 4 ciphertext) of
                 None \<Rightarrow> Err ErrAuthFailed
               | Some plaintext \<Rightarrow>
                   if length plaintext < 2 then Err ErrPacketTooShort
                   else case be_u16 (subslice 0 2 plaintext) of
                     None \<Rightarrow> Panic
                   | Some l \<Rightarrow>
                       let payloadLen = unat l in
                       if length plaintext - 2 < payloadLen then Err ErrPacketTooShort
                       else Ok (subslice 2 (2 + payloadLen) plaintext))"

subsection \<open>What is assumed of the cipher\<close>

text \<open>
  A correct AEAD: opening what was sealed returns the plaintext, an opened packet is the
  sealing of its plaintext (decryption under a given nonce is injective and the tag is a
  function of the rest), and sealing adds the overhead to the length.
\<close>

definition aead_ok :: "aead \<Rightarrow> bool" where
  "aead_ok ob \<longleftrightarrow>
     (\<forall>n p a. Open ob n (Seal ob n p a) a = Some p)
     \<and> (\<forall>n c a p. Open ob n c a = Some p \<longrightarrow> c = Seal ob n p a)
     \<and> (\<forall>n p a. length (Seal ob n p a) = length p + Overhead ob)"

text \<open>
  A concrete cipher with these laws, for the witnesses: the plaintext in clear, followed by
  a 16-byte tag made of the nonce and the associated data.
\<close>

definition clear_tag :: "bytes \<Rightarrow> bytes \<Rightarrow> bytes" where
  "clear_tag n a = take 16 (a @ n @ replicate 16 0)"

definition clear_aead :: aead where
  "clear_aead =
     \<lparr>Seal = (\<lambda>n p a. p @ clear_tag n a),
      Open = (\<lambda>n c a. if 16 \<le> length c \<and> drop (length c - 16) c = clear_tag n a
                      then Some (take (length c - 16) c) else None),
      Overhead = 16\<rparr>"

lemma length_clear_tag [simp]: "length (clear_tag n a) = 16"
  by (simp add: clear_tag_def)

lemma clear_overhead [simp]: "Overhead clear_aead = 16"
  by (simp add: clear_aead_def)

lemma clear_aead_ok: "aead_ok clear_aead"
  unfolding aead_ok_def clear_aead_def by (auto split: if_splits) (metis append_take_drop_id)

lemma aead_okD:
  assumes "aead_ok ob"
  shows "Open ob n (Seal ob n p a) a = Some p"
    and "Open ob n c a = Some p \<Longrightarrow> c = Seal ob n p a"
    and "length (Seal ob n p a) = length p + Overhead ob"
  using assms by (auto simp: aead_ok_def)

subsection \<open>The wire format\<close>

definition wire_packet :: "aead \<Rightarrow> bytes \<Rightarrow> bytes \<Rightarrow> bytes" where
  "wire_packet ob nonce inner =
     put_u32 STUNMagic @ nonce @ Seal ob nonce inner (put_u32 STUNMagic)"

lemma length_inner [simp]: "length (inner_plaintext m pad) = 2 + length m + length pad"
  by (simp add: inner_plaintext_def be_simps)

lemma length_wire:
  "aead_ok ob \<Longrightarrow> length nonce = 24 \<Longrightarrow>
   length (wire_packet ob nonce inner) = header_size + length inner + Overhead ob"
  by (simp add: wire_packet_def be_simps header_size_def aead_okD)

lemma wire_parts:
  assumes "length nonce = 24"
  shows "subslice 0 4 (wire_packet ob nonce inner) = put_u32 STUNMagic"
    and "subslice 4 header_size (wire_packet ob nonce inner) = nonce"
    and "drop header_size (wire_packet ob nonce inner)
         = Seal ob nonce inner (put_u32 STUNMagic)"
  using assms by (simp_all add: wire_packet_def subslice_def header_size_def be_simps)

text \<open>What \<open>ObfuscateTo\<close> does once the random source delivered a nonce.\<close>

lemma ObfuscateTo_cases:
  assumes ok: "aead_ok ob" and n: "length nonce = 24"
  shows "ObfuscateTo ob m dst (Some nonce) pad =
    (let need = header_size + 2 + length m + Overhead ob;
         w = wire_packet ob nonce (inner_plaintext m pad)
     in if length dst < need then Err ErrDstTooSmall
        else if length dst < header_size + 2 + length m + length pad then Panic
        else if length dst < need + length pad
        then Ok (need + length pad, put_u32 STUNMagic @ nonce @ inner_plaintext m pad
                 @ drop (header_size + 2 + length m + length pad) dst)
        else Ok (need + length pad, w @ drop (need + length pad) dst))"
  using aead_okD(3) [OF ok] n
  by (auto simp: ObfuscateTo_def wire_packet_def Let_def be_simps header_size_def not_less
      add.commute add.left_commute add.assoc)

lemma Deobfuscate_wire:
  assumes ok: "aead_ok ob" and n: "length nonce = 24" and l: "2 \<le> length inner"
  shows "Deobfuscate ob (wire_packet ob nonce inner) =
    (case be_u16 (subslice 0 2 inner) of
       None \<Rightarrow> Panic
     | Some k \<Rightarrow> if length inner - 2 < unat k then Err ErrPacketTooShort
                else Ok (subslice 2 (2 + unat k) inner))"
  using l by (simp add: Deobfuscate_def wire_parts [OF n] length_wire [OF ok n] be_simps
      aead_okD [OF ok] Let_def split: option.split)

lemma Deobfuscate_inner:
  assumes ok: "aead_ok ob" and n: "length nonce = 24"
  shows "Deobfuscate ob (wire_packet ob nonce (inner_plaintext m pad))
         = Ok (take (length m mod 2 ^ 16) m)"
proof -
  have k: "unat (word_of_nat (length m) :: u16) = length m mod 2 ^ 16"
    by (simp add: unat_of_nat)
  have b: "be_u16 (subslice 0 2 (inner_plaintext m pad)) = Some (word_of_nat (length m))"
    using be_u16_put [of "word_of_nat (length m)" "[]"]
    by (simp add: inner_plaintext_def subslice_def be_simps)
  have t: "subslice 2 (2 + length m mod 2 ^ 16) (inner_plaintext m pad)
           = take (length m mod 2 ^ 16) m"
    by (simp add: inner_plaintext_def subslice_def be_simps)
  have le: "length m mod 2 ^ 16 \<le> length m" by (rule mod_less_eq_dividend)
  show ?thesis
    using le by (simp only: Deobfuscate_wire [OF ok n] b length_inner option.case k t) auto
qed

lemma Deobfuscate_not_panic: "Deobfuscate ob c \<noteq> Panic"
  by (auto simp: Deobfuscate_def header_size_def Let_def not_less be_u32_prefix be_u16_prefix
      split: option.split)

text \<open>An accepted packet is a wire packet whose inner plaintext starts with its length.\<close>

lemma Deobfuscate_Ok:
  assumes ok: "aead_ok ob" and acc: "Deobfuscate ob c = Ok m"
  obtains nonce pad where "length nonce = 24" and "length m < 2 ^ 16"
    and "c = wire_packet ob nonce (inner_plaintext m pad)"
proof -
  define nonce where "nonce = subslice 4 header_size c"
  have lc: "header_size + Overhead ob + 2 \<le> length c"
    and mg: "be_u32 (subslice 0 4 c) = Some STUNMagic"
    using acc by (auto simp: Deobfuscate_def Let_def not_less split: if_splits option.splits)
  have hd4: "subslice 0 4 c = put_u32 STUNMagic"
    using put_be_u32 [OF _ mg] lc by (simp add: length_subslice header_size_def)
  obtain p k where p: "Open ob nonce (drop header_size c) (put_u32 STUNMagic) = Some p"
    and k: "2 \<le> length p" "be_u16 (subslice 0 2 p) = Some k" "unat k \<le> length p - 2"
    and m: "m = subslice 2 (2 + unat k) p"
    using acc mg lc unfolding hd4 nonce_def
    by (auto simp: Deobfuscate_def Let_def hd4 not_less split: if_splits option.splits)
  have n: "length nonce = 24"
    using lc by (simp add: nonce_def length_subslice header_size_def)
  have c: "c = wire_packet ob nonce p"
  proof -
    have "drop header_size c = Seal ob nonce p (put_u32 STUNMagic)"
      using aead_okD(2) [OF ok p] .
    moreover have "c = subslice 0 4 c @ subslice 4 header_size c @ drop header_size c"
      using split3 [of c 4 24] by (simp add: subslice_def header_size_def)
    ultimately show ?thesis by (simp add: wire_packet_def nonce_def hd4)
  qed
  have lm: "length m = unat k" using k m by (simp add: length_subslice)
  have p2: "put_u16 k = take 2 p"
  proof -
    obtain a b rest where "p = a # b # rest"
      using k(1) by (cases p rule: be_u16.cases) auto
    then show ?thesis using k(2)
      by (auto simp: subslice_def put_u16_def bit_simps be_simps intro!: bit_word_eqI)
  qed
  have "p = take 2 p @ m @ drop (2 + unat k) p"
    using split3 [of p 2 "unat k"] by (simp add: m subslice_def)
  then have "p = inner_plaintext m (drop (2 + unat k) p)"
    by (simp add: inner_plaintext_def lm p2)
  moreover have "length m < 2 ^ 16"
    using lm unsigned_less [of k, where 'a = nat] by simp
  ultimately show thesis using that [OF n _ _] c by metis
qed

subsection \<open>Properties\<close>

text \<open>
  For a correct cipher, a payload of fewer than 65536 bytes that \<open>ObfuscateTo\<close> wrote into a
  buffer is what \<open>Deobfuscate\<close> returns for the written bytes, whatever the nonce, the padding
  and the old contents of the buffer.
\<close>

theorem obfuscate_roundtrip:
  assumes ok: "aead_ok ob" and n: "length nonce = 24" and small: "length m < 65536"
    and run: "ObfuscateTo ob m dst (Some nonce) pad = Ok (k, dst')" and fits: "k \<le> length dst"
  shows "Deobfuscate ob (take k dst') = Ok m"
proof -
  have "take k dst' = wire_packet ob nonce (inner_plaintext m pad)"
    using run fits length_wire [OF ok n, of "inner_plaintext m pad"]
    by (auto simp: ObfuscateTo_cases [OF ok n] Let_def split: if_splits)
  then show ?thesis
    using Deobfuscate_inner [OF ok n, of m pad] small by simp
qed

theorem obfuscate_roundtrip_witness:
  "\<exists>k d. ObfuscateTo clear_aead [1, 2, 3] (replicate 128 0) (Some (replicate 24 7)) [9, 9]
        = Ok (k, d) \<and> Deobfuscate clear_aead (take k d) = Ok [1, 2, 3]"
proof -
  obtain k d where r: "ObfuscateTo clear_aead [1, 2, 3] (replicate 128 0) (Some (replicate 24 7)) [9, 9]
        = Ok (k, d)" and k: "k \<le> 128"
    by (simp add: ObfuscateTo_cases [OF clear_aead_ok] clear_overhead header_size_def)
  have "Deobfuscate clear_aead (take k d) = Ok [1, 2, 3]"
    by (rule obfuscate_roundtrip [OF clear_aead_ok _ _ r]) (use k in simp_all)
  with r show ?thesis by blast
qed

text \<open>
  C33: For a correct cipher with the 16-byte overhead, \<open>Deobfuscate\<close> accepts exactly the packets
  that start with the fake STUN cookie, carry a 24-byte nonce and seal, under that nonce and
  with the cookie as associated data, a length-prefixed payload of fewer than 65536 bytes
  with any padding; it returns that payload. Every other byte sequence is rejected with an
  error, and none makes it panic: a probe without the key gets no answer from this layer.
\<close>

theorem deobfuscate_accepts_exactly:
  assumes ok: "aead_ok ob"
  shows "(Deobfuscate ob c = Ok m) =
           (\<exists>nonce pad. length nonce = 24 \<and> length m < 65536
              \<and> c = put_u32 STUNMagic @ nonce
                   @ Seal ob nonce (put_u16 (word_of_nat (length m)) @ m @ pad) (put_u32 STUNMagic))
         \<and> Deobfuscate ob c \<noteq> Panic"
proof -
  have "Deobfuscate ob c = Ok m \<longleftrightarrow> (\<exists>nonce pad. length nonce = 24 \<and> length m < 65536
          \<and> c = wire_packet ob nonce (inner_plaintext m pad))"
  proof
    assume acc: "Deobfuscate ob c = Ok m"
    show "\<exists>nonce pad. length nonce = 24 \<and> length m < 65536
          \<and> c = wire_packet ob nonce (inner_plaintext m pad)"
      by (rule Deobfuscate_Ok [OF ok acc]) auto
  next
    assume "\<exists>nonce pad. length nonce = 24 \<and> length m < 65536
          \<and> c = wire_packet ob nonce (inner_plaintext m pad)"
    then show "Deobfuscate ob c = Ok m"
      using Deobfuscate_inner [OF ok, of _ m] by auto
  qed
  then show ?thesis
    by (simp add: wire_packet_def inner_plaintext_def Deobfuscate_not_panic)
qed

theorem deobfuscate_accepts_exactly_witness:
  "Deobfuscate clear_aead (replicate 60 0) \<noteq> Ok [] \<and> Deobfuscate clear_aead (replicate 60 0) \<noteq> Panic
   \<and> Deobfuscate clear_aead (put_u32 STUNMagic @ replicate 24 7
        @ Seal clear_aead (replicate 24 7) (put_u16 1 @ [5] @ [0, 0]) (put_u32 STUNMagic)) = Ok [5]"
proof -
  have a: "Deobfuscate clear_aead (replicate 60 0) = Err ErrInvalidMagic" by code_simp
  have "\<exists>nonce pad. length nonce = 24 \<and> length [5 :: byte] < 65536 \<and>
      put_u32 STUNMagic @ replicate 24 7
        @ Seal clear_aead (replicate 24 7) (put_u16 1 @ [5] @ [0, 0]) (put_u32 STUNMagic)
      = put_u32 STUNMagic @ nonce
        @ Seal clear_aead nonce (put_u16 (word_of_nat (length [5 :: byte])) @ [5] @ pad)
            (put_u32 STUNMagic)"
    by (rule exI [of _ "replicate 24 7"], rule exI [of _ "[0, 0]"]) simp
  then have "Deobfuscate clear_aead (put_u32 STUNMagic @ replicate 24 7
        @ Seal clear_aead (replicate 24 7) (put_u16 1 @ [5] @ [0, 0]) (put_u32 STUNMagic)) = Ok [5]"
    using deobfuscate_accepts_exactly [OF clear_aead_ok, of _ "[5]"] by blast
  with a show ?thesis by simp
qed

text \<open>
  With a nonce from the random source and at most 63 bytes of padding, a buffer with room
  for the payload and 109 bytes more never makes \<open>ObfuscateTo\<close> fail or panic: it returns the
  length of the packet, which is 46 bytes plus payload plus padding, leaves the length of the
  buffer unchanged, and the packet starts with the fake STUN cookie.
\<close>

theorem obfuscate_fits:
  assumes ok: "aead_ok ob" and ov: "Overhead ob = 16" and n: "length nonce = 24"
    and pad: "length pad < 64" and room: "length m + 109 \<le> length dst"
  shows "\<exists>dst'. ObfuscateTo ob m dst (Some nonce) pad = Ok (46 + length m + length pad, dst')
           \<and> length dst' = length dst \<and> take 4 dst' = put_u32 STUNMagic"
proof -
  have "length (wire_packet ob nonce (inner_plaintext m pad)) = 46 + length m + length pad"
    by (simp add: length_wire [OF ok n] header_size_def ov)
  moreover have "take 4 (wire_packet ob nonce (inner_plaintext m pad) @ d) = put_u32 STUNMagic" for d
    by (simp add: wire_packet_def be_simps)
  ultimately show ?thesis
    using ov pad room by (auto simp: ObfuscateTo_cases [OF ok n] Let_def header_size_def)
qed

theorem obfuscate_fits_witness:
  "\<exists>dst'. ObfuscateTo clear_aead [1, 2, 3] (replicate 112 0) (Some (replicate 24 7)) (replicate 63 1)
        = Ok (112, dst') \<and> length dst' = 112"
proof -
  have "Overhead clear_aead = 16" by (simp add: clear_aead_def)
  from obfuscate_fits [OF clear_aead_ok this, of "replicate 24 7" "replicate 63 1" "[1, 2, 3]"
      "replicate 112 0"]
  show ?thesis by auto
qed

text \<open>
  C37: The size check of \<open>ObfuscateTo\<close> does not count the padding. A buffer that passes the check
  exactly, with more than 16 bytes of padding drawn, makes the call panic on a slice bound
  beyond the buffer; with 1 to 16 bytes of padding the call returns a length greater than
  the buffer's, and the buffer holds the payload unencrypted behind the header.
\<close>

theorem obfuscate_size_check_omits_padding:
  assumes ok: "aead_ok ob" and ov: "Overhead ob = 16" and n: "length nonce = 24"
    and tight: "length dst = 46 + length m"
  shows "(16 < length pad \<longrightarrow> ObfuscateTo ob m dst (Some nonce) pad = Panic)
     \<and> (0 < length pad \<and> length pad \<le> 16 \<longrightarrow>
         (\<exists>dst'. ObfuscateTo ob m dst (Some nonce) pad = Ok (length dst + length pad, dst')
            \<and> length dst' = length dst \<and> subslice 30 (30 + length m) dst' = m))"
proof -
  have "subslice 30 (30 + length m) (put_u32 STUNMagic @ nonce @ inner_plaintext m pad @ d) = m" for d
    using n by (simp add: subslice_def inner_plaintext_def be_simps)
  then show ?thesis
    using n tight by (auto simp: ObfuscateTo_cases [OF ok n] Let_def header_size_def ov be_simps)
qed

theorem obfuscate_size_check_omits_padding_witness:
  "ObfuscateTo clear_aead [1, 2, 3] (replicate 49 0) (Some (replicate 24 7)) (replicate 63 1) = Panic"
proof -
  have "Overhead clear_aead = 16" by (simp add: clear_aead_def)
  from obfuscate_size_check_omits_padding [OF clear_aead_ok this, of "replicate 24 7"
      "replicate 49 0" "[1, 2, 3]" "replicate 63 1"]
  show ?thesis by simp
qed

end
