(* ===== verification/Channel_Spec.thy ===== *)
theory Channel_Spec
  imports Main
begin

section \<open>The interface of a packet codec\<close>

text \<open>
  What the obfuscated connection relies on when it calls the obfuscator: for a usable key,
  a message that fits is encoded, and the encoding decodes to the message. The locale shows
  once what that gives a receiver that silently drops everything it cannot decode: junk
  between the packets changes nothing, and the messages arrive in the order of the packets.
\<close>

fun first_decoded :: "('w \<Rightarrow> 'm option) \<Rightarrow> 'w list \<Rightarrow> ('m \<times> 'w list) option" where
  "first_decoded dec [] = None"
| "first_decoded dec (w # ws) =
     (case dec w of Some m \<Rightarrow> Some (m, ws) | None \<Rightarrow> first_decoded dec ws)"

locale packet_codec =
  fixes enc_fn :: "'k \<Rightarrow> 'r \<Rightarrow> 'm \<Rightarrow> 'w option"
    and dec_fn :: "'k \<Rightarrow> 'w \<Rightarrow> 'm option"
    and key_ok :: "'k \<Rightarrow> bool"
    and fits_fn :: "'r \<Rightarrow> 'm \<Rightarrow> bool"
  assumes enc_some: "key_ok k \<Longrightarrow> fits_fn r m \<Longrightarrow> \<exists>w. enc_fn k r m = Some w"
    and dec_enc: "key_ok k \<Longrightarrow> fits_fn r m \<Longrightarrow> enc_fn k r m = Some w \<Longrightarrow> dec_fn k w = Some m"
begin

lemma first_decoded_skips:
  "(\<And>w. w \<in> set junk \<Longrightarrow> dec_fn k w = None) \<Longrightarrow>
   first_decoded (dec_fn k) (junk @ ws) = first_decoded (dec_fn k) ws"
  by (induction junk) auto

lemma first_decoded_message:
  assumes "key_ok k" and "fits_fn r m" and "enc_fn k r m = Some w"
    and "\<And>w. w \<in> set junk \<Longrightarrow> dec_fn k w = None"
  shows "first_decoded (dec_fn k) (junk @ w # ws) = Some (m, ws)"
  using first_decoded_skips [OF assms(4), of _ "w # ws"] dec_enc [OF assms(1-3)] by simp

text \<open>All messages of a stream in which every packet is junk or an encoding.\<close>

lemma decoded_stream:
  assumes "key_ok k"
    and "\<And>w mo. (w, mo) \<in> set tagged \<Longrightarrow>
      (case mo of None \<Rightarrow> dec_fn k w = None
       | Some (r, m) \<Rightarrow> fits_fn r m \<and> enc_fn k r m = Some w)"
  shows "List.map_filter (dec_fn k) (map fst tagged)
         = List.map_filter (\<lambda>t. map_option snd (snd t)) tagged"
  using assms(2)
proof (induction tagged)
  case Nil
  then show ?case by (simp add: List.map_filter_simps)
next
  case (Cons t ts)
  obtain w mo where t: "t = (w, mo)" by fastforce
  have rest: "List.map_filter (dec_fn k) (map fst ts) = List.map_filter (\<lambda>t. map_option snd (snd t)) ts"
    using Cons by auto
  have "dec_fn k w = map_option snd mo"
    using Cons.prems [of w mo] dec_enc [OF assms(1)] t by (cases mo) auto
  with rest show ?case by (simp add: t List.map_filter_simps split: option.split)
qed

end

end
