(* ===== verification/Obf_Conn.thy ===== *)
theory Obf_Conn
  imports Crypto Channel_Spec
begin

section \<open>The obfuscated packet connection (shared/conn.go)\<close>

text \<open>
  \<open>ObfuscatedConn\<close> puts the obfuscator in front of a UDP socket. The socket is outside the
  repository: what it delivers is a list of events, each an error or a datagram with its
  sender, and a call that would wait for more than the list holds is \<open>None\<close>. A write hands
  one datagram to the socket, whose error, if any, is an argument. The temporary buffers
  come from a pool and hold arbitrary old bytes; they are arguments too.
\<close>

type_synonym addr = "bytes \<times> nat"

datatype sock_event = RecvErr string | Recv bytes addr

datatype conn_err = SockErr string | ObfErr obf_err

definition udp_buf_size :: nat where
  "udp_buf_size = 65535"

text \<open>
  \<open>ReadFrom(p)\<close>: the result, the caller's buffer afterwards and the events left. A datagram
  longer than the temporary buffer is cut by the socket.
\<close>

fun ReadFrom ::
  "aead \<Rightarrow> bytes \<Rightarrow> sock_event list
     \<Rightarrow> ((conn_err, nat \<times> addr) outcome \<times> bytes \<times> sock_event list) option" where
  "ReadFrom ob p [] = None"
| "ReadFrom ob p (RecvErr e # evs) = Some (Err (SockErr e), p, evs)"
| "ReadFrom ob p (Recv d rawAddr # evs) =
     (case Deobfuscate ob (take udp_buf_size d) of
        Panic \<Rightarrow> Some (Panic, p, evs)
      | Err e \<Rightarrow> ReadFrom ob p evs
      | Ok plaintext \<Rightarrow>
          (let (p', n) = copy_into p plaintext in Some (Ok (n, rawAddr), p', evs)))"

text \<open>
  \<open>WriteTo(p, addr)\<close>: \<open>buf\<close> is the pooled buffer, \<open>rnd\<close> the random nonce and padding,
  \<open>sock\<close> the socket's error. The result comes with the datagrams handed to the socket.
\<close>

definition WriteTo ::
  "aead \<Rightarrow> bytes \<Rightarrow> bytes option \<times> bytes \<Rightarrow> string option \<Rightarrow> bytes \<Rightarrow> addr
     \<Rightarrow> (conn_err, nat) outcome \<times> (bytes \<times> addr) list" where
  "WriteTo ob buf rnd sock p to =
     (case ObfuscateTo ob p buf (fst rnd) (snd rnd) of
        Panic \<Rightarrow> (Panic, [])
      | Err e \<Rightarrow> (Err (ObfErr e), [])
      | Ok (n, out) \<Rightarrow>
          if length out < n then (Panic, [])
          else case sock of
            Some e \<Rightarrow> (Err (SockErr e), [(take n out, to)])
          | None \<Rightarrow> (Ok (length p), [(take n out, to)]))"

subsection \<open>The obfuscator as a codec\<close>

text \<open>
  Sending draws a nonce and padding; a draw is valid when the nonce has its 24 bytes and the
  padding fewer than 64. The key of the codec is the cipher.
\<close>

definition draw_ok :: "bytes option \<times> bytes \<Rightarrow> bool" where
  "draw_ok rnd \<longleftrightarrow> (case fst rnd of None \<Rightarrow> False | Some n \<Rightarrow> length n = 24) \<and> length (snd rnd) < 64"

definition cipher_ok :: "aead \<Rightarrow> bool" where
  "cipher_ok ob \<longleftrightarrow> aead_ok ob \<and> Overhead ob = 16"

definition payload_fits :: "bytes option \<times> bytes \<Rightarrow> bytes \<Rightarrow> bool" where
  "payload_fits rnd m \<longleftrightarrow> draw_ok rnd \<and> length m + 109 \<le> udp_buf_size"

definition encode_packet :: "aead \<Rightarrow> bytes option \<times> bytes \<Rightarrow> bytes \<Rightarrow> bytes option" where
  "encode_packet ob rnd m =
     (case WriteTo ob (replicate udp_buf_size 0) rnd None m ([], 0) of
        (Ok _, [(d, _)]) \<Rightarrow> Some d
      | _ \<Rightarrow> None)"

definition decode_packet :: "aead \<Rightarrow> bytes \<Rightarrow> bytes option" where
  "decode_packet ob d = ok_value (Deobfuscate ob (take udp_buf_size d))"

lemma WriteTo_Ok:
  assumes c: "cipher_ok ob" and f: "payload_fits rnd m" and b: "length buf = udp_buf_size"
  obtains nonce where "fst rnd = Some nonce" and "length nonce = 24"
    and "WriteTo ob buf rnd None m a
         = (Ok (length m), [(wire_packet ob nonce (inner_plaintext m (snd rnd)), a)])"
    and "length (wire_packet ob nonce (inner_plaintext m (snd rnd)))
         = 46 + length m + length (snd rnd)"
proof -
  obtain nonce where n: "fst rnd = Some nonce" "length nonce = 24"
    using f by (auto simp: payload_fits_def draw_ok_def split: option.splits)
  have ok: "aead_ok ob" and ov: "Overhead ob = 16" using c by (auto simp: cipher_ok_def)
  have l: "length (wire_packet ob nonce (inner_plaintext m (snd rnd)))
           = 46 + length m + length (snd rnd)"
    by (simp add: length_wire [OF ok n(2)] header_size_def ov)
  have "length (snd rnd) < 64" "length m + 109 \<le> length buf"
    using f b by (auto simp: payload_fits_def draw_ok_def)
  with l have "WriteTo ob buf rnd None m a
         = (Ok (length m), [(wire_packet ob nonce (inner_plaintext m (snd rnd)), a)])"
    by (simp add: WriteTo_def n ObfuscateTo_cases [OF ok n(2)] Let_def header_size_def ov)
  with n l show thesis using that by blast
qed

lemma encode_decode:
  assumes c: "cipher_ok ob" and f: "payload_fits rnd m"
  shows "\<exists>d. encode_packet ob rnd m = Some d \<and> decode_packet ob d = Some m"
proof -
  obtain nonce where n: "length nonce = 24"
    and w: "WriteTo ob (replicate udp_buf_size 0) rnd None m ([], 0)
         = (Ok (length m), [(wire_packet ob nonce (inner_plaintext m (snd rnd)), ([], 0))])"
    and l: "length (wire_packet ob nonce (inner_plaintext m (snd rnd)))
         = 46 + length m + length (snd rnd)"
    using WriteTo_Ok [OF c f, of "replicate udp_buf_size 0"] by (metis length_replicate)
  have ok: "aead_ok ob" using c by (simp add: cipher_ok_def)
  have b: "length m < 2 ^ 16" "46 + length m + length (snd rnd) \<le> udp_buf_size"
    using f by (auto simp: payload_fits_def draw_ok_def udp_buf_size_def)
  then show ?thesis
    using Deobfuscate_inner [OF ok n, of m "snd rnd"] l
    by (simp add: encode_packet_def w decode_packet_def)
qed

interpretation obf: packet_codec encode_packet decode_packet cipher_ok payload_fits
  by unfold_locales (use encode_decode in fastforce)+

subsection \<open>Reading as decoding\<close>

fun datagrams :: "sock_event list \<Rightarrow> bytes list" where
  "datagrams [] = []"
| "datagrams (RecvErr e # evs) = datagrams evs"
| "datagrams (Recv d a # evs) = d # datagrams evs"

lemma ReadFrom_junk:
  assumes "\<And>d a. Recv d a \<in> set junk \<Longrightarrow> decode_packet ob d = None"
    and "\<And>e. RecvErr e \<notin> set junk"
  shows "ReadFrom ob p (junk @ evs) = ReadFrom ob p evs"
  using assms
proof (induction junk)
  case (Cons ev junk)
  obtain d a where ev: "ev = Recv d a" using Cons.prems(2) by (cases ev) auto
  have "decode_packet ob d = None" using Cons.prems(1) [of d a] ev by simp
  then obtain e where "Deobfuscate ob (take udp_buf_size d) = Err e"
    using Deobfuscate_not_panic
    by (cases "Deobfuscate ob (take udp_buf_size d)") (auto simp: decode_packet_def)
  moreover have "ReadFrom ob p (junk @ evs) = ReadFrom ob p evs"
    by (rule Cons.IH) (use Cons.prems in \<open>auto\<close>)
  ultimately show ?case by (simp add: ev)
qed simp

lemma ReadFrom_decoded:
  assumes "decode_packet ob d = Some m"
  shows "ReadFrom ob p (Recv d a # evs)
         = Some (Ok (min (length p) (length m), a), fst (copy_into p m), evs)"
  using assms
  by (cases "Deobfuscate ob (take udp_buf_size d)")
     (auto simp: decode_packet_def split_beta snd_copy_into)

lemma ReadFrom_cases:
  assumes "ReadFrom ob p evs = Some (r, p', rest)"
  shows "(\<exists>n a. r = Ok (n, a) \<and> n \<le> length p \<and> length p' = length p) \<or> (\<exists>e. r = Err (SockErr e) \<and> p' = p)"
  using assms
proof (induction ob p evs rule: ReadFrom.induct)
  case (3 ob p d a evs)
  then show ?case
    using Deobfuscate_not_panic [of ob "take udp_buf_size d"]
    by (auto simp: split_beta length_copy_into snd_copy_into split: outcome.splits)
qed auto

subsection \<open>Properties\<close>

text \<open>
  A payload written to the connection is what the peer's \<open>ReadFrom\<close> returns: for a correct
  cipher, a valid draw and a payload of at most 65426 bytes, \<open>WriteTo\<close> succeeds with the
  payload's length and hands one datagram to the socket; a reader that receives that
  datagram, after any number of datagrams that do not authenticate, fills its buffer with
  the payload (cut to the buffer), reports the number of bytes and the sender, and leaves
  the later events alone.
\<close>

theorem write_read_roundtrip:
  assumes c: "cipher_ok ob" and f: "payload_fits rnd m" and b: "length buf = udp_buf_size"
    and j: "\<And>d a. Recv d a \<in> set junk \<Longrightarrow> decode_packet ob d = None"
      "\<And>e. RecvErr e \<notin> set junk"
  shows "\<exists>d. WriteTo ob buf rnd None m to = (Ok (length m), [(d, to)])
     \<and> (\<exists>p'. ReadFrom ob p (junk @ Recv d from # evs)
             = Some (Ok (min (length p) (length m), from), p', evs)
           \<and> take (min (length p) (length m)) p' = take (length p) m)"
proof -
  obtain nonce where w: "WriteTo ob buf rnd None m to
      = (Ok (length m), [(wire_packet ob nonce (inner_plaintext m (snd rnd)), to)])"
    and n: "fst rnd = Some nonce"
    by (rule WriteTo_Ok [OF c f b, of to])
  obtain nonce' where w': "WriteTo ob (replicate udp_buf_size 0) rnd None m ([], 0)
      = (Ok (length m), [(wire_packet ob nonce' (inner_plaintext m (snd rnd)), ([], 0))])"
    and n': "fst rnd = Some nonce'"
    by (rule WriteTo_Ok [OF c f, of "replicate udp_buf_size 0" "([], 0)"]) simp_all
  have "decode_packet ob (wire_packet ob nonce (inner_plaintext m (snd rnd))) = Some m"
    using encode_decode [OF c f] n n' by (simp add: encode_packet_def w')
  moreover have "ReadFrom ob p (junk @ evs') = ReadFrom ob p evs'" for evs'
    by (rule ReadFrom_junk) (use j in auto)
  ultimately have "ReadFrom ob p (junk @ Recv (wire_packet ob nonce (inner_plaintext m (snd rnd))) from # evs)
      = Some (Ok (min (length p) (length m), from), fst (copy_into p m), evs)"
    by (simp only: ReadFrom_decoded)
  moreover have "take (min (length p) (length m)) (fst (copy_into p m)) = take (length p) m"
    using take_copy_into [of p m] by (simp add: snd_copy_into)
  ultimately show ?thesis using w by blast
qed

theorem write_read_roundtrip_witness:
  "\<exists>d. WriteTo clear_aead (replicate udp_buf_size 0) (Some (replicate 24 7), [1]) None [5, 6] ([], 1)
        = (Ok 2, [(d, ([], 1))])
     \<and> (\<exists>p'. ReadFrom clear_aead [0, 0, 0] [Recv [1, 2, 3] ([], 9), Recv d ([], 2)]
             = Some (Ok (2, ([], 2)), p', []) \<and> take 2 p' = [5, 6])"
proof -
  have c: "cipher_ok clear_aead" by (simp add: cipher_ok_def clear_aead_ok)
  have f: "payload_fits (Some (replicate 24 7), [1]) [5, 6]"
    by (simp add: payload_fits_def draw_ok_def udp_buf_size_def)
  have "Deobfuscate clear_aead [1, 2, 3] = Err ErrPacketTooShort" by code_simp
  then have j: "decode_packet clear_aead [1, 2, 3] = None"
    by (simp add: decode_packet_def udp_buf_size_def)
  from write_read_roundtrip [OF c f length_replicate, of "[Recv [1, 2, 3] ([], 9)]" 0 "([], 1)"
      "[0, 0, 0]" "([], 2)" "[]"] j
  show ?thesis by (simp add: numeral_2_eq_2)
qed

text \<open>
  \<open>ReadFrom\<close> delivers the first datagram that authenticates and skips silently every one
  before it: on a socket that delivers datagrams only, it returns exactly when one of them
  decodes, with the first decoded payload, and otherwise keeps waiting; it never panics.
\<close>

theorem ReadFrom_first_valid:
  assumes "\<And>e. RecvErr e \<notin> set evs"
  shows "case ReadFrom ob p evs of
      None \<Rightarrow> first_decoded (decode_packet ob) (datagrams evs) = None
    | Some (r, p', rest) \<Rightarrow> \<exists>m a. first_decoded (decode_packet ob) (datagrams evs) = Some (m, datagrams rest)
         \<and> r = Ok (min (length p) (length m), a) \<and> p' = fst (copy_into p m)"
  using assms
proof (induction ob p evs rule: ReadFrom.induct)
  case (1 ob p)
  show ?case by simp
next
  case (2 ob p e evs)
  from 2 [of e] show ?case by simp
next
  case (3 ob p d a evs)
  show ?case
  proof (cases "decode_packet ob d")
    case None
    then obtain e where e: "Deobfuscate ob (take udp_buf_size d) = Err e"
      using Deobfuscate_not_panic
      by (cases "Deobfuscate ob (take udp_buf_size d)") (auto simp: decode_packet_def)
    with 3 None show ?thesis by (auto split: option.split)
  next
    case (Some m)
    show ?thesis
      unfolding ReadFrom_decoded [OF Some] using Some by simp
  qed
qed

theorem ReadFrom_first_valid_witness:
  "ReadFrom clear_aead [0, 0] [Recv [1, 2, 3] ([], 9), Recv (replicate 50 3) ([], 2)] = None
   \<and> first_decoded (decode_packet clear_aead) [[1, 2, 3], replicate 50 3] = None"
proof -
  have "Deobfuscate clear_aead [1, 2, 3] = Err ErrPacketTooShort"
    and "Deobfuscate clear_aead (replicate 50 3) = Err ErrInvalidMagic" by code_simp+
  then have n: "ReadFrom clear_aead [0, 0] [Recv [1, 2, 3] ([], 9), Recv (replicate 50 3) ([], 2)] = None"
    by (simp add: udp_buf_size_def)
  with ReadFrom_first_valid [of "[Recv [1, 2, 3] ([], 9), Recv (replicate 50 3) ([], 2)]"
      clear_aead "[0, 0]"]
  show ?thesis by simp
qed

end
