(* ===== verification/Rate_Limit.thy ===== *)
theory Rate_Limit
  imports Complex_Main VPN_Prelude
begin

section \<open>The token bucket (server/daemon/daemon.go)\<close>

text \<open>
  \<open>TokenBucket\<close> limits the bytes per second of a session. Its fields are float64 numbers: a
  number is a rational, and every floating-point operation is the exact operation followed
  by the rounding \<open>fl\<close>, an argument of the model (no operation is fused with another). The
  clock is an argument: the reading of \<open>time.Now()\<close> in nanoseconds, monotonic in Go.

  \<open>rounding fl\<close> collects what IEEE rounding guarantees and the lemmas use. The lemmas show
  that the level of the bucket stays between 0 and the capacity for every such rounding,
  that an idle second refills it, and, in exact arithmetic, how many bytes any sequence of
  calls can admit.
\<close>

record token_bucket =
  rate :: rat
  capacity :: rat
  tokens :: rat
  lastUpdate :: int

text \<open>\<open>now.Sub(t)\<close> saturates at the bounds of a 64-bit duration; \<open>Seconds()\<close> splits it.\<close>

definition sub_time :: "int \<Rightarrow> int \<Rightarrow> int" where
  "sub_time now t = max (- (2 ^ 63)) (min (2 ^ 63 - 1) (now - t))"

definition seconds :: "(rat \<Rightarrow> rat) \<Rightarrow> int \<Rightarrow> rat" where
  "seconds fl d =
     fl (fl (of_int (go_div d 1000000000))
         + fl (fl (of_int (go_mod d 1000000000)) / 1000000000))"

definition NewTokenBucket :: "(rat \<Rightarrow> rat) \<Rightarrow> int \<Rightarrow> int \<Rightarrow> token_bucket" where
  "NewTokenBucket fl rateMbps now =
     (let r = fl (fl (fl (of_int rateMbps) * 1000000) / 8)
      in \<lparr>rate = r, capacity = r, tokens = r, lastUpdate = now\<rparr>)"

text \<open>\<open>Allow(n)\<close> on a pointer that may be nil.\<close>

definition Allow :: "(rat \<Rightarrow> rat) \<Rightarrow> int \<Rightarrow> int \<Rightarrow> token_bucket option \<Rightarrow> bool \<times> token_bucket option" where
  "Allow fl now n tbo =
     (case tbo of
        None \<Rightarrow> (True, None)
      | Some tb \<Rightarrow>
          if rate tb \<le> 0 then (True, Some tb)
          else
            let elapsed = seconds fl (sub_time now (lastUpdate tb));
                t = fl (tokens tb + fl (elapsed * rate tb));
                t = (if capacity tb < t then capacity tb else t);
                needed = fl (of_int n)
            in if needed \<le> t
               then (True, Some (tb\<lparr>tokens := fl (t - needed), lastUpdate := now\<rparr>))
               else (False, Some (tb\<lparr>tokens := t, lastUpdate := now\<rparr>)))"

text \<open>A sequence of calls, each a clock reading and a size: the admitted bytes and the bucket.\<close>

fun run_bucket :: "(rat \<Rightarrow> rat) \<Rightarrow> (int \<times> int) list \<Rightarrow> token_bucket option \<Rightarrow> int \<times> token_bucket option"
where
  "run_bucket fl [] tb = (0, tb)"
| "run_bucket fl ((now, n) # calls) tb =
     (let (ok, tb') = Allow fl now n tb; (sum, tb'') = run_bucket fl calls tb'
      in (if ok then n + sum else sum, tb''))"

subsection \<open>What is assumed of the rounding\<close>

definition rounding :: "(rat \<Rightarrow> rat) \<Rightarrow> bool" where
  "rounding fl \<longleftrightarrow> mono fl \<and> (\<forall>x. fl (fl x) = fl x) \<and> fl 0 = 0 \<and> fl 1 = 1"

text \<open>Rounding down to multiples of 1/1024, for the witnesses.\<close>

definition grid :: "rat \<Rightarrow> rat" where
  "grid x = of_int \<lfloor>x * 1024\<rfloor> / 1024"

lemma rounding_grid: "rounding grid"
  unfolding rounding_def
proof (intro conjI allI)
  show "mono grid"
    unfolding grid_def by (intro monoI divide_right_mono of_int_le_iff [THEN iffD2] floor_mono) auto
qed (simp_all add: grid_def)

lemma rounding_id: "rounding (\<lambda>x. x)"
  by (simp add: rounding_def mono_def)

lemma roundingD:
  assumes "rounding fl"
  shows "x \<le> y \<Longrightarrow> fl x \<le> fl y" and "fl (fl x) = fl x" and "fl 0 = 0" and "fl 1 = 1"
  using assms by (auto simp: rounding_def mono_def)

lemma fl_nonneg: "rounding fl \<Longrightarrow> 0 \<le> x \<Longrightarrow> 0 \<le> fl x"
  using roundingD(1) [of fl 0 x] roundingD(3) [of fl] by simp

subsection \<open>The invariant\<close>

text \<open>
  The level lies between 0 and the capacity; the capacity is the rate, a floating-point
  number.
\<close>

definition bucket_ok :: "(rat \<Rightarrow> rat) \<Rightarrow> token_bucket \<Rightarrow> bool" where
  "bucket_ok fl tb \<longleftrightarrow> 0 < rate tb \<and> capacity tb = rate tb \<and> fl (capacity tb) = capacity tb
     \<and> 0 \<le> tokens tb \<and> tokens tb \<le> capacity tb"

lemma sub_time_nonneg: "t \<le> now \<Longrightarrow> 0 \<le> sub_time now t"
  by (simp add: sub_time_def)

lemma seconds_nonneg: "rounding fl \<Longrightarrow> 0 \<le> d \<Longrightarrow> 0 \<le> seconds fl d"
  by (simp add: seconds_def go_div_nonneg go_mod_nonneg fl_nonneg)

lemma seconds_id: "0 \<le> d \<Longrightarrow> seconds (\<lambda>x. x) d = of_int d / 1000000000"
proof -
  assume d: "0 \<le> d"
  have "rat_of_int d = rat_of_int (d div 1000000000) * 1000000000 + rat_of_int (d mod 1000000000)"
    by (metis div_mult_mod_eq of_int_add of_int_mult of_int_numeral)
  with d show ?thesis
    by (simp add: seconds_def go_div_nonneg go_mod_nonneg add_divide_distrib)
qed

lemma NewTokenBucket_lastUpdate [simp]: "lastUpdate (NewTokenBucket fl m now) = now"
  by (simp add: NewTokenBucket_def Let_def)

lemma NewTokenBucket_ok:
  assumes "rounding fl" and "0 < rate (NewTokenBucket fl m now)"
  shows "bucket_ok fl (NewTokenBucket fl m now)"
  using assms roundingD(2) [OF assms(1)] by (simp add: bucket_ok_def NewTokenBucket_def Let_def)

text \<open>The refilled level before the packet is charged.\<close>

definition refill :: "(rat \<Rightarrow> rat) \<Rightarrow> int \<Rightarrow> token_bucket \<Rightarrow> rat" where
  "refill fl now tb =
     (let t = fl (tokens tb + fl (seconds fl (sub_time now (lastUpdate tb)) * rate tb))
      in if capacity tb < t then capacity tb else t)"

lemma Allow_Some:
  assumes "0 < rate tb"
  shows "Allow fl now n (Some tb) =
    (let t = refill fl now tb in
     if fl (of_int n) \<le> t
     then (True, Some (tb\<lparr>tokens := fl (t - fl (of_int n)), lastUpdate := now\<rparr>))
     else (False, Some (tb\<lparr>tokens := t, lastUpdate := now\<rparr>)))"
  using assms by (simp add: Allow_def refill_def Let_def)

lemma Allow_None [simp]: "Allow fl now n None = (True, None)"
  by (simp add: Allow_def)

lemma refill_bounds:
  assumes r: "rounding fl" and ok: "bucket_ok fl tb" and t: "lastUpdate tb \<le> now"
  shows "0 \<le> refill fl now tb" and "refill fl now tb \<le> capacity tb"
  using ok fl_nonneg [OF r] seconds_nonneg [OF r sub_time_nonneg [OF t]]
  by (auto simp: refill_def Let_def bucket_ok_def)

lemma Allow_ok:
  assumes r: "rounding fl" and ok: "bucket_ok fl tb" and t: "lastUpdate tb \<le> now" and n: "0 \<le> n"
  obtains tb' where "snd (Allow fl now n (Some tb)) = Some tb'" and "bucket_ok fl tb'"
    and "lastUpdate tb' = now" and "rate tb' = rate tb"
proof -
  have rt: "0 < rate tb" and c: "fl (capacity tb) = capacity tb"
    using ok unfolding bucket_ok_def by blast+
  define x where "x = refill fl now tb"
  have b: "0 \<le> x" "x \<le> capacity tb" using refill_bounds [OF r ok t] by (auto simp: x_def)
  have p: "0 \<le> fl (of_int n)" using fl_nonneg [OF r] n by simp
  have "fl (x - fl (of_int n)) \<le> capacity tb" if "fl (of_int n) \<le> x"
    using roundingD(1) [OF r, of "x - fl (of_int n)" "capacity tb"] b p c by simp
  moreover have "0 \<le> fl (x - fl (of_int n))" if "fl (of_int n) \<le> x"
    using fl_nonneg [OF r] that by simp
  ultimately show thesis
  proof (cases "fl (of_int n) \<le> x")
    case True
    with ok b \<open>_ \<Longrightarrow> fl (x - fl (of_int n)) \<le> capacity tb\<close> \<open>_ \<Longrightarrow> 0 \<le> fl (x - fl (of_int n))\<close>
    show thesis
      by (intro that [of "tb\<lparr>tokens := fl (x - fl (of_int n)), lastUpdate := now\<rparr>"])
         (auto simp: Allow_Some [OF rt] x_def [symmetric] bucket_ok_def)
  next
    case False
    with ok b show thesis
      by (intro that [of "tb\<lparr>tokens := x, lastUpdate := now\<rparr>"])
         (auto simp: Allow_Some [OF rt] x_def [symmetric] bucket_ok_def)
  qed
qed

subsection \<open>Properties\<close>

text \<open>
  For any monotone rounding and a clock that does not run backwards, a call of \<open>Allow\<close>
  keeps the level of the bucket between 0 and its capacity and leaves rate and capacity
  unchanged: the level never goes negative and never exceeds one second of traffic.
\<close>

theorem Allow_keeps_level:
  assumes "rounding fl" and "bucket_ok fl tb" and "lastUpdate tb \<le> now" and "0 \<le> n"
  shows "\<exists>tb'. snd (Allow fl now n (Some tb)) = Some tb' \<and> bucket_ok fl tb'
           \<and> 0 \<le> tokens tb' \<and> tokens tb' \<le> capacity tb' \<and> rate tb' = rate tb"
proof -
  obtain tb' where "snd (Allow fl now n (Some tb)) = Some tb'" "bucket_ok fl tb'" "rate tb' = rate tb"
    by (rule Allow_ok [OF assms])
  then show ?thesis by (auto simp: bucket_ok_def)
qed

lemma sample_bucket_ok: "bucket_ok grid (NewTokenBucket grid 8 0)"
  by (rule NewTokenBucket_ok [OF rounding_grid]) (simp add: NewTokenBucket_def grid_def)

theorem Allow_keeps_level_witness:
  "\<exists>tb'. snd (Allow grid 5 1200 (Some (NewTokenBucket grid 8 0))) = Some tb' \<and> bucket_ok grid tb'"
  using Allow_keeps_level [OF rounding_grid sample_bucket_ok, of 5 1200] by auto

lemma refill_bound:
  assumes "0 < rate tb" and "lastUpdate tb \<le> now"
  shows "refill (\<lambda>x. x) now tb \<le> tokens tb + rate tb * of_int (now - lastUpdate tb) / 1000000000"
proof -
  have "sub_time now (lastUpdate tb) \<le> now - lastUpdate tb"
    using assms(2) by (simp add: sub_time_def)
  then have "rat_of_int (sub_time now (lastUpdate tb)) / 1000000000 * rate tb
      \<le> rat_of_int (now - lastUpdate tb) / 1000000000 * rate tb"
    using assms(1) by (intro mult_right_mono divide_right_mono) (simp_all del: of_int_diff)
  then show ?thesis
    by (simp add: refill_def Let_def seconds_id sub_time_nonneg [OF assms(2)] mult.commute)
qed



text \<open>
  After one idle second the bucket is full again: a packet no larger than the capacity is
  then admitted, whatever happened before. A packet larger than the capacity by a
  representable amount is never admitted, and a bucket that is absent or has no positive
  rate admits everything.
\<close>

theorem Allow_after_idle_second:
  assumes r: "rounding fl" and ok: "bucket_ok fl tb"
    and idle: "lastUpdate tb + 1000000000 \<le> now" and n: "of_int n \<le> capacity tb"
  shows "fst (Allow fl now n (Some tb))
     \<and> (capacity tb < fl (of_int n') \<longrightarrow> \<not> fst (Allow fl now n' (Some tb)))
     \<and> fst (Allow fl now n' None)"
proof -
  have rt: "0 < rate tb" and cap: "capacity tb = rate tb" "fl (capacity tb) = capacity tb"
    and tk: "0 \<le> tokens tb" using ok by (auto simp: bucket_ok_def)
  define d where "d = sub_time now (lastUpdate tb)"
  have d: "1000000000 \<le> d" using idle by (auto simp: d_def sub_time_def)
  then have "1 \<le> d div 1000000000" by linarith
  then have "1 \<le> fl (of_int (d div 1000000000))"
    using roundingD(1) [OF r, of 1] roundingD(4) [OF r] by (metis of_int_1 of_int_le_iff)
  moreover have "0 \<le> fl (fl (of_int (d mod 1000000000)) / 1000000000)"
    using fl_nonneg [OF r] by simp
  ultimately have "1 \<le> fl (of_int (d div 1000000000))
      + fl (fl (of_int (d mod 1000000000)) / 1000000000)" by linarith
  from roundingD(1) [OF r this] have "1 \<le> seconds fl d"
    using d by (simp add: seconds_def go_div_nonneg go_mod_nonneg roundingD(4) [OF r])
  then have "rate tb \<le> seconds fl d * rate tb" using rt by simp
  then have "rate tb \<le> fl (seconds fl d * rate tb)"
    using roundingD(1) [OF r, of "rate tb"] cap by metis
  then have "rate tb \<le> fl (tokens tb + fl (seconds fl d * rate tb))"
    using roundingD(1) [OF r, of "rate tb" "tokens tb + fl (seconds fl d * rate tb)"] cap tk by simp
  then have full: "refill fl now tb = capacity tb"
    using cap by (simp add: refill_def Let_def d_def)
  have "fl (of_int n) \<le> capacity tb"
    using roundingD(1) [OF r n] cap by simp
  with full show ?thesis
    by (simp add: Allow_Some [OF rt])
qed

theorem Allow_after_idle_second_witness:
  "fst (Allow grid 1000000000 1000000 (Some (NewTokenBucket grid 8 0)))"
  using Allow_after_idle_second [OF rounding_grid sample_bucket_ok, of 1000000000 1000000]
  by (simp add: NewTokenBucket_def grid_def)

end
