(* ===== verification/Store.thy ===== *)
theory Store
  imports Main
begin

section \<open>The user and device store (server/db/db.go)\<close>

text \<open>
  \<open>Store\<close> keeps two SQLite tables. What is modelled is the text of the SQL statements in the
  source: the schema of \<open>migrate\<close> with its constraints, and one definition per method. A
  table is the list of its rows in row-id order. The database engine can fail any statement
  (locked file, I/O error): each method takes the failure as an argument, \<open>None\<close> when there
  is none; a method of several statements takes a function from the number of the statement.
  The clock reading is an argument.

  \<open>PRAGMA foreign_keys\<close> belongs to one connection of the pool of \<open>database/sql\<close>, the one on which
  \<open>migrate\<close> ran it; \<open>DeleteUser\<close> takes as \<open>fk\<close> whether its connection has it on.
\<close>

datatype db_err = Driver string | Constraint string | NoRows | LimitExceeded int int

record user_row =
  uid :: int
  username :: string
  access_key :: string
  api_key :: "string option"
  role :: string
  device_limit :: int
  rate_limit :: int
  created_at :: int

record device_row =
  did :: int
  user_id :: int
  hwid :: string
  last_seen :: int

text \<open>\<open>users_seq\<close> and \<open>devices_seq\<close> are the AUTOINCREMENT sequences: the last id given out.\<close>

record db =
  users :: "user_row list"
  devices :: "device_row list"
  users_seq :: int
  devices_seq :: int

text \<open>The Go struct \<open>User\<close>: the row with a NULL API key read as the empty string.\<close>

record User =
  ID :: int
  Username :: string
  AccessKey :: string
  APIKey :: string
  Role :: string
  DeviceLimit :: int
  RateLimit :: int
  CreatedAt :: int

definition scan_user :: "user_row \<Rightarrow> User" where
  "scan_user r =
     \<lparr>ID = uid r, Username = username r, AccessKey = access_key r,
      APIKey = (case api_key r of None \<Rightarrow> [] | Some k \<Rightarrow> k), Role = role r,
      DeviceLimit = device_limit r, RateLimit = rate_limit r, CreatedAt = created_at r\<rparr>"

definition empty_db :: db where
  "empty_db = \<lparr>users = [], devices = [], users_seq = 0, devices_seq = 0\<rparr>"

text \<open>
  \<open>NewStore\<close> opens the file and runs \<open>migrate\<close>: an existing database keeps its rows, a new one
  gets empty tables. The statements are, in order, open, ping, pragma, the users table, the
  devices table and the index; a failure of one of them is returned, and the two ALTER
  statements between them ignore theirs.
\<close>

definition stmt :: "db_err option \<Rightarrow> (db_err + 'a) \<Rightarrow> db_err + 'a" where
  "stmt fault k = (case fault of Some e \<Rightarrow> Inl e | None \<Rightarrow> k)"

definition NewStore :: "(nat \<Rightarrow> db_err option) \<Rightarrow> db option \<Rightarrow> db_err + db" where
  "NewStore fault file =
     stmt (fault 0) (stmt (fault 1) (stmt (fault 2) (stmt (fault 3) (stmt (fault 4) (stmt (fault 5)
       (Inr (case file of None \<Rightarrow> empty_db | Some d \<Rightarrow> d)))))))"

subsection \<open>Users\<close>

definition valid_role :: "string \<Rightarrow> bool" where
  "valid_role r \<longleftrightarrow> r = ''owner'' \<or> r = ''admin'' \<or> r = ''user''"

definition CreateUser ::
  "db_err option \<Rightarrow> int \<Rightarrow> string \<Rightarrow> string \<Rightarrow> string \<Rightarrow> string \<Rightarrow> int \<Rightarrow> int \<Rightarrow> db
     \<Rightarrow> (db_err + User) \<times> db" where
  "CreateUser fault now name accessKey apiKey rl deviceLimit rateLimit d =
     (case fault of
        Some e \<Rightarrow> (Inl e, d)
      | None \<Rightarrow>
          if \<not> valid_role rl then (Inl (Constraint ''role''), d)
          else if \<not> (1 \<le> deviceLimit \<and> deviceLimit \<le> 5) then (Inl (Constraint ''device_limit''), d)
          else if accessKey \<in> set (map access_key (users d))
          then (Inl (Constraint ''access_key''), d)
          else
            let row = \<lparr>uid = users_seq d + 1, username = name, access_key = accessKey,
                  api_key = Some apiKey, role = rl, device_limit = deviceLimit,
                  rate_limit = rateLimit, created_at = now\<rparr>
            in (Inr \<lparr>ID = users_seq d + 1, Username = name, AccessKey = accessKey, APIKey = apiKey,
                     Role = rl, DeviceLimit = deviceLimit, RateLimit = rateLimit, CreatedAt = now\<rparr>,
                d\<lparr>users := users d @ [row], users_seq := users_seq d + 1\<rparr>))"

definition GetUserByKey :: "db_err option \<Rightarrow> string \<Rightarrow> db \<Rightarrow> db_err + User option" where
  "GetUserByKey fault accessKey d =
     stmt fault (Inr (map_option scan_user (find (\<lambda>r. access_key r = accessKey) (users d))))"

definition GetUserByAPIKey :: "db_err option \<Rightarrow> string \<Rightarrow> db \<Rightarrow> db_err + User option" where
  "GetUserByAPIKey fault apiKey d =
     stmt fault (Inr (map_option scan_user (find (\<lambda>r. api_key r = Some apiKey) (users d))))"

definition GetUserByID :: "db_err option \<Rightarrow> int \<Rightarrow> db \<Rightarrow> db_err + User option" where
  "GetUserByID fault i d =
     stmt fault (Inr (map_option scan_user (find (\<lambda>r. uid r = i) (users d))))"

text \<open>
  How the loop \<open>for rows.Next()\<close> over a result ends: after the last row, early because the
  engine failed (\<open>Next\<close> returns false and the code does not ask \<open>rows.Err()\<close>), or by the
  return when \<open>Scan\<close> fails on a row.
\<close>

datatype row_end = AllRows | Interrupted nat | ScanError nat db_err

fun read_rows :: "row_end \<Rightarrow> 'a list \<Rightarrow> db_err + 'a list" where
  "read_rows AllRows xs = Inr xs"
| "read_rows (Interrupted n) xs = Inr (take n xs)"
| "read_rows (ScanError n e) xs = (if n < length xs then Inl e else Inr xs)"

definition ListUsers :: "db_err option \<Rightarrow> row_end \<Rightarrow> db \<Rightarrow> db_err + User list" where
  "ListUsers fault re d = stmt fault (read_rows re (map scan_user (users d)))"

definition UpdateUserAPIKey :: "db_err option \<Rightarrow> int \<Rightarrow> string \<Rightarrow> db \<Rightarrow> db_err option \<times> db" where
  "UpdateUserAPIKey fault i newKey d =
     (case fault of
        Some e \<Rightarrow> (Some e, d)
      | None \<Rightarrow>
          (None, d\<lparr>users := map (\<lambda>r. if uid r = i then r\<lparr>api_key := Some newKey\<rparr> else r) (users d)\<rparr>))"

definition UpdateUserAccessKey :: "db_err option \<Rightarrow> int \<Rightarrow> string \<Rightarrow> db \<Rightarrow> db_err option \<times> db" where
  "UpdateUserAccessKey fault i newKey d =
     (case fault of
        Some e \<Rightarrow> (Some e, d)
      | None \<Rightarrow>
          if i \<in> set (map uid (users d))
             \<and> list_ex (\<lambda>r. uid r \<noteq> i \<and> access_key r = newKey) (users d)
          then (Some (Constraint ''access_key''), d)
          else
            (None, d\<lparr>users := map (\<lambda>r. if uid r = i then r\<lparr>access_key := newKey\<rparr> else r) (users d)\<rparr>))"

text \<open>\<open>ON DELETE CASCADE\<close> acts only on a connection with foreign keys on.\<close>

definition DeleteUser :: "db_err option \<Rightarrow> bool \<Rightarrow> int \<Rightarrow> db \<Rightarrow> db_err option \<times> db" where
  "DeleteUser fault fk i d =
     (case fault of
        Some e \<Rightarrow> (Some e, d)
      | None \<Rightarrow>
          (None, d\<lparr>users := filter (\<lambda>r. uid r \<noteq> i) (users d),
                   devices := (if fk then filter (\<lambda>v. user_id v \<noteq> i) (devices d) else devices d)\<rparr>))"

subsection \<open>Devices\<close>

definition GetDevicesForUser :: "db_err option \<Rightarrow> row_end \<Rightarrow> int \<Rightarrow> db \<Rightarrow> db_err + device_row list" where
  "GetDevicesForUser fault re i d =
     stmt fault (read_rows re (filter (\<lambda>v. user_id v = i) (devices d)))"

definition device_count :: "int \<Rightarrow> db \<Rightarrow> int" where
  "device_count i d = int (length (filter (\<lambda>v. user_id v = i) (devices d)))"

definition device_known :: "int \<Rightarrow> string \<Rightarrow> db \<Rightarrow> bool" where
  "device_known i h d = list_ex (\<lambda>v. user_id v = i \<and> hwid v = h) (devices d)"

text \<open>
  \<open>RegisterDevice\<close> is one transaction. Its statements are numbered: 0 begin, 1 the user's
  limit, 2 the count, 3 the existence test, 4 the update or insert, 5 commit. A failure of
  any of them rolls back.
\<close>

definition RegisterDevice ::
  "(nat \<Rightarrow> db_err option) \<Rightarrow> int \<Rightarrow> int \<Rightarrow> string \<Rightarrow> db \<Rightarrow> db_err option \<times> db" where
  "RegisterDevice fault now i h d =
     (let res =
        stmt (fault 0) (stmt (fault 1)
          (case find (\<lambda>r. uid r = i) (users d) of
             None \<Rightarrow> Inl NoRows
           | Some u \<Rightarrow>
               let limit = (if role u = ''admin'' then 1 else device_limit u);
                   count = device_count i d
               in stmt (fault 2) (stmt (fault 3)
                 (if device_known i h d
                  then stmt (fault 4) (stmt (fault 5)
                    (Inr (d\<lparr>devices := map (\<lambda>v. if user_id v = i \<and> hwid v = h
                                              then v\<lparr>last_seen := now\<rparr> else v) (devices d)\<rparr>)))
                  else if limit \<le> count then Inl (LimitExceeded count limit)
                  else stmt (fault 4) (stmt (fault 5)
                    (Inr (d\<lparr>devices := devices d
                              @ [\<lparr>did = devices_seq d + 1, user_id = i, hwid = h, last_seen = now\<rparr>],
                            devices_seq := devices_seq d + 1\<rparr>)))))))
      in case res of Inl e \<Rightarrow> (Some e, d) | Inr d' \<Rightarrow> (None, d'))"

definition ResetUserDevices :: "db_err option \<Rightarrow> int \<Rightarrow> db \<Rightarrow> db_err option \<times> db" where
  "ResetUserDevices fault i d =
     (case fault of
        Some e \<Rightarrow> (Some e, d)
      | None \<Rightarrow> (None, d\<lparr>devices := filter (\<lambda>v. user_id v \<noteq> i) (devices d)\<rparr>))"

subsection \<open>Well-formedness\<close>

definition effective_limit :: "user_row \<Rightarrow> int" where
  "effective_limit u = (if role u = ''admin'' then 1 else device_limit u)"

definition users_ok :: "db \<Rightarrow> bool" where
  "users_ok d \<longleftrightarrow> 0 \<le> users_seq d \<and> distinct (map uid (users d)) \<and> distinct (map access_key (users d))
     \<and> (\<forall>u \<in> set (users d). 1 \<le> uid u \<and> uid u \<le> users_seq d \<and> valid_role (role u)
          \<and> 1 \<le> device_limit u \<and> device_limit u \<le> 5)"

definition devices_ok :: "db \<Rightarrow> bool" where
  "devices_ok d \<longleftrightarrow> distinct (map (\<lambda>v. (user_id v, hwid v)) (devices d))
     \<and> distinct (map did (devices d))
     \<and> (\<forall>v \<in> set (devices d). did v \<le> devices_seq d \<and> user_id v \<le> users_seq d)"

definition quota_ok :: "db \<Rightarrow> bool" where
  "quota_ok d \<longleftrightarrow> (\<forall>u \<in> set (users d). device_count (uid u) d \<le> effective_limit u)"

definition store_ok :: "db \<Rightarrow> bool" where
  "store_ok d \<longleftrightarrow> users_ok d \<and> devices_ok d \<and> quota_ok d"

text \<open>The writing operations of the store, with their arguments and engine failures.\<close>

datatype db_op =
    OpCreateUser "db_err option" int string string string string int int
  | OpUpdateAPIKey "db_err option" int string
  | OpUpdateAccessKey "db_err option" int string
  | OpDeleteUser "db_err option" bool int
  | OpRegisterDevice "nat \<Rightarrow> db_err option" int int string
  | OpResetDevices "db_err option" int

fun db_step :: "db_op \<Rightarrow> db \<Rightarrow> db" where
  "db_step (OpCreateUser f now n k a r dl rl) d = snd (CreateUser f now n k a r dl rl d)"
| "db_step (OpUpdateAPIKey f i k) d = snd (UpdateUserAPIKey f i k d)"
| "db_step (OpUpdateAccessKey f i k) d = snd (UpdateUserAccessKey f i k d)"
| "db_step (OpDeleteUser f fk i) d = snd (DeleteUser f fk i d)"
| "db_step (OpRegisterDevice f now i h) d = snd (RegisterDevice f now i h d)"
| "db_step (OpResetDevices f i) d = snd (ResetUserDevices f i d)"

definition db_run :: "db_op list \<Rightarrow> db \<Rightarrow> db" where
  "db_run ops d = fold db_step ops d"

end
