(* ===== verification/Device_Registry_Spec.thy ===== *)
theory Device_Registry_Spec
  imports Main
begin

section \<open>The interface of a device registry\<close>

text \<open>
  What authentication relies on when it registers a device: registration succeeds exactly
  for a known account whose device is already registered or whose limit leaves room; it
  adds that device and no other, and a refused registration changes nothing. The locale
  derives what any sequence of registrations gives an account.
\<close>

fun reg_run :: "('s \<Rightarrow> 'i \<Rightarrow> 'h \<Rightarrow> bool \<times> 's) \<Rightarrow> ('i \<times> 'h) list \<Rightarrow> 's \<Rightarrow> 's" where
  "reg_run reg_fn [] s = s"
| "reg_run reg_fn ((i, h) # xs) s = reg_run reg_fn xs (snd (reg_fn s i h))"

locale device_registry =
  fixes reg_fn :: "'s \<Rightarrow> 'i \<Rightarrow> 'h \<Rightarrow> bool \<times> 's"
    and devs_fn :: "'s \<Rightarrow> 'i \<Rightarrow> 'h set"
    and limit_fn :: "'s \<Rightarrow> 'i \<Rightarrow> nat option"
    and inv_fn :: "'s \<Rightarrow> bool"
  assumes reg_inv: "inv_fn s \<Longrightarrow> inv_fn (snd (reg_fn s i h))"
    and reg_succeeds: "inv_fn s \<Longrightarrow> fst (reg_fn s i h) \<longleftrightarrow>
      (\<exists>n. limit_fn s i = Some n \<and> (h \<in> devs_fn s i \<or> card (devs_fn s i) < n))"
    and reg_devs: "inv_fn s \<Longrightarrow> devs_fn (snd (reg_fn s i h)) j =
      (if fst (reg_fn s i h) \<and> j = i then insert h (devs_fn s i) else devs_fn s j)"
    and reg_limit: "inv_fn s \<Longrightarrow> limit_fn (snd (reg_fn s i h)) j = limit_fn s j"
    and devs_finite: "inv_fn s \<Longrightarrow> finite (devs_fn s i)"
begin

definition within_limits :: "'s \<Rightarrow> bool" where
  "within_limits s \<longleftrightarrow> (\<forall>i n. limit_fn s i = Some n \<longrightarrow> card (devs_fn s i) \<le> n)"

lemma within_limits_reg:
  assumes "inv_fn s" and "within_limits s"
  shows "within_limits (snd (reg_fn s i h))"
  using assms reg_succeeds [OF assms(1), of i h] devs_finite [OF assms(1), of i]
  by (auto simp: within_limits_def reg_limit reg_devs card_insert_if)

lemma reg_again:
  assumes "inv_fn s" and "fst (reg_fn s i h)"
  shows "fst (reg_fn (snd (reg_fn s i h)) i h)"
  using assms reg_succeeds [OF assms(1), of i h] reg_succeeds [OF reg_inv [OF assms(1)], of i h i h]
  by (auto simp: reg_limit reg_devs)

lemma run_inv: "inv_fn s \<Longrightarrow> inv_fn (reg_run reg_fn xs s)"
  by (induction xs arbitrary: s) (auto simp: reg_inv)

lemma run_limit: "inv_fn s \<Longrightarrow> limit_fn (reg_run reg_fn xs s) j = limit_fn s j"
  by (induction xs arbitrary: s) (auto simp: reg_inv reg_limit)

lemma run_within: "inv_fn s \<Longrightarrow> within_limits s \<Longrightarrow> within_limits (reg_run reg_fn xs s)"
  by (induction xs arbitrary: s) (auto simp: reg_inv within_limits_reg)

lemma run_keeps_device:
  "inv_fn s \<Longrightarrow> h \<in> devs_fn s i \<Longrightarrow> h \<in> devs_fn (reg_run reg_fn xs s) i"
proof (induction xs arbitrary: s)
  case (Cons x xs)
  obtain j g where x: "x = (j, g)" by (cases x)
  have "h \<in> devs_fn (snd (reg_fn s j g)) i"
    using Cons.prems by (auto simp: reg_devs)
  with Cons.IH [OF reg_inv [OF Cons.prems(1)]] show ?case by (simp add: x)
qed simp

text \<open>A registered device stays admitted through any later registrations.\<close>

lemma registered_stays_admitted:
  assumes "inv_fn s" and "fst (reg_fn s i h)"
  shows "fst (reg_fn (reg_run reg_fn xs (snd (reg_fn s i h))) i h)"
proof -
  let ?t = "reg_run reg_fn xs (snd (reg_fn s i h))"
  have inv: "inv_fn (snd (reg_fn s i h))" by (rule reg_inv [OF assms(1)])
  obtain n where "limit_fn s i = Some n" using assms reg_succeeds by blast
  then have "limit_fn ?t i = Some n" by (simp add: run_limit [OF inv] reg_limit [OF assms(1)])
  moreover have "h \<in> devs_fn ?t i"
    by (rule run_keeps_device [OF inv]) (simp add: reg_devs [OF assms(1)] assms(2))
  ultimately show ?thesis
    using reg_succeeds [OF run_inv [OF inv], of xs i h] by blast
qed

end

end
