(* ===== verification/Store_Correct.thy ===== *)
theory Store_Correct
  imports Store Device_Registry_Spec
begin

section \<open>Correctness of the store\<close>

text \<open>
  The well-formedness \<open>store_ok\<close> (ids and access keys unique, roles and limits in range, no
  account over its device limit) is kept by every method and so by any sequence of them;
  the exact outcomes of device registration; what account deletion leaves behind; and the
  interpretation of \<open>device_registry\<close> on the store.
\<close>

named_theorems store_simps \<open>the methods of the store\<close>

lemma stmt_simps [store_simps]:
  "stmt None k = k" "stmt (Some e) k = Inl e"
  by (simp_all add: stmt_def)

lemma stmt_Inr: "stmt f k = Inr x \<longleftrightarrow> f = None \<and> k = Inr x"
  by (cases f) (simp_all add: stmt_def)

subsection \<open>Counting devices\<close>

lemma device_count_same: "devices d' = devices d \<Longrightarrow> device_count i d' = device_count i d"
  by (simp add: device_count_def)

lemma device_count_nonneg: "0 \<le> device_count i d"
  by (simp add: device_count_def)

lemma length_filter_filter: "length (filter P (filter Q xs)) \<le> length (filter P xs)"
  by (induction xs) auto

lemma device_count_filter_le:
  "devices d' = filter P (devices d) \<Longrightarrow> device_count i d' \<le> device_count i d"
  by (simp add: device_count_def length_filter_filter del: filter_filter)

lemma device_count_unused:
  "devices_ok d \<Longrightarrow> users_seq d < i \<Longrightarrow> device_count i d = 0"
  by (force simp: devices_ok_def device_count_def filter_empty_conv)

lemma device_count_card:
  assumes "devices_ok d"
  shows "device_count i d = int (card (hwid ` {v \<in> set (devices d). user_id v = i}))"
proof -
  let ?vs = "filter (\<lambda>v. user_id v = i) (devices d)"
  have "distinct (map (\<lambda>v. (user_id v, hwid v)) ?vs)"
    using assms by (auto simp: devices_ok_def distinct_map inj_on_def)
  then have "distinct (map hwid ?vs)"
    by (auto simp: distinct_map inj_on_def)
  then have "card (set (map hwid ?vs)) = length ?vs"
    by (metis distinct_card length_map)
  moreover have "set (map hwid ?vs) = hwid ` {v \<in> set (devices d). user_id v = i}"
    by simp
  ultimately show ?thesis by (simp add: device_count_def)
qed

lemma device_count_touch:
  "device_count j (d\<lparr>devices := map (\<lambda>v. if P v then v\<lparr>last_seen := now\<rparr> else v) (devices d)\<rparr>)
     = device_count j d"
  by (simp add: device_count_def filter_map o_def if_distrib cong: if_cong)

lemma device_count_add:
  "device_count j (d\<lparr>devices := devices d @ [v], devices_seq := n\<rparr>)
     = device_count j d + (if user_id v = j then 1 else 0)"
  by (simp add: device_count_def)

lemma device_known_iff: "device_known i h d \<longleftrightarrow> (\<exists>v \<in> set (devices d). user_id v = i \<and> hwid v = h)"
  by (auto simp: device_known_def list_ex_iff)

subsection \<open>Every method keeps the store well formed\<close>

lemma store_ok_CreateUser:
  assumes ok: "store_ok d"
  shows "store_ok (snd (CreateUser f now n k a r dl rl d))"
proof (cases "fst (CreateUser f now n k a r dl rl d)")
  case (Inl e)
  then show ?thesis using ok by (auto simp: CreateUser_def Let_def split: option.splits if_splits)
next
  case (Inr u)
  let ?row = "\<lparr>uid = users_seq d + 1, username = n, access_key = k, api_key = Some a, role = r,
    device_limit = dl, rate_limit = rl, created_at = now\<rparr>"
  let ?d = "d\<lparr>users := users d @ [?row], users_seq := users_seq d + 1\<rparr>"
  from Inr have d': "snd (CreateUser f now n k a r dl rl d) = ?d"
    and new: "valid_role r" "1 \<le> dl" "dl \<le> 5" "k \<notin> set (map access_key (users d))"
    by (auto simp: CreateUser_def Let_def split: option.splits if_splits)
  have bound: "uid v \<le> users_seq d" if "v \<in> set (users d)" for v
    using ok that by (simp add: store_ok_def users_ok_def)
  have "users_seq d + 1 \<notin> uid ` set (users d)"
    using bound by fastforce
  moreover have "uid v \<le> users_seq d + 1" if "v \<in> set (users d)" for v
    using bound [OF that] by simp
  ultimately have "users_ok ?d"
    using ok new by (auto simp: store_ok_def users_ok_def)
  moreover have "devices_ok ?d"
    using ok by (auto simp: store_ok_def devices_ok_def intro: order_trans)
  moreover have "device_count (users_seq d + 1) d = 0"
    using ok by (intro device_count_unused) (auto simp: store_ok_def)
  then have "quota_ok ?d"
    using ok new
    by (auto simp: store_ok_def quota_ok_def effective_limit_def device_count_same [of ?d d])
  ultimately show ?thesis by (simp add: d' store_ok_def)
qed

lemma quota_ok_mono:
  assumes "quota_ok d" and "\<And>i. device_count i d' \<le> device_count i d"
    and "\<And>u. u \<in> set (users d') \<Longrightarrow> \<exists>v \<in> set (users d). uid v = uid u \<and> effective_limit v = effective_limit u"
  shows "quota_ok d'"
  using assms unfolding quota_ok_def by (metis order_trans)

lemma distinct_map_filter: "distinct (map f xs) \<Longrightarrow> distinct (map f (filter P xs))"
  by (auto simp: distinct_map inj_on_def)

lemma store_ok_filter:
  assumes ok: "store_ok d"
    and d': "users d' = filter P (users d)" "devices d' = filter Q (devices d)"
      "users_seq d' = users_seq d" "devices_seq d' = devices_seq d"
  shows "store_ok d'"
proof -
  have "users_ok d'"
    using ok by (simp add: store_ok_def users_ok_def d' distinct_map_filter)
  moreover have "devices_ok d'"
    using ok by (simp add: store_ok_def devices_ok_def d' distinct_map_filter)
  moreover have "quota_ok d'"
  proof (rule quota_ok_mono)
    show "quota_ok d" using ok by (simp add: store_ok_def)
    show "\<And>i. device_count i d' \<le> device_count i d" by (rule device_count_filter_le [OF d'(2)])
    fix u assume "u \<in> set (users d')"
    then show "\<exists>v \<in> set (users d). uid v = uid u \<and> effective_limit v = effective_limit u"
      by (intro bexI [of _ u]) (simp_all add: d')
  qed
  ultimately show ?thesis by (simp add: store_ok_def)
qed

lemma store_ok_DeleteUser:
  assumes "store_ok d" shows "store_ok (snd (DeleteUser f fk i d))"
proof (cases f)
  case None
  have "store_ok (snd (DeleteUser None True i d))"
    by (rule store_ok_filter [OF assms, of _ "\<lambda>r. uid r \<noteq> i" "\<lambda>v. user_id v \<noteq> i"])
       (simp_all add: DeleteUser_def)
  moreover have "store_ok (snd (DeleteUser None False i d))"
    by (rule store_ok_filter [OF assms, of _ "\<lambda>r. uid r \<noteq> i" "\<lambda>_. True"])
       (simp_all add: DeleteUser_def)
  ultimately show ?thesis using None by (cases fk) simp_all
qed (simp add: DeleteUser_def assms)

lemma store_ok_ResetUserDevices:
  assumes "store_ok d" shows "store_ok (snd (ResetUserDevices f i d))"
proof (cases f)
  case None
  show ?thesis unfolding None
    by (rule store_ok_filter [OF assms, of _ "\<lambda>_. True" "\<lambda>v. user_id v \<noteq> i"])
       (simp_all add: ResetUserDevices_def)
qed (simp add: ResetUserDevices_def assms)

text \<open>Rewriting the rows of the users table in place, keys apart.\<close>

lemma store_ok_map_users:
  assumes ok: "store_ok d"
    and g: "\<And>r. uid (g r) = uid r" "\<And>r. role (g r) = role r" "\<And>r. device_limit (g r) = device_limit r"
    and keys: "distinct (map (\<lambda>r. access_key (g r)) (users d))"
  shows "store_ok (d\<lparr>users := map g (users d)\<rparr>)"
  using assms
  by (auto simp: store_ok_def users_ok_def devices_ok_def quota_ok_def effective_limit_def
      device_count_def o_def)

lemma store_ok_UpdateUserAPIKey:
  assumes "store_ok d" shows "store_ok (snd (UpdateUserAPIKey f i k d))"
proof (cases f)
  case None
  have g: "(\<lambda>r :: user_row. access_key (if uid r = i then r\<lparr>api_key := Some k\<rparr> else r)) = access_key"
    by auto
  have keys: "distinct (map (\<lambda>r. access_key (if uid r = i then r\<lparr>api_key := Some k\<rparr> else r)) (users d))"
    unfolding g using assms by (simp add: store_ok_def users_ok_def)
  have "store_ok (d\<lparr>users := map (\<lambda>r. if uid r = i then r\<lparr>api_key := Some k\<rparr> else r) (users d)\<rparr>)"
    by (rule store_ok_map_users [OF assms _ _ _ keys]) simp_all
  then show ?thesis by (simp add: UpdateUserAPIKey_def None)
qed (simp add: UpdateUserAPIKey_def assms)

lemma distinct_map_replace:
  assumes "distinct (map kf xs)" and "distinct (map idf xs)"
    and "\<not> list_ex (\<lambda>r. idf r \<noteq> i \<and> kf r = k) xs"
  shows "distinct (map (\<lambda>r. if idf r = i then k else kf r) xs)"
  using assms by (induction xs) (auto simp: list_ex_iff image_iff)

lemma store_ok_UpdateUserAccessKey:
  assumes "store_ok d" shows "store_ok (snd (UpdateUserAccessKey f i k d))"
proof (cases f)
  case None
  let ?g = "\<lambda>r. if uid r = i then r\<lparr>access_key := k\<rparr> else r"
  have d: "distinct (map access_key (users d))" "distinct (map uid (users d))"
    using assms by (simp_all add: store_ok_def users_ok_def)
  have g: "(\<lambda>r. access_key (?g r)) = (\<lambda>r. if uid r = i then k else access_key r)" by auto
  show ?thesis
  proof (cases "i \<in> set (map uid (users d))")
    case True
    show ?thesis
    proof (cases "list_ex (\<lambda>r. uid r \<noteq> i \<and> access_key r = k) (users d)")
      case False
      have "store_ok (d\<lparr>users := map ?g (users d)\<rparr>)"
        by (rule store_ok_map_users [OF assms]) (simp_all add: g distinct_map_replace [OF d False])
      then show ?thesis using False by (simp add: UpdateUserAccessKey_def None)
    qed (use True in \<open>simp add: UpdateUserAccessKey_def None assms\<close>)
  next
    case False
    then have "map ?g (users d) = users d" by (auto intro!: map_idI)
    then show ?thesis using False by (auto simp: UpdateUserAccessKey_def None assms)
  qed
qed (simp add: UpdateUserAccessKey_def assms)

subsection \<open>Device registration\<close>

text \<open>The two writes of the transaction, and the limit it reads.\<close>

definition touch_device :: "int \<Rightarrow> int \<Rightarrow> string \<Rightarrow> db \<Rightarrow> db" where
  "touch_device now i h d = d\<lparr>devices := map (\<lambda>v. if user_id v = i \<and> hwid v = h
      then v\<lparr>last_seen := now\<rparr> else v) (devices d)\<rparr>"

definition add_device :: "int \<Rightarrow> int \<Rightarrow> string \<Rightarrow> db \<Rightarrow> db" where
  "add_device now i h d = d\<lparr>devices := devices d
      @ [\<lparr>did = devices_seq d + 1, user_id = i, hwid = h, last_seen = now\<rparr>],
     devices_seq := devices_seq d + 1\<rparr>"

definition limit_of :: "db \<Rightarrow> int \<Rightarrow> int option" where
  "limit_of d i = map_option effective_limit (find (\<lambda>r. uid r = i) (users d))"

lemma RegisterDevice_cases:
  obtains
    (rejected) e where "RegisterDevice f now i h d = (Some e, d)"
  | (known) l where "RegisterDevice f now i h d = (None, touch_device now i h d)"
      and "limit_of d i = Some l" and "device_known i h d"
  | (added) l where "RegisterDevice f now i h d = (None, add_device now i h d)"
      and "limit_of d i = Some l" and "\<not> device_known i h d" and "device_count i d < l"
proof (cases "RegisterDevice f now i h d")
  case (Pair e d')
  show thesis
  proof (cases e)
    case None
    with Pair obtain u where u: "find (\<lambda>r. uid r = i) (users d) = Some u"
      by (auto simp: RegisterDevice_def Let_def stmt_def split: option.splits sum.splits if_splits)
    show thesis
    proof (cases "device_known i h d")
      case True
      with Pair None u have "d' = touch_device now i h d"
        by (auto simp: RegisterDevice_def Let_def stmt_def touch_device_def
            split: option.splits sum.splits if_splits)
      with Pair None u True show thesis by (intro known) (auto simp: limit_of_def)
    next
      case False
      with Pair None u have "d' = add_device now i h d \<and> device_count i d < effective_limit u"
        by (auto simp: RegisterDevice_def Let_def stmt_def add_device_def effective_limit_def
            split: option.splits sum.splits if_splits)
      with Pair None u False show thesis by (intro added) (auto simp: limit_of_def)
    qed
  next
    case (Some e')
    with Pair have "d' = d"
      by (auto simp: RegisterDevice_def Let_def split: sum.splits)
    with Pair Some show thesis by (intro rejected) simp
  qed
qed

lemma RegisterDevice_no_fault:
  "RegisterDevice (\<lambda>_. None) now i h d =
     (case limit_of d i of
        None \<Rightarrow> (Some NoRows, d)
      | Some l \<Rightarrow>
          if device_known i h d then (None, touch_device now i h d)
          else if l \<le> device_count i d then (Some (LimitExceeded (device_count i d) l), d)
          else (None, add_device now i h d))"
  by (simp add: RegisterDevice_def Let_def stmt_def limit_of_def effective_limit_def
      touch_device_def add_device_def split: option.split)

lemma touch_users [store_simps]: "users (touch_device now i h d) = users d"
  and add_users [store_simps]: "users (add_device now i h d) = users d"
  and touch_users_seq [store_simps]: "users_seq (touch_device now i h d) = users_seq d"
  and add_users_seq [store_simps]: "users_seq (add_device now i h d) = users_seq d"
  by (simp_all add: touch_device_def add_device_def)

lemma limit_of_same: "users d' = users d \<Longrightarrow> limit_of d' i = limit_of d i"
  by (simp add: limit_of_def)

lemma limit_of_SomeD:
  "limit_of d i = Some l \<Longrightarrow> \<exists>u \<in> set (users d). uid u = i \<and> effective_limit u = l"
  by (auto simp: limit_of_def find_Some_iff)

lemma limit_of_row:
  assumes "store_ok d" and "u \<in> set (users d)"
  shows "limit_of d (uid u) = Some (effective_limit u)"
proof -
  obtain v where v: "find (\<lambda>r. uid r = uid u) (users d) = Some v"
    using assms(2) by (metis (mono_tags, lifting) find_None_iff option.exhaust)
  then have "v \<in> set (users d)" "uid v = uid u"
    by (auto simp: find_Some_iff)
  then have "v = u"
    using assms by (auto simp: store_ok_def users_ok_def distinct_map inj_on_def)
  with v show ?thesis by (simp add: limit_of_def)
qed

definition hwids :: "db \<Rightarrow> int \<Rightarrow> string set" where
  "hwids d i = set (map hwid (filter (\<lambda>v. user_id v = i) (devices d)))"

lemma hwids_touch [store_simps]: "hwids (touch_device now i h d) j = hwids d j"
proof -
  have "map hwid (filter (\<lambda>v. user_id v = j)
          (map (\<lambda>v. if user_id v = i \<and> hwid v = h then v\<lparr>last_seen := now\<rparr> else v) vs))
      = map hwid (filter (\<lambda>v. user_id v = j) vs)" for vs :: "device_row list"
    by (induction vs) auto
  then show ?thesis by (simp add: hwids_def touch_device_def del: set_map set_filter)
qed

lemma hwids_add [store_simps]:
  "hwids (add_device now i h d) j = (if j = i then insert h (hwids d j) else hwids d j)"
  by (simp add: hwids_def add_device_def)

lemma device_known_hwids: "device_known i h d \<longleftrightarrow> h \<in> hwids d i"
  by (auto simp: hwids_def device_known_iff)

lemma store_ok_touch:
  assumes "store_ok d" shows "store_ok (touch_device now i h d)"
proof -
  let ?g = "\<lambda>v :: device_row. if user_id v = i \<and> hwid v = h then v\<lparr>last_seen := now\<rparr> else v"
  have g: "(\<lambda>v :: device_row. (user_id (?g v), hwid (?g v))) = (\<lambda>v. (user_id v, hwid v))"
    "(\<lambda>v. did (?g v)) = did" by auto
  have m: "map (\<lambda>v. (user_id v, hwid v)) (map ?g (devices d)) = map (\<lambda>v. (user_id v, hwid v)) (devices d)"
    "map did (map ?g (devices d)) = map did (devices d)"
    unfolding map_map o_def g by (rule refl)+
  have dv: "devices (touch_device now i h d) = map ?g (devices d)"
    and sq: "devices_seq (touch_device now i h d) = devices_seq d"
    by (simp_all add: touch_device_def)
  have "devices_ok (touch_device now i h d)"
    using assms unfolding store_ok_def devices_ok_def dv sq m touch_users_seq by auto
  then show ?thesis
    using assms device_count_touch [where d = d and now = now and P = "\<lambda>v. user_id v = i \<and> hwid v = h"]
    by (auto simp: store_ok_def users_ok_def quota_ok_def touch_device_def)
qed

lemma store_ok_add:
  assumes ok: "store_ok d" and l: "limit_of d i = Some l" and new: "\<not> device_known i h d"
    and room: "device_count i d < l"
  shows "store_ok (add_device now i h d)"
proof -
  have bound: "did v \<le> devices_seq d" "user_id v \<le> users_seq d" if "v \<in> set (devices d)" for v
    using ok that by (simp_all add: store_ok_def devices_ok_def)
  have "devices_seq d + 1 \<notin> did ` set (devices d)"
    using bound by fastforce
  moreover have "i \<le> users_seq d"
    using limit_of_SomeD [OF l] ok by (auto simp: store_ok_def users_ok_def)
  moreover have "did v \<le> devices_seq d + 1" if "v \<in> set (devices d)" for v
    using bound [OF that] by simp
  ultimately have "devices_ok (add_device now i h d)"
    using ok new by (auto simp: store_ok_def devices_ok_def add_device_def device_known_iff)
  moreover have "quota_ok (add_device now i h d)"
    using ok room l limit_of_row [OF ok]
    by (auto simp: store_ok_def quota_ok_def add_device_def device_count_add)
  ultimately show ?thesis
    using ok by (simp add: store_ok_def users_ok_def add_device_def)
qed

lemma store_ok_RegisterDevice:
  assumes "store_ok d" shows "store_ok (snd (RegisterDevice f now i h d))"
  by (rule RegisterDevice_cases [of f now i h d])
     (simp_all add: assms store_ok_touch store_ok_add)

lemma store_ok_step: "store_ok d \<Longrightarrow> store_ok (db_step op d)"
  by (cases op) (simp_all add: store_ok_CreateUser store_ok_UpdateUserAPIKey
      store_ok_UpdateUserAccessKey store_ok_DeleteUser store_ok_RegisterDevice store_ok_ResetUserDevices)

lemma store_ok_run: "store_ok d \<Longrightarrow> store_ok (db_run ops d)"
  by (induction ops arbitrary: d) (simp_all add: db_run_def store_ok_step)

lemma store_ok_empty: "store_ok empty_db"
  by (simp add: store_ok_def users_ok_def devices_ok_def quota_ok_def empty_db_def)

subsection \<open>The store is a device registry\<close>

text \<open>
  The state of the interface is the store with the coming readings of the clock; a
  registration takes the next one.
\<close>

definition store_reg :: "db \<times> (nat \<Rightarrow> int) \<Rightarrow> int \<Rightarrow> string \<Rightarrow> bool \<times> db \<times> (nat \<Rightarrow> int)" where
  "store_reg s i h =
     (let r = RegisterDevice (\<lambda>_. None) (snd s 0) i h (fst s)
      in (fst r = None, snd r, \<lambda>k. snd s (Suc k)))"

definition nat_limit :: "db \<Rightarrow> int \<Rightarrow> nat option" where
  "nat_limit d i = map_option nat (limit_of d i)"

lemma hwids_card: "store_ok d \<Longrightarrow> int (card (hwids d i)) = device_count i d"
  using device_count_card [of d i] by (simp add: hwids_def store_ok_def)

lemma limit_of_nonneg: "store_ok d \<Longrightarrow> limit_of d i = Some l \<Longrightarrow> 0 \<le> l"
  using limit_of_SomeD [of d i l] by (auto simp: store_ok_def users_ok_def effective_limit_def)

lemma store_reg_cases:
  "store_reg (d, clk) i h =
     (case limit_of d i of
        None \<Rightarrow> (False, d, \<lambda>k. clk (Suc k))
      | Some l \<Rightarrow>
          if device_known i h d then (True, touch_device (clk 0) i h d, \<lambda>k. clk (Suc k))
          else if l \<le> device_count i d then (False, d, \<lambda>k. clk (Suc k))
          else (True, add_device (clk 0) i h d, \<lambda>k. clk (Suc k)))"
  by (simp add: store_reg_def Let_def RegisterDevice_no_fault split: option.split)

lemma store_reg_succeeds:
  assumes "store_ok d"
  shows "fst (store_reg (d, clk) i h) \<longleftrightarrow>
    (\<exists>n. nat_limit d i = Some n \<and> (h \<in> hwids d i \<or> card (hwids d i) < n))"
proof (cases "limit_of d i")
  case (Some l)
  have "card (hwids d i) < nat l \<longleftrightarrow> device_count i d < l"
    using hwids_card [OF assms, of i] by linarith
  then show ?thesis using Some
    by (auto simp: store_reg_cases nat_limit_def device_known_hwids)
qed (simp add: store_reg_cases nat_limit_def)

lemma store_reg_hwids:
  "hwids (fst (snd (store_reg (d, clk) i h))) j =
     (if fst (store_reg (d, clk) i h) \<and> j = i then insert h (hwids d i) else hwids d j)"
  by (auto simp: store_reg_cases store_simps device_known_hwids split: option.split)

lemma store_reg_limit: "nat_limit (fst (snd (store_reg (d, clk) i h))) j = nat_limit d j"
  by (auto simp: store_reg_cases nat_limit_def store_simps intro!: arg_cong [where f = "map_option nat"] limit_of_same
      split: option.split)

lemma store_reg_ok: "store_ok d \<Longrightarrow> store_ok (fst (snd (store_reg (d, clk) i h)))"
  by (simp add: store_reg_def Let_def store_ok_RegisterDevice)

interpretation reg: device_registry store_reg "\<lambda>s. hwids (fst s)" "\<lambda>s. nat_limit (fst s)"
  "\<lambda>s. store_ok (fst s)"
proof (unfold_locales, goal_cases)
  case (1 s i h) then show ?case by (cases s) (simp add: store_reg_ok)
next
  case (2 s i h) then show ?case by (cases s) (simp add: store_reg_succeeds)
next
  case (3 s i h j) then show ?case by (cases s) (simp add: store_reg_hwids)
next
  case (4 s i h j) then show ?case by (cases s) (simp add: store_reg_limit)
next
  case (5 s i) then show ?case by (simp add: hwids_def)
qed

subsection \<open>Properties\<close>

text \<open>
  C34: Starting from a well-formed store, any sequence of account creations, key changes,
  deletions, device registrations and device resets, each with any engine failure, leaves a
  well-formed store: ids and access keys unique, roles and limits in range, every device
  listed once, and no account over its limit (one device for an admin).
\<close>

theorem store_run_ok:
  assumes "store_ok d"
  shows "store_ok (db_run ops d)
     \<and> (\<forall>u \<in> set (users (db_run ops d)).
          int (card (hwids (db_run ops d) (uid u))) \<le> (if role u = ''admin'' then 1 else device_limit u)
        \<and> device_limit u \<le> 5)"
proof -
  have ok: "store_ok (db_run ops d)" by (rule store_ok_run [OF assms])
  then show ?thesis
    by (auto simp: hwids_card store_ok_def quota_ok_def users_ok_def effective_limit_def)
qed

definition sample_ops :: "db_op list" where
  "sample_ops = [OpCreateUser None 1 ''root'' ''k1'' ''a1'' ''owner'' 2 0,
     OpCreateUser None 2 ''dup'' ''k1'' ''a2'' ''user'' 1 0,
     OpRegisterDevice (\<lambda>_. None) 3 1 ''h1'', OpRegisterDevice (\<lambda>_. None) 4 1 ''h2'',
     OpRegisterDevice (\<lambda>_. None) 5 1 ''h3'']"

theorem store_run_ok_witness:
  "store_ok (db_run sample_ops empty_db) \<and> length (users (db_run sample_ops empty_db)) = 1
   \<and> map hwid (devices (db_run sample_ops empty_db)) = [''h1'', ''h2'']"
proof -
  have "store_ok (db_run sample_ops empty_db)"
    using store_run_ok [OF store_ok_empty, of sample_ops] by simp
  moreover have "length (users (db_run sample_ops empty_db)) = 1
      \<and> map hwid (devices (db_run sample_ops empty_db)) = [''h1'', ''h2'']"
    by code_simp
  ultimately show ?thesis by simp
qed

text \<open>All outcomes of a registration.\<close>

lemma RegisterDevice_facts:
  assumes run: "RegisterDevice fault now i h d = (e, d')"
  shows "(if e \<noteq> None then d' = d
     else (\<exists>l. limit_of d i = Some l \<and> (h \<in> hwids d i \<or> device_count i d < l))
        \<and> (\<forall>j. hwids d' j = (if j = i then insert h (hwids d i) else hwids d j))
        \<and> users d' = users d)
   \<and> ((\<forall>k. fault k = None) \<longrightarrow>
        (e = None) = (\<exists>l. limit_of d i = Some l \<and> (h \<in> hwids d i \<or> device_count i d < l)))"
proof -
  have "e = None \<longleftrightarrow> (\<exists>l. limit_of d i = Some l \<and> (h \<in> hwids d i \<or> device_count i d < l))"
    if "\<forall>k. fault k = None"
  proof -
    have "fault = (\<lambda>_. None)" using that by auto
    with run show ?thesis
      by (auto simp: RegisterDevice_no_fault device_known_hwids split: option.splits if_splits)
  qed
  then show ?thesis
    using run
    by (cases rule: RegisterDevice_cases [of fault now i h d])
       (auto simp: store_simps device_known_hwids)
qed

text \<open>
  C35: Device registration is atomic and exact. If it reports an error, whatever statement
  failed, the store is unchanged. If it succeeds, the device is registered for that account
  and no other device or account changed, and the account had room for it or knew it. With
  no engine failure it succeeds exactly for an existing account that knows the device or has
  room.
\<close>

theorem RegisterDevice_spec:
  assumes run: "RegisterDevice fault now i h d = (e, d')"
  shows "(if e \<noteq> None then d' = d
     else (\<exists>l. limit_of d i = Some l \<and> (h \<in> hwids d i \<or> device_count i d < l))
        \<and> (\<forall>j. hwids d' j = (if j = i then insert h (hwids d i) else hwids d j))
        \<and> users d' = users d)
   \<and> ((\<forall>k. fault k = None) \<longrightarrow>
        (e = None) = (\<exists>l. limit_of d i = Some l \<and> (h \<in> hwids d i \<or> device_count i d < l)))"
  by (rule RegisterDevice_facts [OF run])

definition sample_db :: db where
  "sample_db = db_run sample_ops empty_db"

theorem RegisterDevice_spec_witness:
  "fst (RegisterDevice (\<lambda>_. None) 9 1 ''h4'' sample_db) \<noteq> None
   \<and> snd (RegisterDevice (\<lambda>_. None) 9 1 ''h4'' sample_db) = sample_db
   \<and> fst (RegisterDevice (\<lambda>_. None) 9 1 ''h2'' sample_db) = None
   \<and> hwids (snd (RegisterDevice (\<lambda>_. None) 9 1 ''h2'' sample_db)) 1 = {''h1'', ''h2''}"
proof -
  have a: "fst (RegisterDevice (\<lambda>_. None) 9 1 ''h4'' sample_db) = Some (LimitExceeded 2 2)"
    by code_simp
  have b: "fst (RegisterDevice (\<lambda>_. None) 9 1 ''h2'' sample_db) = None"
    by code_simp
  have c: "hwids sample_db 1 = {''h1'', ''h2''}"
    by code_simp
  show ?thesis
    using RegisterDevice_spec [OF prod.collapse [symmetric], of "\<lambda>_. None" 9 1 "''h4''" sample_db]
      RegisterDevice_spec [OF prod.collapse [symmetric], of "\<lambda>_. None" 9 1 "''h2''" sample_db]
    by (simp add: a b c insert_commute)
qed

text \<open>
  An admitted device stays admitted. Once a registration has succeeded, the same device is
  accepted again after any sequence of registrations of any devices by any accounts.
\<close>

theorem registered_device_stays:
  assumes "store_ok d" and "fst (RegisterDevice (\<lambda>_. None) now i h d) = None"
  shows "fst (RegisterDevice (\<lambda>_. None) later i h
      (fst (reg_run store_reg regs (snd (RegisterDevice (\<lambda>_. None) now i h d), clk)))) = None"
proof -
  let ?clk = "\<lambda>k. if k = 0 then now else clk (k - 1)"
  have s: "store_reg (d, ?clk) i h
      = (True, snd (RegisterDevice (\<lambda>_. None) now i h d), clk)"
    using assms(2) by (simp add: store_reg_def Let_def)
  obtain t c where t: "reg_run store_reg regs (snd (RegisterDevice (\<lambda>_. None) now i h d), clk) = (t, c)"
    by fastforce
  have "fst (store_reg (t, c) i h)"
    using reg.registered_stays_admitted [of "(d, ?clk)" i h regs] assms(1) by (simp add: s t)
  then have "fst (RegisterDevice (\<lambda>_. None) (c 0) i h t) = None"
    by (simp add: store_reg_def Let_def)
  then have "fst (RegisterDevice (\<lambda>_. None) later i h t) = None"
    by (simp add: RegisterDevice_no_fault split: option.splits if_splits)
  then show ?thesis by (simp only: t fst_conv)
qed

theorem registered_device_stays_witness:
  "fst (RegisterDevice (\<lambda>_. None) 20 1 ''h1''
      (fst (reg_run store_reg [(1, ''h7''), (2, ''h1'')]
        (snd (RegisterDevice (\<lambda>_. None) 9 1 ''h1'' sample_db), int)))) = None"
proof -
  have ok: "store_ok sample_db"
    unfolding sample_db_def by (rule store_ok_run [OF store_ok_empty])
  have "fst (RegisterDevice (\<lambda>_. None) 9 1 ''h1'' sample_db) = None" by code_simp
  from registered_device_stays [OF ok this] show ?thesis .
qed

lemma find_snoc: "\<forall>x \<in> set xs. \<not> P x \<Longrightarrow> find P (xs @ [y]) = (if P y then Some y else None)"
  by (induction xs) simp_all

text \<open>
  A created account is found by its access key and by its id, with exactly the fields
  given, starts with no device, even one left behind by a deleted account, and leaves every
  other account as it was.
\<close>

theorem CreateUser_lookup:
  assumes ok: "store_ok d" and new: "CreateUser fault now n k a r dl rl d = (Inr u, d')"
  shows "GetUserByKey None k d' = Inr (Some u) \<and> GetUserByID None (ID u) d' = Inr (Some u)
     \<and> hwids d' (ID u) = {} \<and> ListUsers None AllRows d' = Inr (map scan_user (users d) @ [u])
     \<and> Username u = n \<and> AccessKey u = k \<and> APIKey u = a \<and> Role u = r
     \<and> DeviceLimit u = dl \<and> RateLimit u = rl"
proof -
  let ?row = "\<lparr>uid = users_seq d + 1, username = n, access_key = k, api_key = Some a, role = r,
    device_limit = dl, rate_limit = rl, created_at = now\<rparr>"
  from new have d': "d' = d\<lparr>users := users d @ [?row], users_seq := users_seq d + 1\<rparr>"
    and u: "u = scan_user ?row" and k: "k \<notin> set (map access_key (users d))"
    by (auto simp: CreateUser_def scan_user_def Let_def split: option.splits if_splits)
  have seq: "uid v \<noteq> users_seq d + 1" if "v \<in> set (users d)" for v
    using ok that by (force simp: store_ok_def users_ok_def)
  have "find (\<lambda>v. access_key v = k) (users d @ [?row]) = Some ?row"
    using k by (subst find_snoc) auto
  moreover have "find (\<lambda>v. uid v = users_seq d + 1) (users d @ [?row]) = Some ?row"
    using seq by (subst find_snoc) auto
  moreover have "hwids d (users_seq d + 1) = {}"
    using hwids_card [OF ok, of "users_seq d + 1"] device_count_unused [of d "users_seq d + 1"] ok
    by (simp add: store_ok_def hwids_def)
  ultimately show ?thesis
    by (simp add: d' u GetUserByKey_def GetUserByID_def ListUsers_def store_simps scan_user_def hwids_def)
qed

theorem CreateUser_lookup_witness:
  "\<exists>u d'. CreateUser None 7 ''bob'' ''kb'' ''ab'' ''user'' 3 10 sample_db = (Inr u, d')
     \<and> GetUserByKey None ''kb'' d' = Inr (Some u) \<and> hwids d' (ID u) = {}"
proof -
  have ok: "store_ok sample_db"
    unfolding sample_db_def by (rule store_ok_run [OF store_ok_empty])
  obtain d' where "CreateUser None 7 ''bob'' ''kb'' ''ab'' ''user'' 3 10 sample_db
      = (Inr \<lparr>ID = 2, Username = ''bob'', AccessKey = ''kb'', APIKey = ''ab'', Role = ''user'',
           DeviceLimit = 3, RateLimit = 10, CreatedAt = 7\<rparr>, d')"
    by (simp add: CreateUser_def sample_db_def sample_ops_def db_run_def empty_db_def valid_role_def
        RegisterDevice_def stmt_def device_count_def device_known_def)
  from CreateUser_lookup [OF ok this] this show ?thesis by blast
qed

text \<open>
  Deleting an account on a connection with foreign keys enabled removes its devices; on a
  connection without them its device rows stay behind. In both cases the account is gone, its
  keys find nobody and no other account loses a device.
\<close>

theorem DeleteUser_cascade:
  assumes "store_ok d" and "u \<in> set (users d)" and "DeleteUser None fk (uid u) d = (e, d')"
  shows "e = None \<and> GetUserByKey None (access_key u) d' = Inr None
     \<and> GetUserByID None (uid u) d' = Inr None
     \<and> hwids d' (uid u) = (if fk then {} else hwids d (uid u))
     \<and> (\<forall>j. j \<noteq> uid u \<longrightarrow> hwids d' j = hwids d j)"
proof -
  from assms(3) have e: "e = None" and us: "users d' = filter (\<lambda>r. uid r \<noteq> uid u) (users d)"
    and dv: "devices d' = (if fk then filter (\<lambda>v. user_id v \<noteq> uid u) (devices d) else devices d)"
    by (auto simp: DeleteUser_def)
  have "v = u" if "v \<in> set (users d)" "access_key v = access_key u" for v
    using assms(1,2) that by (auto simp: store_ok_def users_ok_def distinct_map inj_on_def)
  then have "find (\<lambda>r. access_key r = access_key u) (users d') = None"
    by (auto simp: us find_None_iff)
  moreover have "find (\<lambda>r. uid r = uid u) (users d') = None"
    by (auto simp: us find_None_iff)
  ultimately show ?thesis
    by (auto simp: e GetUserByKey_def GetUserByID_def store_simps hwids_def dv)
qed

theorem DeleteUser_cascade_witness:
  "hwids (snd (DeleteUser None True 1 sample_db)) 1 = {}
   \<and> hwids (snd (DeleteUser None False 1 sample_db)) 1 = {''h1'', ''h2''}
   \<and> GetUserByID None 1 (snd (DeleteUser None False 1 sample_db)) = Inr None"
proof -
  have ok: "store_ok sample_db"
    unfolding sample_db_def by (rule store_ok_run [OF store_ok_empty])
  have u: "users sample_db = [\<lparr>uid = 1, username = ''root'', access_key = ''k1'',
      api_key = Some ''a1'', role = ''owner'', device_limit = 2, rate_limit = 0, created_at = 1\<rparr>]"
    by code_simp
  have h: "hwids sample_db 1 = {''h1'', ''h2''}" by code_simp
  show ?thesis
    using DeleteUser_cascade [OF ok, of "hd (users sample_db)" True]
      DeleteUser_cascade [OF ok, of "hd (users sample_db)" False]
    by (simp add: u h prod_eq_iff)
qed

end
