(* ===== verification/Auth.thy ===== *)
theory Auth
  imports Store_Correct
begin

section \<open>Authentication (server/auth/auth.go)\<close>

text \<open>
  \<open>Authenticate\<close> checks a client's access key and registers its device. It makes two calls of
  the store, each with its engine failure; \<open>between\<close> are the operations of other connections
  that the store executes between the two.
\<close>

datatype auth_err = EmptyKey | EmptyHWID | InvalidKey | StoreErr db_err

definition Authenticate ::
  "db_err option \<Rightarrow> db_op list \<Rightarrow> (nat \<Rightarrow> db_err option) \<Rightarrow> int \<Rightarrow> string \<Rightarrow> string \<Rightarrow> db
     \<Rightarrow> (auth_err + User) \<times> db" where
  "Authenticate fault between regfault now key h d =
     (if key = [] then (Inl EmptyKey, d)
      else if h = [] then (Inl EmptyHWID, d)
      else case GetUserByKey fault key d of
        Inl e \<Rightarrow> (Inl (StoreErr e), d)
      | Inr None \<Rightarrow> (Inl InvalidKey, d)
      | Inr (Some u) \<Rightarrow>
          let user = (if Role u = ''admin'' \<and> DeviceLimit u \<noteq> 1 then u\<lparr>DeviceLimit := 1\<rparr> else u)
          in case RegisterDevice regfault now (ID user) h (db_run between d) of
               (Some e, d') \<Rightarrow> (Inl (StoreErr e), d')
             | (None, d') \<Rightarrow> (Inr user, d'))"

definition auth_user :: "user_row \<Rightarrow> User" where
  "auth_user r = (scan_user r)\<lparr>DeviceLimit := effective_limit r\<rparr>"

lemma auth_user_cap:
  "(if Role (scan_user r) = ''admin'' \<and> DeviceLimit (scan_user r) \<noteq> 1
    then (scan_user r)\<lparr>DeviceLimit := 1\<rparr> else scan_user r) = auth_user r"
  by (simp add: auth_user_def scan_user_def effective_limit_def)

lemma auth_user_ID [simp]: "ID (auth_user r) = uid r"
  by (simp add: auth_user_def scan_user_def)

lemma GetUserByKey_cases:
  obtains (err) e where "GetUserByKey fault k d = Inl e"
  | (none) "GetUserByKey fault k d = Inr None" and "\<forall>r \<in> set (users d). access_key r \<noteq> k"
  | (found) r where "GetUserByKey fault k d = Inr (Some (scan_user r))"
      and "r \<in> set (users d)" and "access_key r = k" and "fault = None"
proof (cases fault)
  case None
  show thesis
  proof (cases "find (\<lambda>r. access_key r = k) (users d)")
    case None
    with \<open>fault = None\<close> show thesis
      by (intro none) (auto simp: GetUserByKey_def store_simps find_None_iff)
  next
    case (Some r)
    then have "r \<in> set (users d)" "access_key r = k" by (auto simp: find_Some_iff)
    with \<open>fault = None\<close> Some show thesis
      by (intro found) (auto simp: GetUserByKey_def store_simps)
  qed
qed (use err in \<open>simp add: GetUserByKey_def store_simps\<close>)

lemma Authenticate_no_fault:
  "key \<noteq> [] \<Longrightarrow> h \<noteq> [] \<Longrightarrow> r \<in> set (users d) \<Longrightarrow> access_key r = key \<Longrightarrow> store_ok d \<Longrightarrow>
   Authenticate None ops rf now key h d =
     (case RegisterDevice rf now (uid r) h (db_run ops d) of
        (Some e, d') \<Rightarrow> (Inl (StoreErr e), d') | (None, d') \<Rightarrow> (Inr (auth_user r), d'))"
proof (rule GetUserByKey_cases [of None key d])
  fix r' assume asm: "key \<noteq> []" "h \<noteq> []" "r \<in> set (users d)" "access_key r = key" "store_ok d"
    and f: "GetUserByKey None key d = Inr (Some (scan_user r'))" "r' \<in> set (users d)" "access_key r' = key"
  have "r' = r" using asm f(2,3) by (auto simp: store_ok_def users_ok_def distinct_map inj_on_def)
  with asm(1,2) f(1) show ?thesis by (simp add: Authenticate_def Let_def auth_user_cap)
qed (auto simp: GetUserByKey_def store_simps)

lemma Authenticate_key:
  assumes run: "Authenticate fault ops rf now key h d = (Inr u, d')"
  shows "fault = None \<and> (\<exists>r \<in> set (users d). access_key r = key)"
proof (cases rule: GetUserByKey_cases [of fault key d])
  case (err e)
  with run show ?thesis by (simp add: Authenticate_def split: if_splits)
next
  case none
  with run show ?thesis by (simp add: Authenticate_def split: if_splits)
next
  case (found r)
  then show ?thesis by blast
qed

text \<open>
  C32: A successful authentication names an existing account whose access key was presented,
  returned with its effective device limit (1 for an admin), with the device registered
  within the limit in force when the device was registered; if no other connection came in
  between, that is the limit returned and no account changed. Nobody gets in with an empty key
  or device id, and the store stays well formed.
\<close>

theorem Authenticate_sound:
  assumes ok: "store_ok d" and run: "Authenticate fault ops rf now key h d = (Inr u, d')"
  shows "key \<noteq> [] \<and> h \<noteq> [] \<and> store_ok d'
     \<and> (\<exists>r \<in> set (users d). access_key r = key \<and> u = auth_user r \<and> h \<in> hwids d' (uid r)
          \<and> (\<exists>l. limit_of d' (uid r) = Some l \<and> int (card (hwids d' (uid r))) \<le> l)
          \<and> (ops = [] \<longrightarrow> limit_of d' (uid r) = Some (DeviceLimit u) \<and> users d' = users d))"
proof -
  have k: "key \<noteq> []" "h \<noteq> []" using run by (cases "key = []"; cases "h = []"; simp add: Authenticate_def)+
  obtain r where r: "r \<in> set (users d)" "access_key r = key" and f: "fault = None"
    using Authenticate_key [OF run] by blast
  obtain e d2 where reg2: "RegisterDevice rf now (uid r) h (db_run ops d) = (e, d2)" by fastforce
  have eq: "(case (e, d2) of (Some e, d') \<Rightarrow> (Inl (StoreErr e), d')
      | (None, d') \<Rightarrow> (Inr (auth_user r), d')) = (Inr u, d')"
    using run unfolding f Authenticate_no_fault [OF k r ok] reg2 .
  then have e: "e = None" by (cases e) simp_all
  with eq have u: "u = auth_user r" and d2: "d2 = d'" by simp_all
  have reg: "RegisterDevice rf now (uid r) h (db_run ops d) = (None, d')"
    using reg2 e d2 by simp
  have ok': "store_ok d'"
    using store_ok_RegisterDevice [OF store_ok_run [OF ok, of ops], of rf now "uid r" h] by (simp add: reg)
  have us: "users d' = users (db_run ops d)" and h: "h \<in> hwids d' (uid r)"
    using RegisterDevice_facts [OF reg] by simp_all
  obtain l where "limit_of (db_run ops d) (uid r) = Some l"
    using RegisterDevice_facts [OF reg] by auto
  then have l': "limit_of d' (uid r) = Some l" by (simp add: limit_of_same [OF us])
  then obtain v where v: "v \<in> set (users d')" "uid v = uid r" "effective_limit v = l"
    using limit_of_SomeD by blast
  have card: "int (card (hwids d' (uid r))) \<le> l"
    using v ok' hwids_card [OF ok', of "uid r"] by (auto simp: store_ok_def quota_ok_def)
  have same: "limit_of d' (uid r) = Some (DeviceLimit u) \<and> users d' = users d" if "ops = []"
    using that us limit_of_row [OF ok r(1)] limit_of_same [OF us, of "uid r"]
    by (simp add: db_run_def u auth_user_def)
  have "\<exists>l. limit_of d' (uid r) = Some l \<and> int (card (hwids d' (uid r))) \<le> l"
    using l' card by blast
  then show ?thesis
    by (intro conjI k ok' bexI [OF _ r(1)] r(2) u h impI conjunct1 [OF same] conjunct2 [OF same])
qed

theorem Authenticate_sound_witness:
  "\<exists>u d'. Authenticate None [] (\<lambda>_. None) 5 ''k1'' ''h1'' sample_db = (Inr u, d')
     \<and> ''h1'' \<in> hwids d' 1 \<and> limit_of d' 1 = Some (DeviceLimit u)"
proof -
  have ok: "store_ok sample_db"
    unfolding sample_db_def by (rule store_ok_run [OF store_ok_empty])
  have ids: "list_all (\<lambda>r. uid r = 1) (users sample_db)" by code_simp
  have "\<not> isl (fst (Authenticate None [] (\<lambda>_. None) 5 ''k1'' ''h1'' sample_db))" by code_simp
  then obtain u d' where run: "Authenticate None [] (\<lambda>_. None) 5 ''k1'' ''h1'' sample_db = (Inr u, d')"
    by (metis isl_def prod.collapse sum.collapse(2))
  from Authenticate_sound [OF ok run] ids run show ?thesis
    by (auto simp: list_all_iff)
qed

text \<open>
  With no engine failure and no other connection in between, authentication succeeds
  exactly for a non-empty key of an account and a non-empty device id that the account knows
  or has room for; otherwise the answer is the error of the first failed test and the store
  is unchanged.
\<close>

theorem Authenticate_complete:
  assumes ok: "store_ok d"
  shows "case Authenticate None [] (\<lambda>_. None) now key h d of
      (Inr u, d') \<Rightarrow> hwids d' (ID u) = insert h (hwids d (ID u)) \<and> users d' = users d
    | (Inl e, d') \<Rightarrow> d' = d
        \<and> (e = EmptyKey) = (key = [])
        \<and> (e = EmptyHWID) = (key \<noteq> [] \<and> h = [])
        \<and> (e = InvalidKey) = (key \<noteq> [] \<and> h \<noteq> [] \<and> key \<notin> set (map access_key (users d)))
        \<and> (\<forall>x. e = StoreErr x \<longrightarrow> (\<exists>r \<in> set (users d). access_key r = key
              \<and> h \<notin> hwids d (uid r) \<and> effective_limit r \<le> device_count (uid r) d))"
proof (cases "key = [] \<or> h = []")
  case True
  then show ?thesis by (auto simp: Authenticate_def)
next
  case False
  then have k: "key \<noteq> []" "h \<noteq> []" by auto
  show ?thesis
  proof (cases "key \<in> set (map access_key (users d))")
    case True
    then obtain r where r: "r \<in> set (users d)" "access_key r = key" by auto
    have l: "limit_of d (uid r) = Some (effective_limit r)" by (rule limit_of_row [OF ok r(1)])
    show ?thesis
      using k r by (auto simp: Authenticate_no_fault [OF k r ok] db_run_def RegisterDevice_no_fault l
          device_known_hwids store_simps intro!: bexI [OF _ r(1)])
  next
    case False
    then have "find (\<lambda>r. access_key r = key) (users d) = None" by (auto simp: find_None_iff)
    then show ?thesis using k False
      by (simp add: Authenticate_def GetUserByKey_def store_simps)
  qed
qed

theorem Authenticate_complete_witness:
  "Authenticate None [] (\<lambda>_. None) 5 ''k1'' ''h9'' sample_db = (Inl (StoreErr (LimitExceeded 2 2)), sample_db)
   \<and> fst (Authenticate None [] (\<lambda>_. None) 5 ''zz'' ''h9'' sample_db) = Inl InvalidKey"
proof -
  have ok: "store_ok sample_db"
    unfolding sample_db_def by (rule store_ok_run [OF store_ok_empty])
  have a: "fst (Authenticate None [] (\<lambda>_. None) 5 ''k1'' ''h9'' sample_db)
      = Inl (StoreErr (LimitExceeded 2 2))" by code_simp
  have b: "fst (Authenticate None [] (\<lambda>_. None) 5 ''zz'' ''h9'' sample_db) = Inl InvalidKey"
    by code_simp
  show ?thesis
    using Authenticate_complete [OF ok, where now = 5 and key = "''k1''" and h = "''h9''"] a b
    by (auto simp: prod_eq_iff split: prod.splits)
qed

end
