(* ===== verification/Api.thy ===== *)
theory Api
  imports Auth Go_Strings
begin

section \<open>The administrative REST API (server/api/api.go)\<close>

text \<open>
  One definition per handler, the authentication middleware and the routing table of
  \<open>Handler\<close>. A request carries its method, the segments of its canonical path (the mux
  answers any other path with a redirect that reaches no handler), the \<open>X-API-Key\<close> header and
  what the JSON decoder makes of its body, \<open>None\<close> for an error. A handler returns the status
  and the body and the changed store. One request runs to its end before the next.

  What the request meets is a record: the failures of its store calls by number (0 is the
  lookup of the middleware), how the rows of a listing end, whether the connection of a call
  has foreign keys on, the bytes drawn from \<open>crypto/rand\<close> and the clock. In this version of
  Go \<open>rand.Read\<close> never returns an error.
\<close>

record Server = apiKey :: string

record createUserRequest =
  req_username :: string
  req_role :: string
  req_device_limit :: int
  req_rate_limit :: int

record request =
  Method :: string
  Path :: "string list"
  XAPIKey :: string
  Body :: "createUserRequest option"

datatype body =
    NoBody | ErrorBody string | StoreError db_err | UsersBody "User list" | UserBody User
  | StatusBody string | APIKeyBody string | AccessKeyBody string

type_synonym response = "nat \<times> body"

record api_env =
  faults :: "nat \<Rightarrow> db_err option"
  rows_end :: row_end
  fk_on :: "nat \<Rightarrow> bool"
  access_draw :: bytes
  api_draw :: bytes
  clock :: int

definition generateAPIKey :: "bytes \<Rightarrow> string" where
  "generateAPIKey b = ''api_'' @ hex_encode b"

definition generateAccessKey :: "bytes \<Rightarrow> string" where
  "generateAccessKey b = ''epn_'' @ hex_encode b"

subsection \<open>The handlers\<close>

definition authMiddleware ::
  "api_env \<Rightarrow> Server \<Rightarrow> string \<Rightarrow> (string \<Rightarrow> db \<Rightarrow> response \<times> db) \<Rightarrow> db \<Rightarrow> response \<times> db" where
  "authMiddleware env srv token next_fn d =
     (if token = [] then ((401, ErrorBody ''Unauthorized''), d)
      else if token = apiKey srv then next_fn ''owner'' d
      else case GetUserByAPIKey (faults env 0) token d of
        Inl e \<Rightarrow> ((401, ErrorBody ''Unauthorized''), d)
      | Inr None \<Rightarrow> ((401, ErrorBody ''Unauthorized''), d)
      | Inr (Some u) \<Rightarrow>
          if Role u \<noteq> ''owner'' \<and> Role u \<noteq> ''admin'' then ((403, ErrorBody ''Forbidden''), d)
          else next_fn (Role u) d)"

definition listUsers :: "api_env \<Rightarrow> db \<Rightarrow> response \<times> db" where
  "listUsers env d =
     (case ListUsers (faults env 1) (rows_end env) d of
        Inl e \<Rightarrow> ((500, StoreError e), d) | Inr us \<Rightarrow> ((200, UsersBody us), d))"

definition createUser :: "api_env \<Rightarrow> Server \<Rightarrow> string \<Rightarrow> createUserRequest option \<Rightarrow> db \<Rightarrow> response \<times> db"
where
  "createUser env srv token bd d =
     (case bd of
        None \<Rightarrow> ((400, ErrorBody ''Invalid request body''), d)
      | Some req \<Rightarrow>
          if req_username req = [] \<or> req_role req = [] \<or> req_device_limit req < 1
             \<or> 5 < req_device_limit req
          then ((400, ErrorBody ''Invalid parameters. Role must be owner/admin/user, limit 1-5''), d)
          else if req_role req \<noteq> ''owner'' \<and> req_role req \<noteq> ''admin'' \<and> req_role req \<noteq> ''user''
          then ((400, ErrorBody ''Invalid role''), d)
          else
            let isOwner = (if token = apiKey srv then True
                           else (case GetUserByAPIKey (faults env 1) token d of
                             Inr (Some u) \<Rightarrow> Role u = ''owner'' | _ \<Rightarrow> False))
            in if req_role req = ''owner'' \<and> \<not> isOwner
               then ((403, ErrorBody ''Only owners can create new owners''), d)
               else
                 let accessKey = generateAccessKey (access_draw env);
                     newKey = (if req_role req = ''owner'' \<or> req_role req = ''admin''
                               then generateAPIKey (api_draw env) else [])
                 in case CreateUser (faults env 2) (clock env) (req_username req) accessKey newKey
                           (req_role req) (req_device_limit req) (req_rate_limit req) d of
                      (Inl e, d') \<Rightarrow> ((500, StoreError e), d')
                    | (Inr u, d') \<Rightarrow> ((201, UserBody u), d'))"

definition deleteUser :: "api_env \<Rightarrow> string \<Rightarrow> string \<Rightarrow> db \<Rightarrow> response \<times> db" where
  "deleteUser env rl idStr d =
     (case ParseInt64 idStr of
        None \<Rightarrow> ((400, ErrorBody ''Invalid user ID''), d)
      | Some i \<Rightarrow>
          case GetUserByID (faults env 1) i d of
            Inl e \<Rightarrow> ((500, NoBody), d)
          | Inr None \<Rightarrow> ((404, NoBody), d)
          | Inr (Some target) \<Rightarrow>
              if Role target = ''owner'' \<and> rl \<noteq> ''owner''
              then ((403, ErrorBody ''Only owners can delete owners''), d)
              else case DeleteUser (faults env 2) (fk_on env 2) i d of
                (Some e, d') \<Rightarrow> ((500, StoreError e), d')
              | (None, d') \<Rightarrow> ((200, StatusBody ''deleted''), d'))"

definition reissueAPIKey :: "api_env \<Rightarrow> string \<Rightarrow> string \<Rightarrow> db \<Rightarrow> response \<times> db" where
  "reissueAPIKey env rl idStr d =
     (case ParseInt64 idStr of
        None \<Rightarrow> ((400, NoBody), d)
      | Some i \<Rightarrow>
          case GetUserByID (faults env 1) i d of
            Inr (Some target) \<Rightarrow>
              if Role target = ''owner'' \<and> rl \<noteq> ''owner''
              then ((403, ErrorBody ''Only owners can modify owners''), d)
              else
                let newKey = (if Role target = ''owner'' \<or> Role target = ''admin''
                              then generateAPIKey (api_draw env) else [])
                in (case UpdateUserAPIKey (faults env 2) i newKey d of
                     (Some e, d') \<Rightarrow> ((500, NoBody), d')
                   | (None, d') \<Rightarrow> ((200, APIKeyBody newKey), d'))
          | _ \<Rightarrow> ((404, NoBody), d))"

definition reissueAccessKey :: "api_env \<Rightarrow> string \<Rightarrow> string \<Rightarrow> db \<Rightarrow> response \<times> db" where
  "reissueAccessKey env rl idStr d =
     (case ParseInt64 idStr of
        None \<Rightarrow> ((400, NoBody), d)
      | Some i \<Rightarrow>
          case GetUserByID (faults env 1) i d of
            Inr (Some target) \<Rightarrow>
              if Role target = ''owner'' \<and> rl \<noteq> ''owner''
              then ((403, ErrorBody ''Only owners can modify owners''), d)
              else
                let newKey = generateAccessKey (access_draw env)
                in (case UpdateUserAccessKey (faults env 2) i newKey d of
                     (Some e, d') \<Rightarrow> ((500, NoBody), d')
                   | (None, d') \<Rightarrow> ((200, AccessKeyBody newKey), d'))
          | _ \<Rightarrow> ((404, NoBody), d))"

text \<open>The goroutine \<open>serverReboot\<close> starts has an empty body.\<close>

definition serverReboot :: "db \<Rightarrow> response \<times> db" where
  "serverReboot d = ((200, StatusBody ''rebooting''), d)"

text \<open>The loop of \<open>serverWipe\<close>; the errors of its store calls are discarded.\<close>

fun wipe_users :: "api_env \<Rightarrow> nat \<Rightarrow> User list \<Rightarrow> db \<Rightarrow> db" where
  "wipe_users env k [] d = d"
| "wipe_users env k (u # us) d =
     wipe_users env (Suc k) us
       (if Username u \<noteq> ''default_owner'' then snd (DeleteUser (faults env k) (fk_on env k) (ID u) d)
        else snd (ResetUserDevices (faults env k) (ID u) d))"

definition serverWipe :: "api_env \<Rightarrow> string \<Rightarrow> db \<Rightarrow> response \<times> db" where
  "serverWipe env rl d =
     (if rl \<noteq> ''owner'' then ((403, ErrorBody ''Only owners can wipe the server''), d)
      else
        let us = (case ListUsers (faults env 1) (rows_end env) d of Inl e \<Rightarrow> [] | Inr us \<Rightarrow> us)
        in ((200, StatusBody ''wiped''), wipe_users env 2 us d))"

definition resetDevices :: "api_env \<Rightarrow> string \<Rightarrow> db \<Rightarrow> response \<times> db" where
  "resetDevices env idStr d =
     (case ParseInt64 idStr of
        None \<Rightarrow> ((400, ErrorBody ''Invalid user ID''), d)
      | Some i \<Rightarrow>
          case ResetUserDevices (faults env 1) i d of
            (Some e, d') \<Rightarrow> ((500, StoreError e), d')
          | (None, d') \<Rightarrow> ((200, StatusBody ''reset''), d'))"

subsection \<open>Routing\<close>

datatype endpoint =
    ListEP | CreateEP | DeleteEP string | ResetEP string | ReissueAPIEP string
  | ReissueAccessEP string | RebootEP | WipeEP

text \<open>
  The patterns registered in \<open>Handler\<close>, by path: a wildcard matches one non-empty segment, and
  a \<open>GET\<close> pattern also serves \<open>HEAD\<close>. A path without a pattern is answered with 404, a path
  without the method with 405.
\<close>

definition patterns :: "string list \<Rightarrow> (string \<times> endpoint) list" where
  "patterns p =
     (if p = [''api'', ''users''] then [(''GET'', ListEP), (''HEAD'', ListEP), (''POST'', CreateEP)]
      else if p = [''api'', ''server'', ''reboot''] then [(''POST'', RebootEP)]
      else if p = [''api'', ''server'', ''wipe''] then [(''POST'', WipeEP)]
      else case p of
        [a, b, i] \<Rightarrow> if a = ''api'' \<and> b = ''users'' \<and> i \<noteq> [] then [(''DELETE'', DeleteEP i)] else []
      | [a, b, i, c] \<Rightarrow>
          if a = ''api'' \<and> b = ''users'' \<and> i \<noteq> []
          then (if c = ''reset'' then [(''POST'', ResetEP i)]
                else if c = ''reissue-api-key'' then [(''POST'', ReissueAPIEP i)]
                else if c = ''reissue-access-key'' then [(''POST'', ReissueAccessEP i)] else [])
          else []
      | _ \<Rightarrow> [])"

fun dispatch :: "api_env \<Rightarrow> Server \<Rightarrow> request \<Rightarrow> string \<Rightarrow> endpoint \<Rightarrow> db \<Rightarrow> response \<times> db" where
  "dispatch env srv rq rl ListEP d = listUsers env d"
| "dispatch env srv rq rl CreateEP d = createUser env srv (XAPIKey rq) (Body rq) d"
| "dispatch env srv rq rl (DeleteEP i) d = deleteUser env rl i d"
| "dispatch env srv rq rl (ResetEP i) d = resetDevices env i d"
| "dispatch env srv rq rl (ReissueAPIEP i) d = reissueAPIKey env rl i d"
| "dispatch env srv rq rl (ReissueAccessEP i) d = reissueAccessKey env rl i d"
| "dispatch env srv rq rl RebootEP d = serverReboot d"
| "dispatch env srv rq rl WipeEP d = serverWipe env rl d"

definition mux :: "api_env \<Rightarrow> Server \<Rightarrow> request \<Rightarrow> string \<Rightarrow> db \<Rightarrow> response \<times> db" where
  "mux env srv rq rl d =
     (case map_of (patterns (Path rq)) (Method rq) of
        Some ep \<Rightarrow> dispatch env srv rq rl ep d
      | None \<Rightarrow> ((if patterns (Path rq) = [] then 404 else 405, NoBody), d))"

definition serve :: "api_env \<Rightarrow> Server \<Rightarrow> request \<Rightarrow> db \<Rightarrow> response \<times> db" where
  "serve env srv rq d = authMiddleware env srv (XAPIKey rq) (mux env srv rq) d"

end
