(* ===== verification/Api_Correct.thy ===== *)
theory Api_Correct
  imports Api
begin

section \<open>Correctness of the REST API\<close>

text \<open>
  Every request acts on the store only through the operations of \<open>Store\<close>, so it keeps the
  store well formed; who may do what; what wiping and reissuing keys leave behind; and the
  path by which an admin obtains the rights of an owner.
\<close>

named_theorems api_simps \<open>the handlers\<close>

lemma scan_user_fields [simp]:
  "ID (scan_user r) = uid r" "Username (scan_user r) = username r" "AccessKey (scan_user r) = access_key r"
  "Role (scan_user r) = role r" "APIKey (scan_user r) = (case api_key r of None \<Rightarrow> [] | Some k \<Rightarrow> k)"
  by (simp_all add: scan_user_def)

lemmas handler_defs = createUser_def deleteUser_def reissueAPIKey_def reissueAccessKey_def
  serverReboot_def resetDevices_def listUsers_def

subsection \<open>Requests as operations of the store\<close>

lemma db_run_Nil [store_simps]: "db_run [] d = d"
  and db_run_Cons [store_simps]: "db_run (op # ops) d = db_run ops (db_step op d)"
  by (simp_all add: db_run_def)

text \<open>\<open>does_ops d d'\<close>: the store went from \<open>d\<close> to \<open>d'\<close> by operations of \<open>Store\<close>.\<close>

definition does_ops :: "db \<Rightarrow> db \<Rightarrow> bool" where
  "does_ops d d' \<longleftrightarrow> (\<exists>ops. d' = db_run ops d)"

lemma does_ops_refl [intro, simp]: "does_ops d d"
  unfolding does_ops_def by (metis db_run_Nil)

lemma does_ops_step: "does_ops d (db_step op d)"
  unfolding does_ops_def by (metis db_run_Nil db_run_Cons)

lemma does_ops_trans: "does_ops d d' \<Longrightarrow> does_ops d' d'' \<Longrightarrow> does_ops d d''"
proof -
  assume "does_ops d d'" and "does_ops d' d''"
  then obtain xs ys where "d' = db_run xs d" and "d'' = db_run ys d'" by (auto simp: does_ops_def)
  then have "d'' = db_run (xs @ ys) d" by (simp add: db_run_def)
  then show ?thesis unfolding does_ops_def by blast
qed

lemma does_ops_methods [simp]:
  "does_ops d (snd (CreateUser f now n k a r dl rl d))"
  "does_ops d (snd (UpdateUserAPIKey f i k d))"
  "does_ops d (snd (UpdateUserAccessKey f i k d))"
  "does_ops d (snd (DeleteUser f fk i d))"
  "does_ops d (snd (ResetUserDevices f i d))"
  using does_ops_step [of d "OpCreateUser f now n k a r dl rl"] does_ops_step [of d "OpUpdateAPIKey f i k"]
    does_ops_step [of d "OpUpdateAccessKey f i k"] does_ops_step [of d "OpDeleteUser f fk i"]
    does_ops_step [of d "OpResetDevices f i"]
  by simp_all

lemma snd_case_result [api_simps]:
  "snd (case p of (Inl e, d') \<Rightarrow> (f e, d') | (Inr u, d') \<Rightarrow> (g u, d')) = snd p"
  "snd (case q of (Some e, d') \<Rightarrow> (f' e, d') | (None, d') \<Rightarrow> (g', d')) = snd q"
  by (simp_all split: prod.split sum.split option.split)

lemma wipe_users_ops: "does_ops d (wipe_users env k us d)"
proof (induction env k us d rule: wipe_users.induct)
  case (2 env k u us d)
  show ?case
    unfolding wipe_users.simps by (rule does_ops_trans [OF _ 2]) simp
qed simp

lemma dispatch_ops: "does_ops d (snd (dispatch env srv rq rl ep d))"
  by (cases ep)
     (simp_all add: handler_defs serverWipe_def Let_def api_simps wipe_users_ops split: option.split sum.split)

lemma mux_ops: "does_ops d (snd (mux env srv rq rl d))"
  by (simp add: mux_def dispatch_ops split: option.split)

lemma serve_ops: "does_ops d (snd (serve env srv rq d))"
  by (simp add: serve_def authMiddleware_def mux_ops split: sum.split option.split)

lemma serve_ok: "store_ok d \<Longrightarrow> store_ok (snd (serve env srv rq d))"
  using serve_ops [of d env srv rq] store_ok_run [of d] by (auto simp: does_ops_def)

subsection \<open>Who may do what\<close>

text \<open>
  C26: A request without a token, or with one that is neither the configured key nor the API
  key of an owner or admin account, is answered with 401 or 403 and changes nothing, whatever
  its path, body and engine failures.
\<close>

theorem unauthorized_no_effect:
  assumes "XAPIKey rq = [] \<or> (XAPIKey rq \<noteq> apiKey srv
     \<and> (\<forall>r \<in> set (users d). api_key r = Some (XAPIKey rq) \<longrightarrow> role r \<noteq> ''owner'' \<and> role r \<noteq> ''admin''))"
  shows "snd (serve env srv rq d) = d \<and> fst (fst (serve env srv rq d)) \<in> {401, 403}"
proof (cases "XAPIKey rq = []")
  case True
  then show ?thesis by (simp add: serve_def authMiddleware_def)
next
  case False
  with assms have k: "XAPIKey rq \<noteq> apiKey srv"
    and u: "\<And>r. r \<in> set (users d) \<Longrightarrow> api_key r = Some (XAPIKey rq) \<Longrightarrow> role r \<noteq> ''owner'' \<and> role r \<noteq> ''admin''"
    by auto
  show ?thesis
  proof (cases "GetUserByAPIKey (faults env 0) (XAPIKey rq) d")
    case (Inl e)
    then show ?thesis using False k by (simp add: serve_def authMiddleware_def)
  next
    case (Inr x)
    show ?thesis
    proof (cases x)
      case None
      then show ?thesis using Inr False k by (simp add: serve_def authMiddleware_def)
    next
      case (Some v)
      with Inr obtain r where r: "find (\<lambda>r. api_key r = Some (XAPIKey rq)) (users d) = Some r"
        and v: "v = scan_user r"
        by (auto simp: GetUserByAPIKey_def stmt_Inr)
      then have "role r \<noteq> ''owner'' \<and> role r \<noteq> ''admin''"
        using u [of r] by (auto simp: find_Some_iff)
      then show ?thesis using Inr Some v False k
        by (simp add: serve_def authMiddleware_def)
    qed
  qed
qed

definition sample_srv :: Server where
  "sample_srv = \<lparr>apiKey = ''sys''\<rparr>"

definition sample_env :: api_env where
  "sample_env = \<lparr>faults = (\<lambda>_. None), rows_end = AllRows, fk_on = (\<lambda>_. True),
     access_draw = replicate 16 7, api_draw = replicate 16 9, clock = 50\<rparr>"

definition staff_db :: db where
  "staff_db = db_run
     [OpCreateUser None 1 ''default_owner'' ''k1'' ''sys'' ''owner'' 5 0,
      OpCreateUser None 2 ''boss'' ''k2'' ''a2'' ''owner'' 2 0,
      OpCreateUser None 3 ''adm'' ''k3'' ''a3'' ''admin'' 1 0,
      OpCreateUser None 4 ''joe'' ''k4'' ''a4'' ''user'' 1 0,
      OpRegisterDevice (\<lambda>_. None) 5 2 ''h1''] empty_db"

definition sample_rq :: "string \<Rightarrow> string list \<Rightarrow> string \<Rightarrow> request" where
  "sample_rq meth pth tok = \<lparr>Method = meth, Path = pth, XAPIKey = tok, Body = None\<rparr>"

lemma staff_ok: "store_ok staff_db"
  unfolding staff_db_def by (rule store_ok_run [OF store_ok_empty])

theorem unauthorized_no_effect_witness:
  "snd (serve sample_env sample_srv (sample_rq ''POST'' [''api'', ''server'', ''wipe''] ''a4'') staff_db)
     = staff_db
   \<and> fst (fst (serve sample_env sample_srv (sample_rq ''POST'' [''api'', ''server'', ''wipe''] ''a4'') staff_db))
     \<in> {401, 403}"
proof -
  have "list_all (\<lambda>r. api_key r = Some ''a4'' \<longrightarrow> role r \<noteq> ''owner'' \<and> role r \<noteq> ''admin'') (users staff_db)"
    by code_simp
  then show ?thesis
    by (intro unauthorized_no_effect) (auto simp: sample_rq_def sample_srv_def list_all_iff)
qed

subsection \<open>Admins and owner accounts\<close>

definition owner_rows :: "db \<Rightarrow> user_row list" where
  "owner_rows d = filter (\<lambda>r. role r = ''owner'') (users d)"

lemma filter_map_outside:
  "(\<And>r. r \<in> set xs \<Longrightarrow> P (g r) = P r \<and> (P r \<longrightarrow> g r = r)) \<Longrightarrow> filter P (map g xs) = filter P xs"
  by (induction xs) auto

lemma filter_filter_outside:
  "(\<And>r. r \<in> set xs \<Longrightarrow> P r \<Longrightarrow> Q r) \<Longrightarrow> filter P (filter Q xs) = filter P xs"
  by (induction xs) auto

text \<open>An account found by its id decides the role of every row with that id.\<close>

lemma GetUserByID_row:
  assumes "store_ok d" and "GetUserByID f i d = Inr (Some u)"
  shows "\<forall>r \<in> set (users d). uid r = i \<longrightarrow> scan_user r = u"
proof -
  obtain v where v: "find (\<lambda>r. uid r = i) (users d) = Some v" and u: "u = scan_user v"
    using assms(2) by (auto simp: GetUserByID_def stmt_Inr)
  then have "v \<in> set (users d)" "uid v = i" by (auto simp: find_Some_iff)
  then show ?thesis
    using assms(1) u by (auto simp: store_ok_def users_ok_def distinct_map inj_on_def)
qed

lemma owner_rows_DeleteUser:
  "\<forall>r \<in> set (users d). uid r = i \<longrightarrow> role r \<noteq> ''owner'' \<Longrightarrow> owner_rows (snd (DeleteUser f fk i d)) = owner_rows d"
  by (cases f) (auto simp: DeleteUser_def owner_rows_def simp del: filter_filter intro!: filter_filter_outside)

lemma owner_rows_map:
  assumes "\<forall>r \<in> set (users d). uid r = i \<longrightarrow> role r \<noteq> ''owner''" and "\<And>r. role (g r) = role r"
  shows "owner_rows (d\<lparr>users := map (\<lambda>r. if uid r = i then g r else r) (users d)\<rparr>) = owner_rows d"
proof -
  have "filter (\<lambda>r. role r = ''owner'') (map (\<lambda>r. if uid r = i then g r else r) (users d))
      = filter (\<lambda>r. role r = ''owner'') (users d)"
    by (rule filter_map_outside) (use assms in auto)
  then show ?thesis by (simp add: owner_rows_def)
qed

lemma owner_rows_update:
  assumes "\<forall>r \<in> set (users d). uid r = i \<longrightarrow> role r \<noteq> ''owner''"
  shows "owner_rows (snd (UpdateUserAPIKey f i k d)) = owner_rows d"
    and "owner_rows (snd (UpdateUserAccessKey f i k d)) = owner_rows d"
  using owner_rows_map [OF assms, of "\<lambda>r. r\<lparr>api_key := Some k\<rparr>"]
    owner_rows_map [OF assms, of "\<lambda>r. r\<lparr>access_key := k\<rparr>"]
  by (simp_all add: UpdateUserAPIKey_def UpdateUserAccessKey_def split: option.split)

lemma owner_rows_CreateUser:
  "rl \<noteq> ''owner'' \<Longrightarrow> owner_rows (snd (CreateUser f now n k a rl dl rt d)) = owner_rows d"
  by (simp add: CreateUser_def owner_rows_def Let_def split: option.split)

lemma owner_rows_Reset: "owner_rows (snd (ResetUserDevices f i d)) = owner_rows d"
  by (simp add: ResetUserDevices_def owner_rows_def split: option.split)

lemma owner_rows_dispatch:
  assumes ok: "store_ok d" and rl: "rl \<noteq> ''owner''" and tok: "XAPIKey rq \<noteq> apiKey srv"
    and no: "\<forall>r \<in> set (users d). api_key r = Some (XAPIKey rq) \<longrightarrow> role r \<noteq> ''owner''"
  shows "owner_rows (snd (dispatch env srv rq rl ep d)) = owner_rows d"
proof -
  have role: "\<forall>r \<in> set (users d). uid r = i \<longrightarrow> role r \<noteq> ''owner''"
    if "GetUserByID f i d = Inr (Some u)" and "Role u \<noteq> ''owner''" for f i u
    using GetUserByID_row [OF ok that(1)] that(2) by auto
  have "Role u \<noteq> ''owner''" if "GetUserByAPIKey f (XAPIKey rq) d = Inr (Some u)" for f u
    using that no by (auto simp: GetUserByAPIKey_def stmt_Inr find_Some_iff)
  then show ?thesis
    using rl tok role
    by (cases ep)
       (auto simp: handler_defs serverWipe_def Let_def api_simps owner_rows_Reset owner_rows_CreateUser
          owner_rows_DeleteUser owner_rows_update split: option.split sum.split)
qed

text \<open>
  C27: A token that is not the configured key and belongs to no owner account cannot create,
  change or delete an owner account: after any request with it the owner accounts are the
  same rows in the same order.
\<close>

theorem non_owner_cannot_touch_owners:
  assumes ok: "store_ok d" and tok: "XAPIKey rq \<noteq> apiKey srv"
    and no: "\<forall>r \<in> set (users d). api_key r = Some (XAPIKey rq) \<longrightarrow> role r \<noteq> ''owner''"
  shows "owner_rows (snd (serve env srv rq d)) = owner_rows d"
proof -
  have "owner_rows (snd (mux env srv rq rl d)) = owner_rows d" if "rl \<noteq> ''owner''" for rl
    using owner_rows_dispatch [OF ok that tok no] by (simp add: mux_def split: option.split)
  moreover have "Role u \<noteq> ''owner''" if "GetUserByAPIKey f (XAPIKey rq) d = Inr (Some u)" for f u
    using that no by (auto simp: GetUserByAPIKey_def stmt_Inr find_Some_iff)
  ultimately show ?thesis
    using tok by (auto simp: serve_def authMiddleware_def split: sum.split option.split)
qed

theorem non_owner_cannot_touch_owners_witness:
  "owner_rows (snd (serve sample_env sample_srv (sample_rq ''DELETE'' [''api'', ''users'', ''2''] ''a3'') staff_db))
     = owner_rows staff_db
   \<and> length (owner_rows staff_db) = 2
   \<and> fst (fst (serve sample_env sample_srv (sample_rq ''DELETE'' [''api'', ''users'', ''2''] ''a3'') staff_db)) = 403
   \<and> fst (fst (serve sample_env sample_srv (sample_rq ''DELETE'' [''api'', ''users'', ''4''] ''a3'') staff_db)) = 200"
proof -
  have "list_all (\<lambda>r. api_key r = Some ''a3'' \<longrightarrow> role r \<noteq> ''owner'') (users staff_db)"
    by code_simp
  then have "owner_rows (snd (serve sample_env sample_srv
      (sample_rq ''DELETE'' [''api'', ''users'', ''2''] ''a3'') staff_db)) = owner_rows staff_db"
    by (intro non_owner_cannot_touch_owners [OF staff_ok]) (auto simp: sample_rq_def sample_srv_def list_all_iff)
  moreover have "length (owner_rows staff_db) = 2" by code_simp
  moreover have "fst (fst (serve sample_env sample_srv
      (sample_rq ''DELETE'' [''api'', ''users'', ''2''] ''a3'') staff_db)) = 403" by code_simp
  moreover have "fst (fst (serve sample_env sample_srv
      (sample_rq ''DELETE'' [''api'', ''users'', ''4''] ''a3'') staff_db)) = 200" by code_simp
  ultimately show ?thesis by blast
qed

subsection \<open>Wiping the server\<close>

lemma wipe_users_effect:
  assumes "\<And>k. faults env k = None" and "\<And>k. fk_on env k"
  shows "users (wipe_users env k us d) =
      filter (\<lambda>r. \<not> (\<exists>u \<in> set us. ID u = uid r \<and> Username u \<noteq> ''default_owner'')) (users d)
    \<and> devices (wipe_users env k us d) = filter (\<lambda>v. user_id v \<notin> ID ` set us) (devices d)"
proof (induction us arbitrary: k d)
  case Nil
  then show ?case by simp
next
  case (Cons u us)
  show ?case
    by (simp add: Cons.IH DeleteUser_def ResetUserDevices_def assms) (auto intro!: filter_cong)
qed

text \<open>
  An owner's wipe deletes every account but those named default_owner and every device of
  the accounts, when no store call fails. When the listing fails it deletes nothing and gives
  the same answer, status 200 with "wiped".
\<close>

theorem serverWipe_effect:
  assumes ok: "store_ok d" and f: "\<And>k. faults env k = None" "\<And>k. fk_on env k" "rows_end env = AllRows"
  shows "fst (serverWipe env ''owner'' d) = (200, StatusBody ''wiped'')
     \<and> users (snd (serverWipe env ''owner'' d)) = filter (\<lambda>r. username r = ''default_owner'') (users d)
     \<and> (\<forall>r \<in> set (users d). hwids (snd (serverWipe env ''owner'' d)) (uid r) = {})
     \<and> serverWipe (env\<lparr>faults := (\<lambda>k. if k = 1 then Some e else None)\<rparr>) ''owner'' d
         = ((200, StatusBody ''wiped''), d)"
proof -
  have d: "serverWipe env ''owner'' d
      = ((200, StatusBody ''wiped''), wipe_users env 2 (map scan_user (users d)) d)"
    by (simp add: serverWipe_def ListUsers_def store_simps f)
  have inj: "v = r" if "v \<in> set (users d)" "r \<in> set (users d)" "uid v = uid r" for v r
    using ok that by (auto simp: store_ok_def users_ok_def distinct_map inj_on_def)
  have "(\<not> (\<exists>u \<in> set (map scan_user (users d)). ID u = uid r \<and> Username u \<noteq> ''default_owner''))
      = (username r = ''default_owner'')" if "r \<in> set (users d)" for r
    using inj that by auto
  then have "users (wipe_users env 2 (map scan_user (users d)) d)
      = filter (\<lambda>r. username r = ''default_owner'') (users d)"
    using wipe_users_effect [OF f(1,2)] by (auto intro!: filter_cong)
  moreover have "hwids (wipe_users env 2 (map scan_user (users d)) d) (uid r) = {}"
    if "r \<in> set (users d)" for r
    using that wipe_users_effect [OF f(1,2), of 2 "map scan_user (users d)" d]
    by (auto simp: hwids_def image_image)
  moreover have "serverWipe (env\<lparr>faults := (\<lambda>k. if k = 1 then Some e else None)\<rparr>) ''owner'' d
      = ((200, StatusBody ''wiped''), d)"
    by (simp add: serverWipe_def ListUsers_def store_simps)
  ultimately show ?thesis by (simp add: d)
qed

theorem serverWipe_effect_witness:
  "map username (users (snd (serverWipe sample_env ''owner'' staff_db))) = [''default_owner'']
   \<and> hwids (snd (serverWipe sample_env ''owner'' staff_db)) 2 = {}"
proof -
  have u: "map username (filter (\<lambda>r. username r = ''default_owner'') (users staff_db)) = [''default_owner'']"
    and m: "list_ex (\<lambda>r. uid r = 2) (users staff_db)" by code_simp+
  from m obtain r where r: "r \<in> set (users staff_db)" "uid r = 2" by (auto simp: list_ex_iff)
  have e: "\<And>k. faults sample_env k = None" "\<And>k. fk_on sample_env k" "rows_end sample_env = AllRows"
    by (simp_all add: sample_env_def)
  note w = serverWipe_effect [OF staff_ok e, of "Driver []"]
  from w have "users (snd (serverWipe sample_env ''owner'' staff_db))
      = filter (\<lambda>r. username r = ''default_owner'') (users staff_db)" by blast
  moreover from w r have "hwids (snd (serverWipe sample_env ''owner'' staff_db)) (uid r) = {}" by blast
  ultimately show ?thesis using u r(2) by simp
qed

subsection \<open>From admin to owner\<close>

definition get_users_rq :: "string \<Rightarrow> request" where
  "get_users_rq tok = \<lparr>Method = ''GET'', Path = [''api'', ''users''], XAPIKey = tok, Body = None\<rparr>"

definition wipe_rq :: "string \<Rightarrow> request" where
  "wipe_rq tok = \<lparr>Method = ''POST'', Path = [''api'', ''server'', ''wipe''], XAPIKey = tok, Body = None\<rparr>"

lemma granted:
  assumes "faults env 0 = None" and "XAPIKey rq \<noteq> []"
    and "find (\<lambda>r. api_key r = Some (XAPIKey rq)) (users d) = Some r" and "role r = ''owner'' \<or> role r = ''admin''"
    and "XAPIKey rq \<noteq> apiKey srv"
  shows "serve env srv rq d = mux env srv rq (role r) d"
  using assms by (auto simp: serve_def authMiddleware_def GetUserByAPIKey_def store_simps)

text \<open>
  C31: The user listing hands an admin the API keys of the owners. An admin may not wipe the
  server; but its listing contains each owner with its key, and the same request with that
  key deletes every account not named default_owner.
\<close>

theorem admin_can_become_owner:
  assumes ok: "store_ok d" and f: "\<And>k. faults env k = None" "\<And>k. fk_on env k" "rows_end env = AllRows"
    and adm: "find (\<lambda>r. api_key r = Some tok) (users d) = Some adm" "role adm = ''admin''"
      "tok \<noteq> []" "tok \<noteq> apiKey srv"
    and own: "find (\<lambda>r. api_key r = Some k) (users d) = Some own" "role own = ''owner''" "k \<noteq> []"
  shows "serve env srv (wipe_rq tok) d = ((403, ErrorBody ''Only owners can wipe the server''), d)
    \<and> (\<exists>us. fst (serve env srv (get_users_rq tok) d) = (200, UsersBody us)
         \<and> (\<exists>u \<in> set us. Role u = ''owner'' \<and> APIKey u = k))
    \<and> users (snd (serve env srv (wipe_rq k) d)) = filter (\<lambda>r. username r = ''default_owner'') (users d)"
proof (intro conjI)
  have m: "serve env srv (wipe_rq tok) d = mux env srv (wipe_rq tok) ''admin'' d"
    "serve env srv (get_users_rq tok) d = mux env srv (get_users_rq tok) ''admin'' d"
    using granted [of env "wipe_rq tok" d adm srv] granted [of env "get_users_rq tok" d adm srv] f(1) adm
    by (simp_all add: wipe_rq_def get_users_rq_def)
  show "serve env srv (wipe_rq tok) d = ((403, ErrorBody ''Only owners can wipe the server''), d)"
    unfolding m by (simp add: mux_def wipe_rq_def patterns_def serverWipe_def)
  have "own \<in> set (users d)" "api_key own = Some k" using own(1) by (auto simp: find_Some_iff)
  then have "scan_user own \<in> set (map scan_user (users d)) \<and> Role (scan_user own) = ''owner''
      \<and> APIKey (scan_user own) = k"
    using own(2) by simp
  moreover have "fst (serve env srv (get_users_rq tok) d) = (200, UsersBody (map scan_user (users d)))"
    unfolding m by (simp add: mux_def get_users_rq_def patterns_def listUsers_def ListUsers_def store_simps f)
  ultimately show "\<exists>us. fst (serve env srv (get_users_rq tok) d) = (200, UsersBody us)
         \<and> (\<exists>u \<in> set us. Role u = ''owner'' \<and> APIKey u = k)"
    by blast
  have "serve env srv (wipe_rq k) d = mux env srv (wipe_rq k) ''owner'' d"
  proof (cases "k = apiKey srv")
    case True
    then show ?thesis using own(3) by (simp add: serve_def authMiddleware_def wipe_rq_def)
  next
    case False
    then show ?thesis using granted [of env "wipe_rq k" d own srv] f(1) own by (simp add: wipe_rq_def)
  qed
  then have w: "serve env srv (wipe_rq k) d = serverWipe env ''owner'' d"
    by (simp add: mux_def wipe_rq_def patterns_def)
  have inj: "v = r" if "v \<in> set (users d)" "r \<in> set (users d)" "uid v = uid r" for v r
    using ok that by (auto simp: store_ok_def users_ok_def distinct_map inj_on_def)
  then show "users (snd (serve env srv (wipe_rq k) d)) = filter (\<lambda>r. username r = ''default_owner'') (users d)"
    unfolding w
    by (auto simp: serverWipe_def ListUsers_def store_simps f wipe_users_effect [OF f(1,2)]
        intro!: filter_cong)
qed

theorem admin_can_become_owner_witness:
  "fst (fst (serve sample_env sample_srv (wipe_rq ''a3'') staff_db)) = 403
   \<and> map username (users (snd (serve sample_env sample_srv (wipe_rq ''a2'') staff_db))) = [''default_owner'']"
proof -
  have u: "map username (filter (\<lambda>r. username r = ''default_owner'') (users staff_db)) = [''default_owner'']"
    and a: "map_option role (find (\<lambda>r. api_key r = Some ''a3'') (users staff_db)) = Some ''admin''"
    and o': "map_option role (find (\<lambda>r. api_key r = Some ''a2'') (users staff_db)) = Some ''owner''"
    by code_simp+
  obtain ra ro where "find (\<lambda>r. api_key r = Some ''a3'') (users staff_db) = Some ra" "role ra = ''admin''"
    "find (\<lambda>r. api_key r = Some ''a2'') (users staff_db) = Some ro" "role ro = ''owner''"
    using a o' by auto
  from admin_can_become_owner [OF staff_ok _ _ _ this(1,2) _ _ this(3,4), of sample_env sample_srv] u
  show ?thesis by (simp add: sample_env_def sample_srv_def)
qed

subsection \<open>Reissuing an API key\<close>

text \<open>
  Reissuing an account's API key answers with the new key and stores it; a request with
  the old key is then refused, whatever it asks, unless the old key is the configured key of
  the server: that one keeps its owner rights although the account it was given to has another
  key.
\<close>

theorem reissueAPIKey_revokes:
  assumes ok: "store_ok d" and f: "\<And>k. faults env k = None"
    and u: "u \<in> set (users d)" "role u = ''owner'' \<or> role u = ''admin''" "uid u < 2 ^ 63"
    and old: "old \<noteq> []" "old \<noteq> generateAPIKey (api_draw env)" "XAPIKey rq = old"
      "\<forall>r \<in> set (users d). api_key r = Some old \<longrightarrow> r = u"
  shows "\<exists>d'. reissueAPIKey env ''owner'' (format_int (uid u)) d
        = ((200, APIKeyBody (generateAPIKey (api_draw env))), d')
     \<and> (\<exists>r \<in> set (users d'). uid r = uid u \<and> api_key r = Some (generateAPIKey (api_draw env)))
     \<and> serve env' srv rq d' = (if old = apiKey srv then mux env' srv rq ''owner'' d'
          else ((401, ErrorBody ''Unauthorized''), d'))"
proof -
  let ?new = "generateAPIKey (api_draw env)"
  let ?d = "d\<lparr>users := map (\<lambda>r. if uid r = uid u then r\<lparr>api_key := Some ?new\<rparr> else r) (users d)\<rparr>"
  have inj: "v = u" if "v \<in> set (users d)" "uid v = uid u" for v
    using ok that u(1) by (auto simp: store_ok_def users_ok_def distinct_map inj_on_def)
  have parse: "ParseInt64 (format_int (uid u)) = Some (uid u)"
    using ok u(1,3) by (intro ParseInt64_format) (auto simp: store_ok_def users_ok_def)
  obtain v where v: "find (\<lambda>r. uid r = uid u) (users d) = Some v"
    using u(1) by (metis (mono_tags, lifting) find_None_iff option.exhaust)
  then have "v = u" using inj by (auto simp: find_Some_iff)
  with v have "reissueAPIKey env ''owner'' (format_int (uid u)) d = ((200, APIKeyBody ?new), ?d)"
    using u(2) by (auto simp: reissueAPIKey_def parse GetUserByID_def store_simps f UpdateUserAPIKey_def Let_def)
  moreover have "\<exists>r \<in> set (users ?d). uid r = uid u \<and> api_key r = Some ?new"
    using u(1) by (auto intro!: bexI [of _ "u\<lparr>api_key := Some ?new\<rparr>"] image_eqI [of _ _ u])
  moreover have "find (\<lambda>r. api_key r = Some old) (users ?d) = None"
    using old by (auto simp: find_None_iff)
  then have "GetUserByAPIKey (faults env' 0) old ?d \<in> {Inr None} \<union> range Inl"
    by (cases "faults env' 0") (auto simp: GetUserByAPIKey_def store_simps)
  then have "serve env' srv rq ?d = (if old = apiKey srv then mux env' srv rq ''owner'' ?d
          else ((401, ErrorBody ''Unauthorized''), ?d))"
    using old(1,3) by (auto simp: serve_def authMiddleware_def)
  ultimately show ?thesis by blast
qed

theorem reissueAPIKey_revokes_witness:
  "\<exists>d'. reissueAPIKey sample_env ''owner'' (format_int 1) staff_db
        = ((200, APIKeyBody (generateAPIKey (replicate 16 9))), d')
     \<and> serve sample_env sample_srv (wipe_rq ''sys'') d' = mux sample_env sample_srv (wipe_rq ''sys'') ''owner'' d'"
proof -
  let ?u = "\<lparr>uid = 1, username = ''default_owner'', access_key = ''k1'', api_key = Some ''sys'',
    role = ''owner'', device_limit = 5, rate_limit = 0, created_at = 1\<rparr>"
  have "list_ex (\<lambda>r. r = ?u) (users staff_db)"
    and only: "list_all (\<lambda>r. api_key r = Some ''sys'' \<longrightarrow> r = ?u) (users staff_db)" by code_simp+
  then have u: "?u \<in> set (users staff_db)" by (auto simp: list_ex_iff)
  have new: "''sys'' \<noteq> generateAPIKey (api_draw sample_env)"
    by (simp add: generateAPIKey_def)
  have f: "\<And>k. faults sample_env k = None" by (simp add: sample_env_def)
  from reissueAPIKey_revokes [OF staff_ok f u _ _ _ new, of "wipe_rq ''sys''" sample_env sample_srv] only
  show ?thesis
    by (simp add: wipe_rq_def sample_srv_def list_all_iff)
       (auto simp: sample_env_def)
qed

end
