(* ===== verification/Api_Types.thy ===== *)
theory Api_Types
  imports Api_Correct
begin

section \<open>The answers of the REST API\<close>

text \<open>
  Which status goes with which body, what an account in an answer looks like, and that an
  answer that reports an error has changed nothing.
\<close>

definition account_typed :: "User \<Rightarrow> bool" where
  "account_typed u \<longleftrightarrow> 1 \<le> ID u \<and> valid_role (Role u) \<and> 1 \<le> DeviceLimit u \<and> DeviceLimit u \<le> 5"

fun answer_typed :: "nat \<Rightarrow> body \<Rightarrow> bool" where
  "answer_typed st (UsersBody us) \<longleftrightarrow> st = 200 \<and> list_all account_typed us"
| "answer_typed st (UserBody u) \<longleftrightarrow> st = 201 \<and> account_typed u"
| "answer_typed st (StatusBody t) \<longleftrightarrow> st = 200"
| "answer_typed st (APIKeyBody k) \<longleftrightarrow> st = 200"
| "answer_typed st (AccessKeyBody k) \<longleftrightarrow> st = 200"
| "answer_typed st (ErrorBody e) \<longleftrightarrow> st \<in> {400, 401, 403}"
| "answer_typed st (StoreError e) \<longleftrightarrow> st = 500"
| "answer_typed st NoBody \<longleftrightarrow> st \<in> {400, 404, 405, 500}"

definition answer_ok :: "db \<Rightarrow> response \<times> db \<Rightarrow> bool" where
  "answer_ok d r \<longleftrightarrow> answer_typed (fst (fst r)) (snd (fst r)) \<and> (400 \<le> fst (fst r) \<longrightarrow> snd r = d)"

lemma account_typed_row: "store_ok d \<Longrightarrow> r \<in> set (users d) \<Longrightarrow> account_typed (scan_user r)"
  by (auto simp: store_ok_def users_ok_def account_typed_def scan_user_def)

lemma read_rows_subset: "read_rows re xs = Inr ys \<Longrightarrow> set ys \<subseteq> set xs"
  by (cases re) (auto split: if_splits dest: in_set_takeD)

lemma ListUsers_typed: "store_ok d \<Longrightarrow> ListUsers f re d = Inr us \<Longrightarrow> list_all account_typed us"
  using read_rows_subset [of re "map scan_user (users d)" us] account_typed_row
  by (auto simp: ListUsers_def stmt_Inr list_all_iff)

lemma CreateUser_typed:
  assumes "store_ok d"
  shows "CreateUser f now n k a r dl rl d = (Inr u, d') \<Longrightarrow> account_typed u"
    and "CreateUser f now n k a r dl rl d = (Inl e, d') \<Longrightarrow> d' = d"
  using assms
  by (auto simp: CreateUser_def account_typed_def store_ok_def users_ok_def Let_def split: option.splits if_splits)

lemma failed_store_keeps:
  "UpdateUserAPIKey f i k d = (Some e, d') \<Longrightarrow> d' = d" "UpdateUserAccessKey f i k d = (Some e, d') \<Longrightarrow> d' = d"
  "DeleteUser f fk i d = (Some e, d') \<Longrightarrow> d' = d" "ResetUserDevices f i d = (Some e, d') \<Longrightarrow> d' = d"
  by (auto simp: UpdateUserAPIKey_def UpdateUserAccessKey_def DeleteUser_def ResetUserDevices_def
      split: option.splits if_splits)

lemma dispatch_answer_ok: "store_ok d \<Longrightarrow> answer_ok d (dispatch env srv rq rl ep d)"
  by (cases ep)
    (auto simp: answer_ok_def handler_defs serverWipe_def Let_def
      split: option.splits sum.splits prod.splits if_splits
      dest: ListUsers_typed CreateUser_typed failed_store_keeps)

lemma mux_answer_ok: "store_ok d \<Longrightarrow> answer_ok d (mux env srv rq rl d)"
  using dispatch_answer_ok by (auto simp: mux_def answer_ok_def split: option.split)

text \<open>
  C28: The answers of the API are well-typed: over a consistent store every request gets a status
  with the body that belongs to it, accounts are shown only with 200 and 201 and have an id,
  one of the three roles and a device limit from 1 to 5, a status of 400 or more means that
  the request has changed nothing, and the store is consistent again.
\<close>

theorem api_answers_typed:
  assumes "store_ok d" and "serve env srv rq d = ((st, b), d')"
  shows "answer_typed st b \<and> (400 \<le> st \<longrightarrow> d' = d) \<and> store_ok d'"
proof -
  have "answer_ok d (serve env srv rq d)"
    using mux_answer_ok [OF assms(1)]
    by (auto simp: serve_def authMiddleware_def answer_ok_def split: sum.split option.split)
  then show ?thesis using assms(2) serve_ok [OF assms(1), of env srv rq] by (simp add: answer_ok_def)
qed

theorem api_answers_typed_witness:
  "\<exists>st us d'. serve sample_env sample_srv (sample_rq ''GET'' [''api'', ''users''] ''a2'') staff_db = ((st, UsersBody us), d')
     \<and> answer_typed st (UsersBody us) \<and> length us = 4"
proof -
  obtain st b d' where r: "serve sample_env sample_srv (sample_rq ''GET'' [''api'', ''users''] ''a2'') staff_db = ((st, b), d')"
    by (metis surj_pair)
  have "(case snd (fst (serve sample_env sample_srv (sample_rq ''GET'' [''api'', ''users''] ''a2'') staff_db)) of
      UsersBody us \<Rightarrow> length us = 4 | _ \<Rightarrow> False)" by code_simp
  then obtain us where "b = UsersBody us" "length us = 4" using r by (auto split: body.splits)
  with api_answers_typed [OF staff_ok r] r show ?thesis by blast
qed

end
