(* ===== verification/Nat_Rules.thy ===== *)
theory Nat_Rules
  imports Go_Strings "HOL-Library.Multiset"
begin

section \<open>Packet-filter rules of the server (server/daemon/daemon.go)\<close>

text \<open>
  \<open>setupNAT\<close> and \<open>cleanupNAT\<close> run commands; what they do to the machine is not in the
  repository. A command is its argument list, and \<open>exec_cmd\<close>, an argument of the model, tells
  for a command and a state of the machine whether it succeeds and the state afterwards. What is
  used of \<open>iptables\<close> is stated in \<open>iptables_ok\<close>, over a function giving the rules in force.
\<close>

type_synonym command = "string list"
type_synonym 'w exec = "command \<Rightarrow> 'w \<Rightarrow> bool \<times> 'w"

datatype nat_err = NoRoute | NoDefaultDev string | CmdFailed command

definition setup_cmds :: "string \<Rightarrow> string \<Rightarrow> string \<Rightarrow> command list" where
  "setup_cmds subnet iface tunName =
     [[''sysctl'', ''-w'', ''net.ipv4.ip_forward=1''],
      [''iptables'', ''-t'', ''nat'', ''-A'', ''POSTROUTING'', ''-s'', subnet, ''-o'', iface, ''-j'', ''MASQUERADE''],
      [''iptables'', ''-A'', ''FORWARD'', ''-i'', tunName, ''-o'', iface, ''-j'', ''ACCEPT''],
      [''iptables'', ''-A'', ''FORWARD'', ''-i'', iface, ''-o'', tunName, ''-m'', ''state'', ''--state'',
       ''RELATED,ESTABLISHED'', ''-j'', ''ACCEPT'']]"

definition cleanup_cmds :: "string \<Rightarrow> string \<Rightarrow> string \<Rightarrow> command list" where
  "cleanup_cmds subnet iface tunName =
     [[''iptables'', ''-t'', ''nat'', ''-D'', ''POSTROUTING'', ''-s'', subnet, ''-o'', iface, ''-j'', ''MASQUERADE''],
      [''iptables'', ''-D'', ''FORWARD'', ''-i'', tunName, ''-o'', iface, ''-j'', ''ACCEPT''],
      [''iptables'', ''-D'', ''FORWARD'', ''-i'', iface, ''-o'', tunName, ''-m'', ''state'', ''--state'',
       ''RELATED,ESTABLISHED'', ''-j'', ''ACCEPT'']]"

text \<open>The loop of \<open>setupNAT\<close> stops at the first failure; that of \<open>cleanupNAT\<close> ignores them.\<close>

fun run_cmds :: "'w exec \<Rightarrow> command list \<Rightarrow> 'w \<Rightarrow> nat_err option \<times> 'w" where
  "run_cmds ex [] w = (None, w)"
| "run_cmds ex (c # cs) w =
     (case ex c w of (True, w') \<Rightarrow> run_cmds ex cs w' | (False, w') \<Rightarrow> (Some (CmdFailed c), w'))"

fun run_ignoring :: "'w exec \<Rightarrow> command list \<Rightarrow> 'w \<Rightarrow> 'w" where
  "run_ignoring ex [] w = w"
| "run_ignoring ex (c # cs) w = run_ignoring ex cs (snd (ex c w))"

text \<open>\<open>out\<close> is the output of \<open>ip route show default\<close>, \<open>None\<close> when the command fails.\<close>

fun after_dev :: "string list \<Rightarrow> string option" where
  "after_dev (f # g # fs) = (if f = ''dev'' then Some g else after_dev (g # fs))"
| "after_dev _ = None"

definition detectOutboundInterface :: "string option \<Rightarrow> nat_err + string" where
  "detectOutboundInterface out =
     (case out of
        None \<Rightarrow> Inl NoRoute
      | Some txt \<Rightarrow> (case after_dev (Fields txt) of None \<Rightarrow> Inl (NoDefaultDev txt) | Some i \<Rightarrow> Inr i))"

text \<open>The result, the interface the server remembers, and the machine.\<close>

definition setupNAT ::
  "'w exec \<Rightarrow> string option \<Rightarrow> string \<Rightarrow> string \<Rightarrow> string \<Rightarrow> 'w \<Rightarrow> nat_err option \<times> string \<times> 'w" where
  "setupNAT ex route natIface subnet tunName w =
     (case (if natIface = [] then detectOutboundInterface route else Inr natIface) of
        Inl e \<Rightarrow> (Some e, natIface, w)
      | Inr iface \<Rightarrow>
          (let (e, w') = run_cmds ex (setup_cmds subnet iface tunName) w in (e, iface, w')))"

definition cleanupNAT :: "'w exec \<Rightarrow> string \<Rightarrow> string \<Rightarrow> string \<Rightarrow> 'w \<Rightarrow> 'w" where
  "cleanupNAT ex iface subnet tunName w = run_ignoring ex (cleanup_cmds subnet iface tunName) w"

subsection \<open>What is used of iptables\<close>

text \<open>
  The command that deletes the rule an appending command adds has \<open>-D\<close> for \<open>-A\<close>. A rule is
  named by the command that appends it; \<open>iptables -A\<close> adds one copy when it succeeds and
  nothing when it fails, \<open>-D\<close> removes one copy if there is one, \<open>sysctl\<close> leaves the rules.
\<close>

definition deletion :: "command \<Rightarrow> command" where
  "deletion c = map (\<lambda>a. if a = ''-A'' then ''-D'' else a) c"

definition iptables_ok :: "'w exec \<Rightarrow> ('w \<Rightarrow> command multiset) \<Rightarrow> command list \<Rightarrow> bool" where
  "iptables_ok ex rules adds \<longleftrightarrow>
     (\<forall>c \<in> set adds. \<forall>w. rules (snd (ex c w)) = (if fst (ex c w) then add_mset c (rules w) else rules w)
        \<and> rules (snd (ex (deletion c) w)) = rules w - {#c#})
     \<and> (\<forall>w. rules (snd (ex [''sysctl'', ''-w'', ''net.ipv4.ip_forward=1''] w)) = rules w)"

lemma cleanup_is_deletion:
  assumes "subnet \<noteq> ''-A''" and "iface \<noteq> ''-A''" and "tunName \<noteq> ''-A''"
  shows "cleanup_cmds subnet iface tunName = map deletion (tl (setup_cmds subnet iface tunName))"
  using assms by (simp add: cleanup_cmds_def setup_cmds_def deletion_def)

lemma run_cmds_rules:
  assumes "\<And>c w. c \<in> set cs \<Longrightarrow> rules (snd (ex c w)) = (if fst (ex c w) then add_mset c (rules w) else rules w)"
  shows "case run_cmds ex cs w of
      (None, w') \<Rightarrow> rules w' = rules w + mset cs
    | (Some e, w') \<Rightarrow> \<exists>k < length cs. e = CmdFailed (cs ! k) \<and> rules w' = rules w + mset (take k cs)"
  using assms
proof (induction cs arbitrary: w)
  case (Cons c cs)
  obtain b w1 where x: "ex c w = (b, w1)" by fastforce
  show ?case
  proof (cases b)
    case True
    have r1: "rules w1 = add_mset c (rules w)" using Cons.prems [of c w] x True by simp
    have ih: "case run_cmds ex cs w1 of
      (None, w') \<Rightarrow> rules w' = rules w1 + mset cs
    | (Some e, w') \<Rightarrow> \<exists>k < length cs. e = CmdFailed (cs ! k) \<and> rules w' = rules w1 + mset (take k cs)"
      using Cons.IH Cons.prems by simp
    obtain e w2 where run: "run_cmds ex cs w1 = (e, w2)" by fastforce
    show ?thesis
    proof (cases e)
      case None
      then show ?thesis using ih run x True r1 by simp
    next
      case (Some e')
      with ih run obtain k where "k < length cs" "e' = CmdFailed (cs ! k)" "rules w2 = rules w1 + mset (take k cs)"
        by auto
      then show ?thesis using Some run x True r1 by (auto intro!: exI [of _ "Suc k"])
    qed
  next
    case False
    then show ?thesis using Cons.prems [of c w] x by (auto intro!: exI [of _ 0])
  qed
qed simp

lemma run_ignoring_rules:
  assumes "\<And>c w. c \<in> set cs \<Longrightarrow> rules (snd (ex (deletion c) w)) = rules w - {#c#}"
  shows "rules (run_ignoring ex (map deletion cs) w) = rules w - mset cs"
  using assms by (induction cs arbitrary: w) (auto simp: diff_diff_add_mset)

lemma cleanup_removes:
  assumes names: "subnet \<noteq> ''-A''" "iface \<noteq> ''-A''" "tunName \<noteq> ''-A''"
    and ipt: "iptables_ok ex rules (tl (setup_cmds subnet iface tunName))"
  shows "rules (cleanupNAT ex iface subnet tunName w) = rules w - mset (tl (setup_cmds subnet iface tunName))"
  unfolding cleanupNAT_def cleanup_is_deletion [OF names]
  by (rule run_ignoring_rules) (use ipt in \<open>simp add: iptables_ok_def\<close>)

text \<open>The first command is not a rule, so \<open>k\<close> commands append \<open>k - 1\<close> rules.\<close>

lemma run_setup:
  assumes ipt: "iptables_ok ex rules (tl (setup_cmds subnet iface tunName))"
    and run: "run_cmds ex (setup_cmds subnet iface tunName) w = (e, w1)"
  shows "case e of
      None \<Rightarrow> rules w1 = rules w + mset (tl (setup_cmds subnet iface tunName))
    | Some e' \<Rightarrow> \<exists>k < 4. e' = CmdFailed (setup_cmds subnet iface tunName ! k)
          \<and> rules w1 = rules w + mset (drop 1 (take k (setup_cmds subnet iface tunName)))"
proof -
  let ?sys = "[''sysctl'', ''-w'', ''net.ipv4.ip_forward=1'']"
  define adds where "adds = tl (setup_cmds subnet iface tunName)"
  have cmds: "setup_cmds subnet iface tunName = ?sys # adds" by (simp add: setup_cmds_def adds_def)
  have n: "length adds = 3" by (simp add: setup_cmds_def adds_def)
  have add: "rules (snd (ex c v)) = (if fst (ex c v) then add_mset c (rules v) else rules v)" if "c \<in> set adds" for c v
    using ipt that by (simp add: iptables_ok_def adds_def)
  obtain b w0 where x: "ex ?sys w = (b, w0)" by fastforce
  have sys: "rules (snd (ex ?sys v)) = rules v" for v using ipt by (simp add: iptables_ok_def)
  have w0: "rules w0 = rules w" using sys [of w] x by simp
  have r: "run_cmds ex (?sys # adds) w = (e, w1)" using run by (simp only: cmds)
  show ?thesis
  proof (cases b)
    case False
    then show ?thesis using r x w0 cmds by (auto intro!: exI [of _ 0])
  next
    case True
    then have r': "run_cmds ex adds w0 = (e, w1)" using r x by simp
    have spec: "case run_cmds ex adds w0 of
        (None, w') \<Rightarrow> rules w' = rules w0 + mset adds
      | (Some e, w') \<Rightarrow> \<exists>k < length adds. e = CmdFailed (adds ! k) \<and> rules w' = rules w0 + mset (take k adds)"
      by (rule run_cmds_rules) (rule add)
    show ?thesis
    proof (cases e)
      case None
      then show ?thesis using spec r' w0 cmds by simp
    next
      case (Some e')
      with spec r' w0 n obtain k where "k < 3" "e' = CmdFailed (adds ! k)" "rules w1 = rules w + mset (take k adds)"
        by auto
      then show ?thesis using Some cmds by (auto intro!: exI [of _ "Suc k"])
    qed
  qed
qed

lemma setup_adds:
  assumes "iptables_ok ex rules (tl (setup_cmds subnet iface tunName))" and "iface \<noteq> []"
    and "setupNAT ex route iface subnet tunName w = (e, i, w1)"
  shows "i = iface \<and> (case e of
      None \<Rightarrow> rules w1 = rules w + mset (tl (setup_cmds subnet iface tunName))
    | Some e' \<Rightarrow> \<exists>k < 4. e' = CmdFailed (setup_cmds subnet iface tunName ! k)
          \<and> rules w1 = rules w + mset (drop 1 (take k (setup_cmds subnet iface tunName))))"
proof -
  have "i = iface" "run_cmds ex (setup_cmds subnet iface tunName) w = (e, w1)"
    using assms(2,3) by (auto simp: setupNAT_def split: prod.splits)
  with run_setup [OF assms(1)] show ?thesis by blast
qed

lemma setup_success_adds:
  assumes "setupNAT ex route cfg subnet tunName w = (None, iface, w1)"
    and "iptables_ok ex rules (tl (setup_cmds subnet iface tunName))"
  shows "rules w1 = rules w + mset (tl (setup_cmds subnet iface tunName))"
proof -
  have "run_cmds ex (setup_cmds subnet iface tunName) w = (None, w1)"
    using assms(1) by (auto simp: setupNAT_def split: if_splits sum.splits prod.splits)
  with run_setup [OF assms(2)] show ?thesis by fastforce
qed

subsection \<open>Properties\<close>


text \<open>A filter that keeps its rules in a multiset, for the witness.\<close>

definition sample_exec :: "command multiset exec" where
  "sample_exec c w =
     (True, if ''-A'' \<in> set c then add_mset c w
            else if ''-D'' \<in> set c then w - {#map (\<lambda>a. if a = ''-D'' then ''-A'' else a) c#} else w)"

lemma sample_exec_ok: "iptables_ok sample_exec id (tl (setup_cmds ''10.8.0.0/16'' ''eth0'' ''tun0''))"
  by (simp add: iptables_ok_def sample_exec_def setup_cmds_def deletion_def)


text \<open>The interface is the word after the first \<open>dev\<close> of the route.\<close>

lemma after_dev_append:
  "''dev'' \<notin> set fs \<Longrightarrow> after_dev (fs @ ''dev'' # i # rest) = Some i"
proof (induction fs)
  case (Cons f fs)
  then show ?case by (cases fs) auto
qed simp

end
