(* ===== verification/Tun.thy ===== *)
theory Tun
  imports Nat_Rules Net_Addr Channel_Spec
begin

section \<open>TUN devices (shared/tun.go, tun_linux.go, tun_darwin.go)\<close>

text \<open>
  The two implementations of \<open>TUNDevice\<close>. The kernel is outside the repository: the results of
  its calls are arguments, commands run through \<open>exec\<close> as in \<open>Nat_Rules\<close>. Creation is followed
  call by call, with the list of open descriptors, so that the error paths show what stays
  open. On macOS every packet carries a 4-byte address-family header; its \<open>Read\<close> and \<open>Write\<close> are
  a codec, an instance of \<open>packet_codec\<close>.
\<close>

definition DefaultMTU :: int where
  "DefaultMTU = 1200"

record TUNConfig =
  DevName :: string
  Address :: bytes
  CIDR :: int
  tc_MTU :: int
  RouteServer :: bytes

subsection \<open>Linux\<close>

record linuxTUN =
  tun_file :: int
  tun_name :: string

datatype tun_err =
    OpenFailed string | IoctlFailed string | NewFileNil | SocketFailed string | ConnectFailed string
  | IfNameFailed string | ConfigFailed command

text \<open>\<open>copy(req.Name[:], cfg.DevName)\<close> on the zeroed array of 16 bytes, and the reading back.\<close>

definition ifreq_name :: "string \<Rightarrow> string" where
  "ifreq_name nm = take 16 nm @ replicate (16 - length nm) (CHR 0x00)"

fun kernel_name :: "string \<Rightarrow> string" where
  "kernel_name [] = []"
| "kernel_name (b # bs) = (if b = CHR 0x00 then [] else b # kernel_name bs)"

text \<open>\<open>open_fd\<close> and \<open>ioctl\<close> are the results of the system calls, \<open>file_ok\<close> that of \<open>os.NewFile\<close>.\<close>

record linux_calls =
  open_fd :: "string + int"
  ioctl_name :: "string \<Rightarrow> string + string"
  file_ok :: bool

definition link_cmds :: "TUNConfig \<Rightarrow> string \<Rightarrow> command list" where
  "link_cmds cfg dev =
     [[''ip'', ''addr'', ''add'', ip_string (\<lambda>_. []) (Address cfg) @ ''/'' @ format_int (CIDR cfg), ''dev'', dev],
      [''ip'', ''link'', ''set'', dev, ''mtu'', format_int (tc_MTU cfg)],
      [''ip'', ''link'', ''set'', dev, ''up'']]"

definition CreateTUN_linux ::
  "linux_calls \<Rightarrow> 'w exec \<Rightarrow> TUNConfig \<Rightarrow> int list \<Rightarrow> 'w \<Rightarrow> (tun_err + linuxTUN) \<times> int list \<times> 'w" where
  "CreateTUN_linux sys ex cfg fds w =
     (let cfg = (if tc_MTU cfg = 0 then cfg\<lparr>tc_MTU := DefaultMTU\<rparr> else cfg) in
      case open_fd sys of
        Inl e \<Rightarrow> (Inl (OpenFailed e), fds, w)
      | Inr fd \<Rightarrow>
          let fds1 = fd # fds in
          (case ioctl_name sys (ifreq_name (DevName cfg)) of
             Inl e \<Rightarrow> (Inl (IoctlFailed e), remove1 fd fds1, w)
           | Inr nm \<Rightarrow>
               let devName = kernel_name nm in
               if \<not> file_ok sys then (Inl NewFileNil, remove1 fd fds1, w)
               else (case run_cmds ex (link_cmds cfg devName) w of
                       (Some (CmdFailed c), w') \<Rightarrow> (Inl (ConfigFailed c), remove1 fd fds1, w')
                     | (_, w') \<Rightarrow> (Inr \<lparr>tun_file = fd, tun_name = devName\<rparr>, fds1, w'))))"

text \<open>\<open>Close\<close> and \<open>Name\<close>; \<open>Read\<close> and \<open>Write\<close> are those of the file.\<close>

definition Close_linux :: "linuxTUN \<Rightarrow> int list \<Rightarrow> int list" where
  "Close_linux t fds = remove1 (tun_file t) fds"

definition Name_linux :: "linuxTUN \<Rightarrow> string" where
  "Name_linux t = tun_name t"

subsection \<open>macOS: the packets\<close>

text \<open>\<open>AF_INET\<close> is 2, in host byte order, little-endian on every Mac.\<close>

definition afHeaderSize :: nat where
  "afHeaderSize = 4"

definition afIPv4Header :: bytes where
  "afIPv4Header = [2, 0, 0, 0]"

text \<open>
  \<open>Read\<close> on a buffer, where the kernel has an error or a frame for \<open>read(2)\<close>: the count and the
  buffer afterwards. \<open>Write\<close>: the kernel's error or count for the frame it is handed.
\<close>

definition Read_darwin :: "string + bytes \<Rightarrow> bytes \<Rightarrow> (string + nat) \<times> bytes" where
  "Read_darwin frame buf =
     (case frame of
        Inl e \<Rightarrow> (Inl e, buf)
      | Inr f \<Rightarrow>
          let raw = take (length buf + afHeaderSize) f; n = length raw in
          if n \<le> afHeaderSize then (Inl ''utun read: packet too short'', buf)
          else let (buf', copied) = copy_into buf (subslice afHeaderSize n raw) in (Inr copied, buf'))"

definition Write_darwin :: "(bytes \<Rightarrow> string + nat) \<Rightarrow> bytes \<Rightarrow> string + nat" where
  "Write_darwin kwrite buf =
     (let raw = afIPv4Header @ buf in
      case kwrite raw of
        Inl e \<Rightarrow> Inl e
      | Inr n \<Rightarrow> if n < afHeaderSize then Inl ''utun write: short write'' else Inr (n - afHeaderSize))"

subsection \<open>macOS: name resolution\<close>

text \<open>
  The service the override is applied to: the loop over the lines stops at the first that
  contains the word. \<open>globalPrimaryService\<close> remembers it for \<open>Close\<close>; \<open>script\<close> is what is
  written to \<open>scutil\<close>.
\<close>

fun primary_service :: "string list \<Rightarrow> string option" where
  "primary_service [] = None"
| "primary_service (line # lines) =
     (if Contains line ''PrimaryService''
      then (case split_first CHR '':'' line of
              [_, v] \<Rightarrow> (let ps = TrimSpace v in if ps = [] then None else Some ps)
            | _ \<Rightarrow> None)
      else primary_service lines)"

definition dns_script :: "string \<Rightarrow> string \<Rightarrow> string" where
  "dns_script servers ps =
     ''d.init'' @ [CHR 0x0A] @ ''d.add ServerAddresses * '' @ servers @ [CHR 0x0A]
     @ ''set State:/Network/Service/'' @ ps @ ''/DNS'' @ [CHR 0x0A]"

text \<open>\<open>out\<close> is the output of the query, \<open>None\<close> on error: the new global and the scripts run.\<close>

definition applyDNSOverride :: "string option \<Rightarrow> string \<Rightarrow> string \<times> string list" where
  "applyDNSOverride out global =
     (case out of
        None \<Rightarrow> (global, [])
      | Some txt \<Rightarrow>
          (case primary_service (split_on (CHR 0x0A) txt) of
             None \<Rightarrow> (global, [])
           | Some ps \<Rightarrow> (ps, [dns_script ''8.8.8.8 8.8.4.4'' ps])))"

definition restoreDNS :: "string \<Rightarrow> string \<times> string list" where
  "restoreDNS global = (if global \<noteq> [] then ([], [dns_script ''empty'' global]) else (global, []))"

subsection \<open>macOS: creation\<close>

record darwin_calls =
  socket_fd :: "string + int"
  ctl_info :: "string option"
  connect_utun :: "string option"
  utun_name :: "string + string"
  gateway_out :: string
  scutil_out :: "string option"

record darwinTUN =
  dtun_fd :: int
  dtun_name :: string

text \<open>The gateway: the output without one trailing newline.\<close>

definition gateway :: "string \<Rightarrow> string" where
  "gateway out = (if out \<noteq> [] \<and> last out = CHR 0x0A then butlast out else out)"

text \<open>
  The commands of step 6, whose failures are ignored: the route to the server by the old
  gateway, when there is one, and the two halves of each address space through the device.
\<close>

definition darwin_routes :: "string \<Rightarrow> string \<Rightarrow> string \<Rightarrow> command list" where
  "darwin_routes ifName server gw =
     (if gw \<noteq> [] then [[''route'', ''delete'', ''-host'', server], [''route'', ''add'', ''-host'', server, gw]] else [])
     @ [[''ifconfig'', ifName, ''inet6'', ''fd00::1/64'', ''up''],
        [''route'', ''delete'', ''-net'', ''0.0.0.0'', ''-netmask'', ''128.0.0.0''],
        [''route'', ''delete'', ''-net'', ''128.0.0.0'', ''-netmask'', ''128.0.0.0''],
        [''route'', ''delete'', ''-inet6'', ''::/1''],
        [''route'', ''delete'', ''-inet6'', ''8000::/1''],
        [''route'', ''add'', ''-net'', ''0.0.0.0'', ''-netmask'', ''128.0.0.0'', ''-interface'', ifName],
        [''route'', ''add'', ''-net'', ''128.0.0.0'', ''-netmask'', ''128.0.0.0'', ''-interface'', ifName],
        [''route'', ''add'', ''-inet6'', ''::/1'', ''-interface'', ifName],
        [''route'', ''add'', ''-inet6'', ''8000::/1'', ''-interface'', ifName]]"

text \<open>
  \<open>CreateTUN\<close>: the result, the open descriptors, the machine, the remembered DNS service and
  the scripts given to \<open>scutil\<close>.
\<close>

definition CreateTUN_darwin ::
  "darwin_calls \<Rightarrow> 'w exec \<Rightarrow> TUNConfig \<Rightarrow> int list \<Rightarrow> 'w \<Rightarrow> string
     \<Rightarrow> (tun_err + darwinTUN) \<times> int list \<times> 'w \<times> string \<times> string list" where
  "CreateTUN_darwin sys ex cfg fds w global =
     (let cfg = (if tc_MTU cfg = 0 then cfg\<lparr>tc_MTU := DefaultMTU\<rparr> else cfg) in
      case socket_fd sys of
        Inl e \<Rightarrow> (Inl (SocketFailed e), fds, w, global, [])
      | Inr fd \<Rightarrow>
          let opened = fd # fds; closed = remove1 fd opened in
          (case ctl_info sys of
             Some e \<Rightarrow> (Inl (IoctlFailed e), closed, w, global, [])
           | None \<Rightarrow>
               (case connect_utun sys of
                  Some e \<Rightarrow> (Inl (ConnectFailed e), closed, w, global, [])
                | None \<Rightarrow>
                    (case utun_name sys of
                       Inl e \<Rightarrow> (Inl (IfNameFailed e), closed, w, global, [])
                     | Inr ifName \<Rightarrow>
                         let a = ip_string (\<lambda>_. []) (Address cfg);
                             conf = [''ifconfig'', ifName, ''inet'', a @ ''/'' @ format_int (CIDR cfg), a,
                                     ''mtu'', format_int (tc_MTU cfg), ''up''];
                             (ok, w) = ex conf w
                         in if \<not> ok then (Inl (ConfigFailed conf), closed, w, global, [])
                            else
                              let w = run_ignoring ex [[''ifconfig'', ifName, ''inet6'', ''fe80::1'', ''up'']] w
                              in if RouteServer cfg = []
                                 then (Inr \<lparr>dtun_fd = fd, dtun_name = ifName\<rparr>, opened, w, global, [])
                                 else
                                   let w = run_ignoring ex (darwin_routes ifName
                                              (ip_string (\<lambda>_. []) (RouteServer cfg)) (gateway (gateway_out sys))) w;
                                       (g, scripts) = applyDNSOverride (scutil_out sys) global
                                   in (Inr \<lparr>dtun_fd = fd, dtun_name = ifName\<rparr>, opened, w, g, scripts)))))"

definition close_routes :: "string \<Rightarrow> command list" where
  "close_routes nm =
     [[''route'', ''delete'', ''-net'', ''0.0.0.0'', ''-netmask'', ''128.0.0.0'', ''-interface'', nm],
      [''route'', ''delete'', ''-net'', ''128.0.0.0'', ''-netmask'', ''128.0.0.0'', ''-interface'', nm],
      [''route'', ''delete'', ''-inet6'', ''::/1''],
      [''route'', ''delete'', ''-inet6'', ''8000::/1'']]"

definition Close_darwin ::
  "'w exec \<Rightarrow> darwinTUN \<Rightarrow> int list \<Rightarrow> 'w \<Rightarrow> string \<Rightarrow> int list \<times> 'w \<times> string \<times> string list" where
  "Close_darwin ex t fds w global =
     (let (g, scripts) = restoreDNS global
      in (remove1 (dtun_fd t) fds, run_ignoring ex (close_routes (dtun_name t)) w, g, scripts))"

subsection \<open>Lemmas\<close>

lemma kernel_name_takeWhile: "kernel_name nm = takeWhile (\<lambda>b. b \<noteq> CHR 0x00) nm"
  by (induction nm) simp_all

lemma kernel_name_ifreq:
  assumes "CHR 0x00 \<notin> set nm" and "length nm \<le> 16"
  shows "kernel_name (ifreq_name nm) = nm"
proof -
  have "takeWhile (\<lambda>b. b \<noteq> CHR 0x00) (nm @ replicate k (CHR 0x00)) = nm" for k
    using assms(1) by (induction nm) (auto simp: takeWhile_replicate)
  then show ?thesis using assms(2) by (simp add: kernel_name_takeWhile ifreq_name_def)
qed

lemma Read_darwin_frame:
  assumes "p \<noteq> []" and "length p \<le> length buf"
  shows "\<exists>buf'. Read_darwin (Inr (afIPv4Header @ p)) buf = (Inr (length p), buf') \<and> take (length p) buf' = p"
proof -
  have "length (afIPv4Header @ p) = 4 + length p" by (simp add: afIPv4Header_def)
  then have raw: "take (length buf + afHeaderSize) (afIPv4Header @ p) = afIPv4Header @ p"
    using assms(2) by (simp add: afHeaderSize_def)
  have sub: "subslice afHeaderSize (length (afIPv4Header @ p)) (afIPv4Header @ p) = p"
    by (simp add: subslice_def afHeaderSize_def afIPv4Header_def)
  have "Read_darwin (Inr (afIPv4Header @ p)) buf = (Inr (length p), fst (copy_into buf p))"
    using assms raw sub by (simp add: Read_darwin_def Let_def afHeaderSize_def afIPv4Header_def split_beta
        snd_copy_into min_def)
  moreover have "take (length p) (fst (copy_into buf p)) = p"
    using assms(2) take_copy_into [of buf p]
    by (cases "length buf = length p") (simp_all add: snd_copy_into min_def)
  ultimately show ?thesis by blast
qed

text \<open>
  The framing as a codec: the key is the size of the reader's buffer, a packet fits when it is
  not empty and at most the size of the buffers of the program.
\<close>

definition frame_packet :: "nat \<Rightarrow> unit \<Rightarrow> bytes \<Rightarrow> bytes option" where
  "frame_packet room r p = Some (afIPv4Header @ p)"

definition unframe_packet :: "nat \<Rightarrow> bytes \<Rightarrow> bytes option" where
  "unframe_packet room f =
     (case Read_darwin (Inr f) (replicate room 0) of (Inr n, buf) \<Rightarrow> Some (take n buf) | _ \<Rightarrow> None)"

lemma unframe_frame:
  assumes "p \<noteq> []" and "length p \<le> room"
  shows "unframe_packet room (afIPv4Header @ p) = Some p"
  using Read_darwin_frame [OF assms(1), of "replicate room 0"] assms(2)
  by (auto simp: unframe_packet_def)

interpretation utun: packet_codec frame_packet unframe_packet "\<lambda>room. 1300 \<le> room"
  "\<lambda>_ p. p \<noteq> [] \<and> length p \<le> 1300"
  by unfold_locales (auto simp: frame_packet_def unframe_frame)

subsection \<open>Properties\<close>

text \<open>
  What \<open>Write\<close> hands to the macOS kernel for an IP packet, \<open>Read\<close> returns as that packet when
  the kernel delivers it, cut to the reader's buffer; the count \<open>Write\<close> reports for a frame the
  kernel takes whole is the length of the packet, and a frame with no packet is an error.
\<close>

theorem darwin_framing:
  assumes "p \<noteq> []" and "length p \<le> 1300" and "1300 \<le> length buf"
  shows "Write_darwin (\<lambda>f. if f = afIPv4Header @ p then Inr (length f) else Inl e) p = Inr (length p)
     \<and> (\<exists>buf'. Read_darwin (Inr (afIPv4Header @ p)) buf = (Inr (length p), buf') \<and> take (length p) buf' = p)
     \<and> first_decoded (unframe_packet (length buf)) [[], afIPv4Header, the (frame_packet (length buf) () p)]
         = Some (p, [])"
proof (intro conjI)
  show "Write_darwin (\<lambda>f. if f = afIPv4Header @ p then Inr (length f) else Inl e) p = Inr (length p)"
    by (simp add: Write_darwin_def afIPv4Header_def afHeaderSize_def)
  show "\<exists>buf'. Read_darwin (Inr (afIPv4Header @ p)) buf = (Inr (length p), buf') \<and> take (length p) buf' = p"
    using assms by (intro Read_darwin_frame) simp_all
  have junk: "unframe_packet (length buf) w = None" if "w \<in> set [[], afIPv4Header]" for w
    using that by (auto simp: unframe_packet_def Read_darwin_def Let_def afHeaderSize_def afIPv4Header_def)
  have "frame_packet (length buf) () p = Some (the (frame_packet (length buf) () p))"
    by (simp add: frame_packet_def)
  from utun.first_decoded_message [where junk = "[[], afIPv4Header]" and ws = "[]", OF assms(3) _ this junk] assms(1,2)
  show "first_decoded (unframe_packet (length buf)) [[], afIPv4Header, the (frame_packet (length buf) () p)]
         = Some (p, [])"
    by simp
qed

theorem darwin_framing_witness:
  "\<exists>buf'. Read_darwin (Inr [2, 0, 0, 0, 0x45, 7]) (replicate 1300 0) = (Inr 2, buf') \<and> take 2 buf' = [0x45, 7]"
  using darwin_framing [of "[0x45, 7]" "replicate 1300 0"]
  by (simp add: afIPv4Header_def numeral_2_eq_2 del: first_decoded.simps)

text \<open>
  Creating a Linux device keeps no descriptor open when it fails, whichever call failed, and
  exactly the device's descriptor when it succeeds, which \<open>Close\<close> gives back; the device has the
  name the kernel chose, a requested MTU of 0 becomes 1200, and the three link commands ran.
\<close>

theorem CreateTUN_linux_fds:
  "case CreateTUN_linux sys ex cfg fds w of
     (Inl e, fds', w') \<Rightarrow> fds' = fds
   | (Inr t, fds', w') \<Rightarrow> open_fd sys = Inr (tun_file t) \<and> fds' = tun_file t # fds \<and> Close_linux t fds' = fds
        \<and> (\<exists>nm. ioctl_name sys (ifreq_name (DevName cfg)) = Inr nm
             \<and> Name_linux t = takeWhile (\<lambda>b. b \<noteq> CHR 0x00) nm)
        \<and> run_cmds ex (link_cmds (cfg\<lparr>tc_MTU := if tc_MTU cfg = 0 then 1200 else tc_MTU cfg\<rparr>) (Name_linux t)) w
            = (None, w')"
proof (cases "open_fd sys")
  case (Inl e)
  then show ?thesis by (simp add: CreateTUN_linux_def Let_def)
next
  case fd: (Inr fd)
  let ?cfg = "cfg\<lparr>tc_MTU := if tc_MTU cfg = 0 then 1200 else tc_MTU cfg\<rparr>"
  have cfg: "(if tc_MTU cfg = 0 then cfg\<lparr>tc_MTU := DefaultMTU\<rparr> else cfg) = ?cfg"
    by (simp add: DefaultMTU_def)
  show ?thesis
  proof (cases "ioctl_name sys (ifreq_name (DevName cfg))")
    case (Inl e)
    then show ?thesis using fd by (simp add: CreateTUN_linux_def Let_def cfg)
  next
    case nm: (Inr nm)
    obtain r w' where run: "run_cmds ex (link_cmds ?cfg (kernel_name nm)) w = (r, w')" by fastforce
    have only: "\<exists>c. x = CmdFailed c" if "run_cmds ex cs v = (Some x, v')" for cs v x v'
      using that by (induction cs arbitrary: v) (auto split: prod.splits bool.splits)
    show ?thesis
    proof (cases r)
      case None
      then show ?thesis using fd nm run
        by (simp add: CreateTUN_linux_def Let_def cfg Close_linux_def Name_linux_def kernel_name_takeWhile)
    next
      case (Some x)
      with only run obtain c where "x = CmdFailed c" by blast
      then show ?thesis using fd nm run Some by (simp add: CreateTUN_linux_def Let_def cfg)
    qed
  qed
qed

theorem CreateTUN_linux_fds_witness:
  "\<exists>t. CreateTUN_linux \<lparr>open_fd = Inr 7, ioctl_name = Inr, file_ok = True\<rparr> (\<lambda>c n. (True, Suc n))
        \<lparr>DevName = ''tun0'', Address = [10, 8, 0, 1], CIDR = 16, tc_MTU = 0, RouteServer = []\<rparr> [3] (0 :: nat)
      = (Inr t, [7, 3], 3) \<and> Name_linux t = ''tun0''"
proof -
  let ?r = "CreateTUN_linux \<lparr>open_fd = Inr 7, ioctl_name = Inr, file_ok = True\<rparr> (\<lambda>c n. (True, Suc n))
        \<lparr>DevName = ''tun0'', Address = [10, 8, 0, 1], CIDR = 16, tc_MTU = 0, RouteServer = []\<rparr> [3] (0 :: nat)"
  have ok: "(case ?r of (Inl e, _, _) \<Rightarrow> False | (Inr t, fds, n) \<Rightarrow> n = 3)" by code_simp
  have n: "takeWhile (\<lambda>b. b \<noteq> CHR 0x00) (ifreq_name ''tun0'') = ''tun0''" by code_simp
  obtain x fds v where r: "?r = (x, fds, v)" by (metis prod_cases3)
  with ok obtain t where x: "x = Inr t" and v: "v = 3" by (cases x) auto
  have "fds = [7, 3] \<and> Name_linux t = ''tun0''"
    using CreateTUN_linux_fds [where sys = "\<lparr>open_fd = Inr 7, ioctl_name = Inr, file_ok = True\<rparr>"
        and ex = "\<lambda>c n. (True, Suc n)" and fds = "[3]" and w = "0 :: nat"
        and cfg = "\<lparr>DevName = ''tun0'', Address = [10, 8, 0, 1], CIDR = 16, tc_MTU = 0, RouteServer = []\<rparr>"] n
    by (simp add: r x)
  with r x v show ?thesis by auto
qed

end
