(* ===== verification/Daemon.thy ===== *)
theory Daemon
  imports IP_Pool_Correct Auth Obf_Conn Rate_Limit Packet Tun
begin

section \<open>The control plane of the daemon (server/daemon/daemon.go)\<close>

text \<open>
  Every accepted connection runs \<open>handleConnection\<close> in its own goroutine. The model is the
  shared state of \<open>VPNServer\<close> with, for every connection, the point its handler has reached
  (\<open>phase\<close>); an event is one atomic step of one handler: what it waits for arrives, or one
  critical section (the pool's mutex, \<open>sessionsMu\<close>) runs. Sequences of events are all
  interleavings of the handlers with each other, with the API's use of the store and with
  \<open>Close\<close>. What the network, the JSON codec, the engine and the clock deliver is in the event.
  The contexts are the flag \<open>cancelled\<close>; QUIC is outside the repository.
\<close>

record AuthRequest =
  Key :: string
  HWID :: string

record AuthResponse =
  Status :: string
  Message :: string
  AssignedIP :: string
  ServerIPText :: string
  Subnet :: string
  MTU :: int
  DataPort :: int
  KeyForAPI :: string

definition no_response :: AuthResponse where
  "no_response = \<lparr>Status = [], Message = [], AssignedIP = [], ServerIPText = [], Subnet = [], MTU = 0,
     DataPort = 0, KeyForAPI = []\<rparr>"

record ClientSession =
  conn :: nat
  user :: User
  assignedIP :: bytes
  clientAddr :: "addr option"
  upLimiter :: "token_bucket option"
  downLimiter :: "token_bucket option"

text \<open>
  Where a handler is: waiting for the control stream, for the request, before
  \<open>Authenticate\<close>, before \<open>Allocate\<close>, before the response is sent, before the session is
  registered, waiting for the end of the session, between \<open>delete\<close> and \<open>Release\<close> of the
  deferred cleanup, returned, or dead by a run-time panic.
\<close>

datatype phase =
    Accepting | Decoding | Authenticating AuthRequest | Allocating User
  | Responding User bytes | Registering User bytes | Serving u32 bytes | Releasing bytes
  | Returned | Panicked

record VPNServer =
  accounts :: db
  ipPool :: ip_pool
  sessions :: "(u32, ClientSession) fmap"
  dataPort :: int
  cancelled :: bool
  handlers :: "nat \<Rightarrow> phase option"
  sent :: "(nat \<times> AuthResponse) list"

datatype event =
    Accepted nat
  | StreamAccepted nat bool
  | RequestDecoded nat "AuthRequest option"
  | AuthStep nat "db_err option" "db_op list" "nat \<Rightarrow> db_err option" int
  | AllocStep nat
  | ResponseSent nat bool
  | RegisterStep nat int
  | SessionEnds nat
  | ReleaseStep nat
  | StoreUsed db_op
  | CancelServer
  | DropSessions "u32 list"

subsection \<open>The steps of handleConnection\<close>

definition set_phase :: "nat \<Rightarrow> phase \<Rightarrow> VPNServer \<Rightarrow> VPNServer" where
  "set_phase c ph s = s\<lparr>handlers := (handlers s)(c \<mapsto> ph)\<rparr>"

definition send_response :: "nat \<Rightarrow> AuthResponse \<Rightarrow> VPNServer \<Rightarrow> VPNServer" where
  "send_response c r s = s\<lparr>sent := sent s @ [(c, r)]\<rparr>"

definition error_response :: "string \<Rightarrow> AuthResponse" where
  "error_response msg = no_response\<lparr>Status := ''error'', Message := msg\<rparr>"

definition success_response :: "VPNServer \<Rightarrow> User \<Rightarrow> bytes \<Rightarrow> AuthResponse" where
  "success_response s u ip =
     \<lparr>Status = ''success'', Message = [], AssignedIP = ip_string (\<lambda>_. []) ip,
      ServerIPText = ip_string (\<lambda>_. []) (IP_Pool.ServerIP (ipPool s)), Subnet = SubnetCIDR (ipPool s),
      MTU = DefaultMTU, DataPort = dataPort s, KeyForAPI = APIKey u\<rparr>"

text \<open>The text of a driver error is the driver's.\<close>

fun auth_err_text :: "auth_err \<Rightarrow> string" where
  "auth_err_text EmptyKey = ''access key cannot be empty''"
| "auth_err_text EmptyHWID = ''device hardware ID (HWID) cannot be empty''"
| "auth_err_text InvalidKey = ''invalid access key''"
| "auth_err_text (StoreErr (LimitExceeded used limit)) =
     ''device limit exceeded ('' @ format_int used @ ''/'' @ format_int limit @ '')''"
| "auth_err_text (StoreErr NoRows) = ''sql: no rows in result set''"
| "auth_err_text (StoreErr (Driver t)) = t"
| "auth_err_text (StoreErr (Constraint t)) = t"

definition new_session :: "(rat \<Rightarrow> rat) \<Rightarrow> int \<Rightarrow> nat \<Rightarrow> User \<Rightarrow> bytes \<Rightarrow> ClientSession" where
  "new_session fl now c u ip =
     (let lim = (if 0 < RateLimit u then Some (NewTokenBucket fl (RateLimit u) now) else None)
      in \<lparr>conn = c, user = u, assignedIP = ip, clientAddr = None, upLimiter = lim, downLimiter = lim\<rparr>)"

definition auth_step ::
  "nat \<Rightarrow> AuthRequest \<Rightarrow> db_err option \<Rightarrow> db_op list \<Rightarrow> (nat \<Rightarrow> db_err option) \<Rightarrow> int
     \<Rightarrow> VPNServer \<Rightarrow> VPNServer" where
  "auth_step c req f between rf now s =
     (case Authenticate f between rf now (Key req) (HWID req) (accounts s) of
        (Inl e, d) \<Rightarrow>
          set_phase c Returned (send_response c (error_response (auth_err_text e)) (s\<lparr>accounts := d\<rparr>))
      | (Inr u, d) \<Rightarrow> set_phase c (Allocating u) (s\<lparr>accounts := d\<rparr>))"

definition alloc_step :: "nat \<Rightarrow> User \<Rightarrow> VPNServer \<Rightarrow> VPNServer" where
  "alloc_step c u s =
     (case Allocate (ipPool s) of
        (Ok ip, p) \<Rightarrow> set_phase c (Responding u ip) (s\<lparr>ipPool := p\<rparr>)
      | (Err e, p) \<Rightarrow>
          set_phase c Returned (send_response c (error_response ''no IPs available'') (s\<lparr>ipPool := p\<rparr>))
      | (Panic, p) \<Rightarrow> set_phase c Panicked (s\<lparr>ipPool := p\<rparr>))"

definition release_ip :: "bytes \<Rightarrow> VPNServer \<Rightarrow> VPNServer" where
  "release_ip ip s = s\<lparr>ipPool := snd (Release (ipPool s) ip)\<rparr>"

definition respond_step :: "nat \<Rightarrow> User \<Rightarrow> bytes \<Rightarrow> bool \<Rightarrow> VPNServer \<Rightarrow> VPNServer" where
  "respond_step c u ip ok s =
     (if ok then set_phase c (Registering u ip) (send_response c (success_response s u ip) s)
      else set_phase c Returned (release_ip ip s))"

definition register_step :: "(rat \<Rightarrow> rat) \<Rightarrow> nat \<Rightarrow> User \<Rightarrow> bytes \<Rightarrow> int \<Rightarrow> VPNServer \<Rightarrow> VPNServer" where
  "register_step fl c u ip now s =
     (case To4 ip of
        None \<Rightarrow> set_phase c Panicked s
      | Some ip4 \<Rightarrow>
          (case be_u32 ip4 of
             None \<Rightarrow> set_phase c Panicked s
           | Some ipKey \<Rightarrow>
               set_phase c (Serving ipKey ip)
                 (s\<lparr>sessions := fmupd ipKey (new_session fl now c u ip) (sessions s)\<rparr>)))"

text \<open>The critical section of \<open>Close\<close>: the sessions in the order of the map iteration.\<close>

definition drop_session :: "u32 \<Rightarrow> VPNServer \<Rightarrow> VPNServer" where
  "drop_session k s =
     (case fmlookup (sessions s) k of
        None \<Rightarrow> s
      | Some sess \<Rightarrow> (release_ip (assignedIP sess) s)\<lparr>sessions := fmdrop k (sessions s)\<rparr>)"

text \<open>One event; \<open>None\<close> when the handler is not at the point of the event.\<close>

fun daemon_step :: "(rat \<Rightarrow> rat) \<Rightarrow> event \<Rightarrow> VPNServer \<Rightarrow> VPNServer option" where
  "daemon_step fl (Accepted c) s =
     (if handlers s c = None then Some (set_phase c Accepting s) else None)"
| "daemon_step fl (StreamAccepted c ok) s =
     (if handlers s c = Some Accepting then Some (set_phase c (if ok then Decoding else Returned) s) else None)"
| "daemon_step fl (RequestDecoded c r) s =
     (if handlers s c = Some Decoding
      then Some (case r of
          None \<Rightarrow> set_phase c Returned (send_response c (error_response ''invalid auth payload'') s)
        | Some req \<Rightarrow> set_phase c (Authenticating req) s)
      else None)"
| "daemon_step fl (AuthStep c f between rf now) s =
     (case handlers s c of
        Some (Authenticating req) \<Rightarrow> Some (auth_step c req f between rf now s) | _ \<Rightarrow> None)"
| "daemon_step fl (AllocStep c) s =
     (case handlers s c of Some (Allocating u) \<Rightarrow> Some (alloc_step c u s) | _ \<Rightarrow> None)"
| "daemon_step fl (ResponseSent c ok) s =
     (case handlers s c of Some (Responding u ip) \<Rightarrow> Some (respond_step c u ip ok s) | _ \<Rightarrow> None)"
| "daemon_step fl (RegisterStep c now) s =
     (case handlers s c of
        Some (Registering u ip) \<Rightarrow> Some (register_step fl c u ip now s) | _ \<Rightarrow> None)"
| "daemon_step fl (SessionEnds c) s =
     (case handlers s c of
        Some (Serving k ip) \<Rightarrow> Some (set_phase c (Releasing ip) (s\<lparr>sessions := fmdrop k (sessions s)\<rparr>))
      | _ \<Rightarrow> None)"
| "daemon_step fl (ReleaseStep c) s =
     (case handlers s c of
        Some (Releasing ip) \<Rightarrow> Some (set_phase c Returned (release_ip ip s)) | _ \<Rightarrow> None)"
| "daemon_step fl (StoreUsed op) s = Some (s\<lparr>accounts := db_step op (accounts s)\<rparr>)"
| "daemon_step fl CancelServer s = Some (s\<lparr>cancelled := True\<rparr>)"
| "daemon_step fl (DropSessions ks) s =
     (if cancelled s \<and> distinct ks \<and> fset_of_list ks = fmdom (sessions s)
      then Some (fold drop_session ks s) else None)"

fun daemon_run :: "(rat \<Rightarrow> rat) \<Rightarrow> event list \<Rightarrow> VPNServer \<Rightarrow> VPNServer option" where
  "daemon_run fl [] s = Some s"
| "daemon_run fl (e # es) s =
     (case daemon_step fl e s of None \<Rightarrow> None | Some s' \<Rightarrow> daemon_run fl es s')"

text \<open>A server as \<open>NewVPNServer\<close> returns it: no session, no handler, the new pool.\<close>

definition fresh_server :: "db \<Rightarrow> ip_pool \<Rightarrow> int \<Rightarrow> VPNServer" where
  "fresh_server d p port =
     \<lparr>accounts = d, ipPool = p, sessions = fmempty, dataPort = port, cancelled = False,
      handlers = (\<lambda>_. None), sent = []\<rparr>"

text \<open>The states that events other than those of \<open>Close\<close> lead to from a fresh server.\<close>

inductive running :: "(rat \<Rightarrow> rat) \<Rightarrow> VPNServer \<Rightarrow> VPNServer \<Rightarrow> bool" for fl s0 where
  running_start: "running fl s0 s0"
| running_step: "running fl s0 s \<Longrightarrow> daemon_step fl e s = Some s' \<Longrightarrow> (\<forall>ks. e \<noteq> DropSessions ks)
    \<Longrightarrow> running fl s0 s'"

end
