(* ===== verification/Daemon_Correct.thy ===== *)
theory Daemon_Correct
  imports Daemon
begin

section \<open>Correctness of the control plane\<close>

text \<open>
  The invariant \<open>daemon_ok\<close> ties the handlers, the pool and the session table together: an
  address is held by at most one handler, the pool records exactly the addresses that
  handlers hold, and the table maps an address to the session of the handler that serves it.
  It rests on the laws of the pool through the interpretation \<open>pool\<close> of \<open>ip_allocator\<close>. The
  invariant holds as long as \<open>Close\<close> has not dropped the sessions; a run shows what happens
  after it has.
\<close>

fun phase_ip :: "phase \<Rightarrow> bytes option" where
  "phase_ip (Responding u ip) = Some ip"
| "phase_ip (Registering u ip) = Some ip"
| "phase_ip (Serving k ip) = Some ip"
| "phase_ip (Releasing ip) = Some ip"
| "phase_ip _ = None"

fun is_serving :: "phase \<Rightarrow> bool" where
  "is_serving (Serving k ip) = True"
| "is_serving _ = False"

definition claims :: "(nat \<Rightarrow> phase option) \<Rightarrow> nat \<Rightarrow> bytes option" where
  "claims H c = Option.bind (H c) phase_ip"

definition daemon_ok ::
  "(nat \<Rightarrow> phase option) \<Rightarrow> ip_pool \<Rightarrow> (u32, ClientSession) fmap \<Rightarrow> bool" where
  "daemon_ok H p S \<longleftrightarrow>
     pool_wf p \<and> (\<forall>c. H c \<noteq> Some Panicked)
     \<and> (\<forall>c c' ip. claims H c = Some ip \<longrightarrow> claims H c' = Some ip \<longrightarrow> c = c')
     \<and> (\<forall>ip. (\<exists>c. claims H c = Some ip) \<longleftrightarrow> ip \<in> held_ips p)
     \<and> (\<forall>c k ip. H c = Some (Serving k ip) \<longrightarrow>
          ip = uint32ToIP k \<and> (\<exists>se. fmlookup S k = Some se \<and> conn se = c \<and> assignedIP se = ip))
     \<and> (\<forall>k se. fmlookup S k = Some se \<longrightarrow> H (conn se) = Some (Serving k (uint32ToIP k)))"

lemma claims_upd [simp]: "claims (H(c \<mapsto> ph)) x = (if x = c then phase_ip ph else claims H x)"
  by (simp add: claims_def)

lemma claims_phase: "H c = Some ph \<Longrightarrow> claims H c = phase_ip ph"
  by (simp add: claims_def)

lemma daemon_okD:
  assumes "daemon_ok H p S"
  shows "pool_wf p" and "H c \<noteq> Some Panicked"
    and "claims H c = Some ip \<Longrightarrow> claims H c' = Some ip \<Longrightarrow> c = c'"
    and "claims H c = Some ip \<Longrightarrow> ip \<in> held_ips p"
    and "ip \<in> held_ips p \<Longrightarrow> \<exists>c. claims H c = Some ip"
    and "H c = Some (Serving k ip) \<Longrightarrow>
      ip = uint32ToIP k \<and> (\<exists>se. fmlookup S k = Some se \<and> conn se = c \<and> assignedIP se = ip)"
    and "fmlookup S k = Some se \<Longrightarrow> H (conn se) = Some (Serving k (uint32ToIP k))"
  using assms unfolding daemon_ok_def by blast+

lemma daemon_okI:
  assumes "pool_wf p" and "\<And>c. H c \<noteq> Some Panicked"
    and "\<And>c c' ip. claims H c = Some ip \<Longrightarrow> claims H c' = Some ip \<Longrightarrow> c = c'"
    and "\<And>c ip. claims H c = Some ip \<Longrightarrow> ip \<in> held_ips p"
    and "\<And>ip. ip \<in> held_ips p \<Longrightarrow> \<exists>c. claims H c = Some ip"
    and "\<And>c k ip. H c = Some (Serving k ip) \<Longrightarrow>
      ip = uint32ToIP k \<and> (\<exists>se. fmlookup S k = Some se \<and> conn se = c \<and> assignedIP se = ip)"
    and "\<And>k se. fmlookup S k = Some se \<Longrightarrow> H (conn se) = Some (Serving k (uint32ToIP k))"
  shows "daemon_ok H p S"
  using assms unfolding daemon_ok_def by blast

text \<open>A step that neither takes nor frees an address nor touches the table.\<close>

lemma ok_quiet:
  assumes ok: "daemon_ok H p S" and same: "phase_ip ph = claims H c" and np: "ph \<noteq> Panicked"
    and ns: "\<not> is_serving ph" "\<And>old. H c = Some old \<Longrightarrow> \<not> is_serving old"
  shows "daemon_ok (H(c \<mapsto> ph)) p S"
proof -
  have cl: "claims (H(c \<mapsto> ph)) = claims H" using same by auto
  have sv: "(H(c \<mapsto> ph)) c' = Some (Serving k ip) \<longleftrightarrow> H c' = Some (Serving k ip)" for c' k ip
    using ns by auto
  have pn: "(H(c \<mapsto> ph)) c' \<noteq> Some Panicked" for c'
    using np daemon_okD(2) [OF ok] by simp
  show ?thesis
    using ok pn unfolding daemon_ok_def cl sv by blast
qed

lemma ok_take:
  assumes ok: "daemon_ok H p S" and old: "H c = Some (Allocating u)" and al: "Allocate p = (Ok ip, p')"
  shows "daemon_ok (H(c \<mapsto> Responding u ip)) p' S"
proof -
  have t: "take_ip p = (Some ip, p')" using al by (simp add: take_ip_def)
  from pool.take_Some [OF daemon_okD(1) [OF ok] t]
  have p': "pool_wf p'" "ip \<notin> held_ips p" "held_ips p' = insert ip (held_ips p)" by auto
  have c: "claims H c = None" using old by (simp add: claims_def)
  have fresh: "claims H c' \<noteq> Some ip" for c' using daemon_okD(4) [OF ok] p'(2) by blast
  show ?thesis
  proof (rule daemon_okI)
    show "pool_wf p'" by (rule p')
    show "\<And>c'. (H(c \<mapsto> Responding u ip)) c' \<noteq> Some Panicked" using daemon_okD(2) [OF ok] by simp
    show "\<And>a b x. claims (H(c \<mapsto> Responding u ip)) a = Some x \<Longrightarrow>
        claims (H(c \<mapsto> Responding u ip)) b = Some x \<Longrightarrow> a = b"
      using daemon_okD(3) [OF ok] fresh by (auto split: if_splits)
    show "\<And>a x. claims (H(c \<mapsto> Responding u ip)) a = Some x \<Longrightarrow> x \<in> held_ips p'"
      using daemon_okD(4) [OF ok] p'(3) by (auto split: if_splits)
    show "\<exists>a. claims (H(c \<mapsto> Responding u ip)) a = Some x" if x: "x \<in> held_ips p'" for x
    proof (cases "x = ip")
      case True
      then show ?thesis by (intro exI [of _ c]) simp
    next
      case False
      then obtain a where "claims H a = Some x" using daemon_okD(5) [OF ok] x p'(3) by blast
      then show ?thesis using c by (intro exI [of _ a]) auto
    qed
  qed (use daemon_okD(6,7) [OF ok] old in \<open>auto split: if_splits\<close>)
qed

lemma ok_give:
  assumes ok: "daemon_ok H p S" and cl: "claims H c = Some ip"
    and ns: "\<And>old. H c = Some old \<Longrightarrow> \<not> is_serving old"
  shows "daemon_ok (H(c \<mapsto> Returned)) (snd (Release p ip)) S"
proof -
  let ?p = "snd (Release p ip)"
  have "ip \<in> held_ips p" by (rule daemon_okD(4) [OF ok cl])
  from pool.give_held [OF daemon_okD(1) [OF ok] this]
  have p': "pool_wf ?p" "held_ips ?p = held_ips p - {ip}" by (auto simp: give_ip_def)
  have only: "claims H a = Some ip \<Longrightarrow> a = c" for a using daemon_okD(3) [OF ok _ cl] .
  show ?thesis
  proof (rule daemon_okI)
    show "pool_wf ?p" by (rule p')
    show "\<And>c'. (H(c \<mapsto> Returned)) c' \<noteq> Some Panicked" using daemon_okD(2) [OF ok] by simp
    show "\<And>a b x. claims (H(c \<mapsto> Returned)) a = Some x \<Longrightarrow>
        claims (H(c \<mapsto> Returned)) b = Some x \<Longrightarrow> a = b"
      using daemon_okD(3) [OF ok] by (auto split: if_splits)
    show "\<And>a x. claims (H(c \<mapsto> Returned)) a = Some x \<Longrightarrow> x \<in> held_ips ?p"
      using daemon_okD(4) [OF ok] only p'(2) by (simp split: if_splits) blast
    show "\<exists>a. claims (H(c \<mapsto> Returned)) a = Some x" if x: "x \<in> held_ips ?p" for x
    proof -
      have "x \<in> held_ips p" and "x \<noteq> ip" using x unfolding p'(2) by simp_all
      then obtain a where a: "claims H a = Some x" using daemon_okD(5) [OF ok] by blast
      with cl \<open>x \<noteq> ip\<close> have "a \<noteq> c" by auto
      with a have "claims (H(c \<mapsto> Returned)) a = Some x" by simp
      then show ?thesis ..
    qed
    show "(H(c \<mapsto> Returned)) c' = Some (Serving k x) \<Longrightarrow>
        x = uint32ToIP k \<and> (\<exists>se. fmlookup S k = Some se \<and> conn se = c' \<and> assignedIP se = x)" for c' k x
      using daemon_okD(6) [OF ok] by (simp split: if_splits)
    show "(H(c \<mapsto> Returned)) (conn se) = Some (Serving k (uint32ToIP k))"
      if "fmlookup S k = Some se" for k se
      using daemon_okD(7) [OF ok that] ns [of "Serving k (uint32ToIP k)"] by (cases "conn se = c") simp_all
  qed
qed

lemma ok_register:
  assumes ok: "daemon_ok H p S" and old: "H c = Some (Registering u (uint32ToIP k))"
    and se: "conn se = c" "assignedIP se = uint32ToIP k"
  shows "daemon_ok (H(c \<mapsto> Serving k (uint32ToIP k))) p (fmupd k se S)"
proof -
  have cl: "claims H c = Some (uint32ToIP k)" using old by (simp add: claims_def)
  then have cl': "claims (H(c \<mapsto> Serving k (uint32ToIP k))) = claims H" by auto
  have free: "fmlookup S k = None"
  proof (rule ccontr)
    assume "fmlookup S k \<noteq> None"
    then obtain x where "fmlookup S k = Some x" by auto
    from daemon_okD(7) [OF ok this] have h: "H (conn x) = Some (Serving k (uint32ToIP k))" .
    then have "claims H (conn x) = Some (uint32ToIP k)" by (simp add: claims_def)
    from daemon_okD(3) [OF ok this cl] h old show False by simp
  qed
  have "H (conn x) \<noteq> Some (Registering u (uint32ToIP k))" if "fmlookup S j = Some x" for j x
    using daemon_okD(7) [OF ok that] by simp
  then have other: "conn x \<noteq> c" if "fmlookup S j = Some x" for j x
    using that old by blast
  have none: "H c' \<noteq> Some (Serving k x)" for c' x
    using daemon_okD(6) [OF ok, of c' k x] free by auto
  show ?thesis
    unfolding daemon_ok_def cl'
    using ok se free other none daemon_okD(6) [OF ok] daemon_okD(7) [OF ok]
    by (auto simp: daemon_ok_def split: if_splits)
qed

lemma ok_end:
  assumes ok: "daemon_ok H p S" and old: "H c = Some (Serving k ip)"
  shows "daemon_ok (H(c \<mapsto> Releasing ip)) p (fmdrop k S)"
proof -
  have cl: "claims (H(c \<mapsto> Releasing ip)) = claims H" using old by (auto simp: claims_def)
  from daemon_okD(6) [OF ok old] have ip: "ip = uint32ToIP k" by simp
  have other: "j \<noteq> k" if "H c' = Some (Serving j x)" "c' \<noteq> c" for c' j x
    using daemon_okD(6) [OF ok that(1)] daemon_okD(6) [OF ok old] that by auto
  have keep: "conn x \<noteq> c" if "fmlookup S j = Some x" "j \<noteq> k" for j x
    using daemon_okD(7) [OF ok that(1)] old that(2) by auto
  show ?thesis
    unfolding daemon_ok_def cl
    using ok other keep daemon_okD(6) [OF ok] daemon_okD(7) [OF ok]
    by (auto simp: daemon_ok_def split: if_splits)
qed

subsection \<open>Every step keeps the invariant\<close>

abbreviation ok_state :: "VPNServer \<Rightarrow> bool" where
  "ok_state s \<equiv> daemon_ok (handlers s) (ipPool s) (sessions s)"

lemma set_phase_simps [simp]:
  "handlers (set_phase c ph s) = (handlers s)(c \<mapsto> ph)" "ipPool (set_phase c ph s) = ipPool s"
  "sessions (set_phase c ph s) = sessions s" "sent (set_phase c ph s) = sent s"
  by (simp_all add: set_phase_def)

lemma send_response_simps [simp]:
  "handlers (send_response c r s) = handlers s" "ipPool (send_response c r s) = ipPool s"
  "sessions (send_response c r s) = sessions s" "sent (send_response c r s) = sent s @ [(c, r)]"
  by (simp_all add: send_response_def)

lemma release_ip_simps [simp]:
  "handlers (release_ip ip s) = handlers s" "ipPool (release_ip ip s) = snd (Release (ipPool s) ip)"
  "sessions (release_ip ip s) = sessions s" "sent (release_ip ip s) = sent s"
  by (simp_all add: release_ip_def)

lemma ok_auth_step:
  assumes "ok_state s" and "handlers s c = Some (Authenticating req)"
  shows "ok_state (auth_step c req f between rf now s)"
proof -
  obtain r d where r: "Authenticate f between rf now (Key req) (HWID req) (accounts s) = (r, d)"
    by fastforce
  have "daemon_ok ((handlers s)(c \<mapsto> Returned)) (ipPool s) (sessions s)"
    "daemon_ok ((handlers s)(c \<mapsto> Allocating u)) (ipPool s) (sessions s)" for u
    by (rule ok_quiet [OF assms(1)]; simp add: assms(2) claims_def)+
  then show ?thesis by (cases r) (simp_all add: auth_step_def r)
qed

lemma ok_alloc_step:
  assumes ok: "ok_state s" and ph: "handlers s c = Some (Allocating u)"
  shows "ok_state (alloc_step c u s)"
using daemon_okD(1) [OF ok]
proof (cases "ipPool s" rule: Allocate_cases)
  case exhausted
  have "daemon_ok ((handlers s)(c \<mapsto> Returned)) (ipPool s) (sessions s)"
    by (rule ok_quiet [OF ok]; simp add: ph claims_def)
  then show ?thesis by (simp add: alloc_step_def exhausted)
next
  case (granted k h)
  from ok_take [OF ok ph this(1)] show ?thesis by (simp add: alloc_step_def granted(1))
qed

lemma ok_respond_step:
  assumes ok: "ok_state s" and ph: "handlers s c = Some (Responding u ip)"
  shows "ok_state (respond_step c u ip b s)"
proof (cases b)
  case True
  have "daemon_ok ((handlers s)(c \<mapsto> Registering u ip)) (ipPool s) (sessions s)"
    by (rule ok_quiet [OF ok]; simp add: ph claims_def)
  then show ?thesis using True by (simp add: respond_step_def)
next
  case False
  have "daemon_ok ((handlers s)(c \<mapsto> Returned)) (snd (Release (ipPool s) ip)) (sessions s)"
    by (rule ok_give [OF ok]; simp add: ph claims_def)
  then show ?thesis using False by (simp add: respond_step_def)
qed

lemma ok_register_step:
  assumes ok: "ok_state s" and ph: "handlers s c = Some (Registering u ip)"
  shows "ok_state (register_step fl c u ip now s)"
proof -
  have "claims (handlers s) c = Some ip" using ph by (simp add: claims_def)
  then obtain k where k: "ip = uint32ToIP k"
    using daemon_okD(4) [OF ok] by (auto simp: held_ips_def)
  have "To4 ip = Some ip" "be_u32 ip = Some k"
    by (simp_all add: k uint32ToIP_def To4_def be_simps)
  then show ?thesis
    using ok_register [OF ok ph [unfolded k], of "new_session fl now c u ip"]
    by (simp add: register_step_def new_session_def Let_def k)
qed

lemma ok_step:
  assumes ok: "ok_state s" and st: "daemon_step fl e s = Some s'" and e: "\<forall>ks. e \<noteq> DropSessions ks"
  shows "ok_state s'"
proof (cases e)
  case (Accepted c)
  have "daemon_ok ((handlers s)(c \<mapsto> Accepting)) (ipPool s) (sessions s)" if "handlers s c = None"
    by (rule ok_quiet [OF ok]; simp add: that claims_def)
  then show ?thesis using st Accepted by (auto split: if_splits)
next
  case (StreamAccepted c b)
  have "daemon_ok ((handlers s)(c \<mapsto> (if b then Decoding else Returned))) (ipPool s) (sessions s)"
    if "handlers s c = Some Accepting"
    by (rule ok_quiet [OF ok]; simp add: that claims_def)
  then show ?thesis using st StreamAccepted by (auto split: if_splits)
next
  case (RequestDecoded c r)
  have "daemon_ok ((handlers s)(c \<mapsto> Returned)) (ipPool s) (sessions s)"
    "daemon_ok ((handlers s)(c \<mapsto> Authenticating req)) (ipPool s) (sessions s)"
    if "handlers s c = Some Decoding" for req
    by (rule ok_quiet [OF ok]; simp add: that claims_def)+
  then show ?thesis using st RequestDecoded by (auto split: if_splits option.splits)
next
  case (SessionEnds c)
  then show ?thesis using st ok_end [OF ok] by (auto split: option.splits phase.splits)
next
  case (ReleaseStep c)
  have "daemon_ok ((handlers s)(c \<mapsto> Returned)) (snd (Release (ipPool s) ip)) (sessions s)"
    if "handlers s c = Some (Releasing ip)" for ip
    by (rule ok_give [OF ok]; simp add: that claims_def)
  then show ?thesis using st ReleaseStep by (auto split: option.splits phase.splits)
next
  case (AuthStep c f between rf now)
  then show ?thesis using st ok_auth_step [OF ok] by (auto split: option.splits phase.splits)
next
  case (AllocStep c)
  then show ?thesis using st ok_alloc_step [OF ok] by (auto split: option.splits phase.splits)
next
  case (ResponseSent c b)
  then show ?thesis using st ok_respond_step [OF ok] by (auto split: option.splits phase.splits)
next
  case (RegisterStep c now)
  then show ?thesis using st ok_register_step [OF ok] by (auto split: option.splits phase.splits)
qed (use ok st e in auto)

lemma ok_fresh: "pool_wf p \<Longrightarrow> held p = {} \<Longrightarrow> ok_state (fresh_server d p port)"
  by (rule daemon_okI) (simp_all add: fresh_server_def claims_def held_ips_def)

lemma ok_running: "running fl s0 s \<Longrightarrow> ok_state s0 \<Longrightarrow> ok_state s"
  by (induction rule: running.induct) (auto intro: ok_step)

subsection \<open>Only authenticated connections get a session\<close>

fun phase_user :: "phase \<Rightarrow> User option" where
  "phase_user (Allocating u) = Some u"
| "phase_user (Responding u ip) = Some u"
| "phase_user (Registering u ip) = Some u"
| "phase_user _ = None"

text \<open>
  \<open>Q c u\<close> accounts for the users of the handlers, the sessions and the success responses.
\<close>

definition traced :: "(nat \<Rightarrow> User \<Rightarrow> bool) \<Rightarrow> VPNServer \<Rightarrow> bool" where
  "traced Q s \<longleftrightarrow>
     (\<forall>c ph u. handlers s c = Some ph \<longrightarrow> phase_user ph = Some u \<longrightarrow> Q c u)
     \<and> (\<forall>k se. fmlookup (sessions s) k = Some se \<longrightarrow> Q (conn se) (user se))
     \<and> (\<forall>c r. (c, r) \<in> set (sent s) \<longrightarrow> Status r = ''success'' \<longrightarrow> (\<exists>u. Q c u \<and> KeyForAPI r = APIKey u))"

lemma traced_mono: "traced Q s \<Longrightarrow> (\<And>c u. Q c u \<Longrightarrow> R c u) \<Longrightarrow> traced R s"
  unfolding traced_def by blast

lemma traced_phase:
  assumes "traced Q s" and "\<And>u. phase_user ph = Some u \<Longrightarrow> Q c u"
  shows "traced Q (set_phase c ph s)"
  using assms unfolding traced_def by auto

lemma traced_send:
  assumes "traced Q s" and "Status r = ''success'' \<Longrightarrow> \<exists>u. Q c u \<and> KeyForAPI r = APIKey u"
  shows "traced Q (send_response c r s)"
  using assms unfolding traced_def by auto

lemma traced_other [simp]:
  "traced Q (s\<lparr>accounts := d\<rparr>) = traced Q s" "traced Q (s\<lparr>ipPool := p\<rparr>) = traced Q s"
  "traced Q (s\<lparr>cancelled := b\<rparr>) = traced Q s" "traced Q (release_ip ip s) = traced Q s"
  by (simp_all add: traced_def release_ip_def)

lemma traced_drop:
  "traced Q s \<Longrightarrow> traced Q (s\<lparr>sessions := fmdrop k (sessions s)\<rparr>)"
  by (auto simp: traced_def split: if_splits)

lemma traced_drop_session: "traced Q s \<Longrightarrow> traced Q (drop_session k s)"
  unfolding drop_session_def using traced_drop [of Q "release_ip ip s" k for ip]
  by (auto split: option.split)

lemma traced_drop_sessions: "traced Q s \<Longrightarrow> traced Q (fold drop_session ks s)"
  by (induction ks arbitrary: s) (auto intro: traced_drop_session)

lemma traced_add:
  "traced Q s \<Longrightarrow> Q (conn se) (user se) \<Longrightarrow> traced Q (s\<lparr>sessions := fmupd k se (sessions s)\<rparr>)"
  by (auto simp: traced_def split: if_splits)

lemma traced_user: "traced Q s \<Longrightarrow> handlers s c = Some ph \<Longrightarrow> phase_user ph = Some u \<Longrightarrow> Q c u"
  unfolding traced_def by blast

lemma error_not_success [simp]: "Status (error_response m) = ''error''"
  by (simp add: error_response_def)

lemma traced_auth_step:
  assumes "traced Q s" and "\<And>u d. Authenticate f b rf now (Key req) (HWID req) (accounts s) = (Inr u, d) \<Longrightarrow> Q c u"
  shows "traced Q (auth_step c req f b rf now s)"
  using assms by (auto simp: auth_step_def split: prod.split sum.split intro!: traced_phase traced_send)

lemma traced_alloc_step: "traced Q s \<Longrightarrow> Q c u \<Longrightarrow> traced Q (alloc_step c u s)"
  by (auto simp: alloc_step_def split: prod.split outcome.split intro!: traced_phase traced_send)

lemma traced_respond_step:
  assumes "traced Q s" and "Q c u"
  shows "traced Q (respond_step c u ip b s)"
proof -
  have "KeyForAPI (success_response s u ip) = APIKey u" by (simp add: success_response_def)
  with assms show ?thesis by (cases b) (auto simp: respond_step_def intro!: traced_phase traced_send)
qed

lemma traced_register_step: "traced Q s \<Longrightarrow> Q c u \<Longrightarrow> traced Q (register_step fl c u ip now s)"
  by (auto simp: register_step_def new_session_def Let_def split: option.split intro!: traced_phase traced_add)

lemma traced_step:
  assumes tr: "traced Q s" and st: "daemon_step fl e s = Some s'"
    and auth: "\<And>c f b rf now req u d. e = AuthStep c f b rf now \<Longrightarrow>
      handlers s c = Some (Authenticating req) \<Longrightarrow>
      Authenticate f b rf now (Key req) (HWID req) (accounts s) = (Inr u, d) \<Longrightarrow> Q c u"
  shows "traced Q s'"
proof (cases e)
  case (AuthStep c f b rf now)
  with st obtain req where h: "handlers s c = Some (Authenticating req)"
    and s': "s' = auth_step c req f b rf now s" by (auto split: option.splits phase.splits)
  show ?thesis unfolding s' by (rule traced_auth_step [OF tr auth [OF AuthStep h]])
next
  case (AllocStep c)
  with st show ?thesis using traced_alloc_step [OF tr] traced_user [OF tr] by (auto split: option.splits phase.splits)
next
  case (ResponseSent c b)
  with st show ?thesis using traced_respond_step [OF tr] traced_user [OF tr] by (auto split: option.splits phase.splits)
next
  case (RegisterStep c now)
  with st show ?thesis using traced_register_step [OF tr] traced_user [OF tr] by (auto split: option.splits phase.splits)
next
  case (SessionEnds c)
  with st obtain k ip where "s' = set_phase c (Releasing ip) (s\<lparr>sessions := fmdrop k (sessions s)\<rparr>)"
    by (auto split: option.splits phase.splits)
  then show ?thesis using tr by (auto intro!: traced_phase traced_drop)
next
  case (ReleaseStep c)
  with st obtain ip where "s' = set_phase c Returned (release_ip ip s)"
    by (auto split: option.splits phase.splits)
  then show ?thesis using tr by (auto intro!: traced_phase)
next
  case (Accepted c)
  then show ?thesis using st tr by (auto intro: traced_phase split: if_splits)
next
  case (StreamAccepted c b)
  then show ?thesis using st tr by (auto intro!: traced_phase split: if_splits)
next
  case (RequestDecoded c r)
  then show ?thesis using st tr by (auto intro!: traced_phase traced_send split: if_splits option.splits)
next
  case (DropSessions ks)
  then show ?thesis using st tr by (auto intro: traced_drop_sessions split: if_splits)
qed (use st tr in auto)

definition authenticated_in ::
  "(rat \<Rightarrow> rat) \<Rightarrow> VPNServer \<Rightarrow> event list \<Rightarrow> nat \<Rightarrow> User \<Rightarrow> bool" where
  "authenticated_in fl s0 es c u \<longleftrightarrow>
     (\<exists>es1 f between rf now es2 s1 req d.
        es = es1 @ AuthStep c f between rf now # es2 \<and> daemon_run fl es1 s0 = Some s1
        \<and> handlers s1 c = Some (Authenticating req)
        \<and> Authenticate f between rf now (Key req) (HWID req) (accounts s1) = (Inr u, d))"

lemma daemon_run_snoc:
  "daemon_run fl (es @ [e]) s0 = Option.bind (daemon_run fl es s0) (daemon_step fl e)"
  by (induction es arbitrary: s0) (auto split: option.split)

lemma authenticated_in_snoc:
  "authenticated_in fl s0 es c u \<Longrightarrow> authenticated_in fl s0 (es @ [e]) c u"
  unfolding authenticated_in_def by (metis append.assoc append_Cons)

lemma traced_run:
  "daemon_run fl es (fresh_server d p port) = Some s \<Longrightarrow>
   traced (authenticated_in fl (fresh_server d p port) es) s"
proof (induction es arbitrary: s rule: rev_induct)
  case Nil
  then have "s = fresh_server d p port" by simp
  then show ?case by (simp add: traced_def fresh_server_def)
next
  case (snoc e es)
  then obtain t where t: "daemon_run fl es (fresh_server d p port) = Some t"
    and st: "daemon_step fl e t = Some s"
    by (auto simp: daemon_run_snoc split: Option.bind_splits)
  have "traced (authenticated_in fl (fresh_server d p port) (es @ [e])) t"
    by (rule traced_mono [OF snoc.IH [OF t] authenticated_in_snoc])
  then show ?case
  proof (rule traced_step [OF _ st])
    fix c f b rf now req u d'
    assume "e = AuthStep c f b rf now" "handlers t c = Some (Authenticating req)"
      "Authenticate f b rf now (Key req) (HWID req) (accounts t) = (Inr u, d')"
    with t show "authenticated_in fl (fresh_server d p port) (es @ [e]) c u"
      unfolding authenticated_in_def by blast
  qed
qed

subsection \<open>Properties\<close>

text \<open>
  C1: As long as \<open>Close\<close> has not dropped the sessions, in every interleaving of the connection
  handlers no two of them hold the same address, the pool records exactly the addresses the
  handlers hold, the session table maps an address to the session of the one handler that
  serves it, and no handler has panicked.
\<close>

theorem sessions_exclusive:
  assumes "pool_wf p" and "held p = {}" and "running fl (fresh_server d p port) s"
  shows "(\<forall>c c' ip. claims (handlers s) c = Some ip \<and> claims (handlers s) c' = Some ip \<longrightarrow> c = c')
     \<and> held_ips (ipPool s) = {ip. \<exists>c. claims (handlers s) c = Some ip}
     \<and> (\<forall>k. (fmlookup (sessions s) k = None) = (\<forall>c ip. handlers s c \<noteq> Some (Serving k ip)))
     \<and> (\<forall>k se. fmlookup (sessions s) k = Some se \<longrightarrow> assignedIP se = uint32ToIP k
          \<and> handlers s (conn se) = Some (Serving k (uint32ToIP k)))
     \<and> (\<forall>c. handlers s c \<noteq> Some Panicked)"
proof -
  have ok: "ok_state s" by (rule ok_running [OF assms(3) ok_fresh [OF assms(1,2)]])
  have table: "handlers s (conn se) = Some (Serving k (uint32ToIP k)) \<and> assignedIP se = uint32ToIP k"
    if "fmlookup (sessions s) k = Some se" for k se
    using daemon_okD(7) [OF ok that] daemon_okD(6) [OF ok daemon_okD(7) [OF ok that]] that by auto
  have "(fmlookup (sessions s) k = None) = (\<forall>c ip. handlers s c \<noteq> Some (Serving k ip))" for k
    using daemon_okD(6) [OF ok] table by (cases "fmlookup (sessions s) k") fastforce+
  moreover have "held_ips (ipPool s) = {ip. \<exists>c. claims (handlers s) c = Some ip}"
    using daemon_okD(4,5) [OF ok] by blast
  moreover have "c = c'" if "claims (handlers s) c = Some ip" "claims (handlers s) c' = Some ip" for c c' ip
    using daemon_okD(3) [OF ok that] .
  ultimately show ?thesis using table daemon_okD(2) [OF ok] by blast
qed

lemma running_run:
  assumes "daemon_run fl es s0 = Some s" and "list_all (\<lambda>e. \<forall>ks. e \<noteq> DropSessions ks) es"
  shows "running fl s0 s"
  using assms
proof (induction es arbitrary: s rule: rev_induct)
  case Nil
  then show ?case by (simp add: running_start)
next
  case (snoc e es)
  then obtain t where "daemon_run fl es s0 = Some t" "daemon_step fl e t = Some s"
    by (auto simp: daemon_run_snoc split: Option.bind_splits)
  with snoc show ?case by (auto intro: running_step)
qed

definition login :: "nat \<Rightarrow> string \<Rightarrow> string \<Rightarrow> event list" where
  "login c k h = [Accepted c, StreamAccepted c True, RequestDecoded c (Some \<lparr>Key = k, HWID = h\<rparr>),
     AuthStep c None [] (\<lambda>_. None) 9]"

definition join :: "nat \<Rightarrow> event list" where
  "join c = [AllocStep c, ResponseSent c True, RegisterStep c 10]"

definition two_clients :: "event list" where
  "two_clients = login 1 ''k2'' ''h1'' @ login 2 ''k1'' ''h2'' @ join 1 @ join 2 @ [SessionEnds 1]"

definition sample_server :: VPNServer where
  "sample_server = fresh_server
     (db_run [OpCreateUser None 1 ''ann'' ''k1'' ''a1'' ''owner'' 2 0,
        OpCreateUser None 2 ''bob'' ''k2'' ''a2'' ''user'' 2 0] empty_db) sample_pool 51821"

theorem sessions_exclusive_witness:
  "\<exists>s. daemon_run grid two_clients sample_server = Some s
     \<and> held_ips (ipPool s) = {ip. \<exists>c. claims (handlers s) c = Some ip}
     \<and> claims (handlers s) 1 = Some [10, 8, 0, 2] \<and> claims (handlers s) 2 = Some [10, 8, 0, 3]"
proof -
  have r: "(case daemon_run grid two_clients sample_server of None \<Rightarrow> False
      | Some s \<Rightarrow> claims (handlers s) 1 = Some [10, 8, 0, 2] \<and> claims (handlers s) 2 = Some [10, 8, 0, 3])"
    by code_simp
  then obtain s where s: "daemon_run grid two_clients sample_server = Some s"
    "claims (handlers s) 1 = Some [10, 8, 0, 2]" "claims (handlers s) 2 = Some [10, 8, 0, 3]"
    by (auto split: option.splits)
  have "running grid sample_server s"
    by (rule running_run [OF s(1)]) (simp add: two_clients_def login_def join_def)
  moreover have "held sample_pool = {}" by (simp add: sample_pool_def held_def)
  ultimately have "held_ips (ipPool s) = {ip. \<exists>c. claims (handlers s) c = Some ip}"
    using sessions_exclusive [OF sample_pool_wf] unfolding sample_server_def by blast
  with s show ?thesis by blast
qed

lemma returned_empty:
  assumes ok: "ok_state s" and ret: "\<And>c. handlers s c = None \<or> handlers s c = Some Returned"
  shows "held (ipPool s) = {} \<and> sessions s = fmempty"
proof -
  have none: "claims (handlers s) c = None" for c
    using ret [of c] by (auto simp: claims_def)
  have "held_ips (ipPool s) = {}"
  proof (rule ccontr)
    assume "held_ips (ipPool s) \<noteq> {}"
    then obtain ip where "ip \<in> held_ips (ipPool s)" by blast
    from daemon_okD(5) [OF ok this] none show False by simp
  qed
  moreover have "fmlookup (sessions s) k = None" for k
  proof (cases "fmlookup (sessions s) k")
    case (Some se)
    from daemon_okD(7) [OF ok this] ret [of "conn se"] show ?thesis by simp
  qed simp
  then have "sessions s = fmempty" by (intro fmap_ext) simp
  ultimately show ?thesis by (simp add: held_ips_def)
qed



text \<open>
  No session without authentication. In any run of the server, with \<open>Close\<close> and all errors
  included, every session in the table and every success response sent belongs to a
  connection for which \<open>Authenticate\<close> succeeded earlier in the run, with the account it
  returned; the API key in the response is that account's.
\<close>

theorem sessions_authenticated:
  assumes "daemon_run fl es (fresh_server d p port) = Some s"
  shows "(\<forall>k se. fmlookup (sessions s) k = Some se \<longrightarrow>
            authenticated_in fl (fresh_server d p port) es (conn se) (user se))
     \<and> (\<forall>c r. (c, r) \<in> set (sent s) \<and> Status r = ''success'' \<longrightarrow>
            (\<exists>u. authenticated_in fl (fresh_server d p port) es c u \<and> KeyForAPI r = APIKey u))"
  using traced_run [OF assms] unfolding traced_def by blast

theorem sessions_authenticated_witness:
  "\<exists>u. authenticated_in grid sample_server two_clients 2 u"
proof -
  have "(case daemon_run grid two_clients sample_server of None \<Rightarrow> False
      | Some s \<Rightarrow> (case fmlookup (sessions s) 0x0A080003 of None \<Rightarrow> False | Some se \<Rightarrow> conn se = 2))"
    by code_simp
  then obtain s se where "daemon_run grid two_clients sample_server = Some s"
    "fmlookup (sessions s) 0x0A080003 = Some se" "conn se = 2"
    by (auto split: option.splits)
  then show ?thesis
    using sessions_authenticated [of grid two_clients _ _ _ s] unfolding sample_server_def by metis
qed


end
