(* ===== verification/Data_Plane.thy ===== *)
theory Data_Plane
  imports Daemon
begin

section \<open>The data plane of the daemon (server/daemon/daemon.go)\<close>

text \<open>
  \<open>dataReadLoop\<close> carries packets from the clients to the TUN device, \<open>tunReadLoop\<close> from the
  device to the clients. One iteration of a loop is one step; it reads and writes the session
  table through the session found there. What arrives is a list of events of the socket or the
  device. The clock and, for the pooled buffer of an iteration, its old contents are functions
  of the number of the iteration, and \<open>done\<close> tells in which iterations the context of the
  server is found cancelled.
\<close>

definition data_buf_size :: nat where
  "data_buf_size = nat DefaultMTU + 100"

type_synonym session_table = "(u32, ClientSession) fmap"

text \<open>What an iteration does: wait for ever, end the loop, or go on.\<close>

datatype 'a iteration = Blocked | Ends | GoesOn 'a

text \<open>
  An iteration of \<open>dataReadLoop\<close>: the changed table, the packet written to the TUN device if
  one is, and the socket events left. A write error of the device is only logged.
\<close>

definition data_read_step ::
  "(rat \<Rightarrow> rat) \<Rightarrow> int \<Rightarrow> bool \<Rightarrow> aead \<Rightarrow> bytes \<Rightarrow> sock_event list \<Rightarrow> session_table
     \<Rightarrow> (session_table \<times> bytes option \<times> sock_event list) iteration" where
  "data_read_step fl now tun ob buf evs S =
     (case ReadFrom ob buf evs of
        None \<Rightarrow> Blocked
      | Some (Panic, _, _) \<Rightarrow> Ends
      | Some (Err e, _, _) \<Rightarrow> Ends
      | Some (Ok (n, addr), buf', evs') \<Rightarrow>
          let pkt = take n buf' in
          (case SrcIPUint32 pkt of
             Panic \<Rightarrow> Ends
           | Err e \<Rightarrow> GoesOn (S, None, evs')
           | Ok srcKey \<Rightarrow>
               (case fmlookup S srcKey of
                  None \<Rightarrow> GoesOn (S, None, evs')
                | Some sess \<Rightarrow>
                    let (ok, lim) = Allow fl now (int (length pkt)) (upLimiter sess);
                        sess = sess\<lparr>upLimiter := lim\<rparr>
                    in if \<not> ok then GoesOn (fmupd srcKey sess S, None, evs')
                       else GoesOn (fmupd srcKey (sess\<lparr>clientAddr := Some addr\<rparr>) S,
                                    if tun then Some pkt else None, evs'))))"

text \<open>\<open>ReadFrom\<close> takes at least one event, so the loop ends with its events.\<close>

lemma ReadFrom_shorter: "ReadFrom ob p evs = Some (r, p', rest) \<Longrightarrow> length rest < length evs"
proof (induction ob p evs rule: ReadFrom.induct)
  case (3 ob p d a evs)
  then show ?case
    by (auto simp: copy_into_def Let_def split: outcome.splits)
qed auto

lemma data_read_step_shorter:
  "data_read_step fl now tun ob buf evs S = GoesOn (S', w, evs') \<Longrightarrow> length evs' < length evs"
  using ReadFrom_shorter [of ob buf evs]
  by (auto simp: data_read_step_def Let_def split: option.splits prod.splits outcome.splits if_splits)

text \<open>The loop from iteration \<open>i\<close>: the table at its end and the packets written to the device.\<close>

function dataReadLoop ::
  "(rat \<Rightarrow> rat) \<Rightarrow> (nat \<Rightarrow> bool) \<Rightarrow> (nat \<Rightarrow> int) \<Rightarrow> (nat \<Rightarrow> bytes) \<Rightarrow> bool \<Rightarrow> aead \<Rightarrow> nat
     \<Rightarrow> sock_event list \<Rightarrow> session_table \<Rightarrow> session_table \<times> bytes list" where
  "dataReadLoop fl done_at now bufs tun ob i evs S =
     (if done_at i then (S, [])
      else case data_read_step fl (now i) tun ob (bufs i) evs S of
        Blocked \<Rightarrow> (S, [])
      | Ends \<Rightarrow> (S, [])
      | GoesOn (S', w, evs') \<Rightarrow>
          (let (S'', ws) = dataReadLoop fl done_at now bufs tun ob (Suc i) evs' S'
           in (S'', (case w of None \<Rightarrow> ws | Some pkt \<Rightarrow> pkt # ws))))"
  by pat_completeness auto

termination
  by (relation "measure (\<lambda>(fl, done_at, now, bufs, tun, ob, i, evs, S). length evs)")
     (auto dest: data_read_step_shorter)

declare dataReadLoop.simps [simp del]

text \<open>
  The TUN device: an error or a packet, of which \<open>Read\<close> returns what fits the buffer. An
  iteration of \<open>tunReadLoop\<close> gives the table and the datagrams handed to the socket; \<open>obuf\<close> is
  the pooled buffer of \<open>WriteTo\<close>, \<open>rnd\<close> its random draw, \<open>sock\<close> the error of the socket.
\<close>

datatype tun_event = TunError string | TunPacket bytes

definition tun_read_step ::
  "(rat \<Rightarrow> rat) \<Rightarrow> int \<Rightarrow> aead \<Rightarrow> bytes \<Rightarrow> bytes option \<times> bytes \<Rightarrow> string option \<Rightarrow> tun_event
     \<Rightarrow> session_table \<Rightarrow> (session_table \<times> (bytes \<times> addr) list) iteration" where
  "tun_read_step fl now ob obuf rnd sock ev S =
     (case ev of
        TunError e \<Rightarrow> Ends
      | TunPacket p \<Rightarrow>
          let pkt = take data_buf_size p in
          (case DstIPUint32 pkt of
             Panic \<Rightarrow> Ends
           | Err e \<Rightarrow> GoesOn (S, [])
           | Ok dstKey \<Rightarrow>
               (case fmlookup S dstKey of
                  None \<Rightarrow> GoesOn (S, [])
                | Some sess \<Rightarrow>
                    let (ok, lim) = Allow fl now (int (length pkt)) (downLimiter sess);
                        S' = fmupd dstKey (sess\<lparr>downLimiter := lim\<rparr>) S
                    in if \<not> ok then GoesOn (S', [])
                       else (case clientAddr sess of
                               None \<Rightarrow> GoesOn (S', [])
                             | Some to \<Rightarrow>
                                 (case WriteTo ob obuf rnd sock pkt to of
                                    (Panic, _) \<Rightarrow> Ends
                                  | (_, out) \<Rightarrow> GoesOn (S', out))))))"

record tun_draw =
  td_now :: int
  td_buf :: bytes
  td_rnd :: "bytes option \<times> bytes"
  td_sock :: "string option"

fun tunReadLoop ::
  "(rat \<Rightarrow> rat) \<Rightarrow> (nat \<Rightarrow> bool) \<Rightarrow> (nat \<Rightarrow> tun_draw) \<Rightarrow> aead \<Rightarrow> nat \<Rightarrow> tun_event list
     \<Rightarrow> session_table \<Rightarrow> session_table \<times> (bytes \<times> addr) list" where
  "tunReadLoop fl done_at dr ob i [] S = (S, [])"
| "tunReadLoop fl done_at dr ob i (ev # evs) S =
     (if done_at i then (S, [])
      else case tun_read_step fl (td_now (dr i)) ob (td_buf (dr i)) (td_rnd (dr i)) (td_sock (dr i)) ev S of
        Blocked \<Rightarrow> (S, [])
      | Ends \<Rightarrow> (S, [])
      | GoesOn (S', out) \<Rightarrow>
          (let (S'', outs) = tunReadLoop fl done_at dr ob (Suc i) evs S' in (S'', out @ outs)))"

end
