(* ===== verification/Data_Plane_Correct.thy ===== *)
theory Data_Plane_Correct
  imports Data_Plane
begin

section \<open>Correctness of the data plane\<close>

text \<open>
  What may enter the TUN device and what is sent to whom; that a packet from the device
  reaches the client it is addressed to; and that the return address of a session follows
  the last datagram that carries its source address, whoever sent it.
\<close>

text \<open>A successful read comes from one of the events, and the others before it are dropped.\<close>

lemma ReadFrom_Ok:
  assumes "ReadFrom ob p evs = Some (Ok (n, a), p', rest)"
  shows "\<exists>d m. Recv d a \<in> set evs \<and> Deobfuscate ob (take udp_buf_size d) = Ok m
     \<and> take n p' = take (length p) m \<and> set rest \<subseteq> set evs"
  using assms
proof (induction ob p evs rule: ReadFrom.induct)
  case (3 ob p d addr evs)
  show ?case
  proof (cases "Deobfuscate ob (take udp_buf_size d)")
    case (Ok m)
    have "n = snd (copy_into p m)" "p' = fst (copy_into p m)" "a = addr" "rest = evs"
      using 3(2) Ok by (auto split: prod.splits)
    then show ?thesis using Ok take_copy_into [of p m] by (intro exI [of _ d] exI [of _ m]) auto
  next
    case (Err e)
    with 3 show ?thesis by fastforce
  next
    case Panic
    with 3(2) show ?thesis by simp
  qed
qed auto

text \<open>The source key the code reads, as an option.\<close>

definition src_key :: "bytes \<Rightarrow> u32 option" where
  "src_key pkt = ok_value (SrcIPUint32 pkt)"

lemma data_read_step_session:
  assumes "data_read_step fl now tun ob buf evs S = GoesOn (S', w, evs')"
    and "ReadFrom ob buf evs = Some (Ok (n, a), buf', evs')" and "take n buf' = pkt" and "SrcIPUint32 pkt = Ok k"
    and "fmlookup S k = Some sess" and "Allow fl now (int (length pkt)) (upLimiter sess) = (ok, lm)"
  shows "S' = fmupd k (if ok then sess\<lparr>upLimiter := lm, clientAddr := Some a\<rparr> else sess\<lparr>upLimiter := lm\<rparr>) S"
    and "w = (if ok \<and> tun then Some pkt else None)"
  using assms by (auto simp: data_read_step_def Let_def split: if_splits)

lemma data_read_step_GoesOn:
  assumes "data_read_step fl now tun ob buf evs S = GoesOn (S', w, evs')"
  obtains d a m where "Recv d a \<in> set evs" and "Deobfuscate ob (take udp_buf_size d) = Ok m"
    and "set evs' \<subseteq> set evs" and "fmdom S' = fmdom S"
    and "case w of None \<Rightarrow> True | Some pkt \<Rightarrow> pkt = take (length buf) m \<and> src_key pkt \<in> Some ` fmdom' S"
    and "\<And>k se. fmlookup S' k = Some se \<Longrightarrow> \<exists>old. fmlookup S k = Some old \<and> conn se = conn old
       \<and> user se = user old \<and> assignedIP se = assignedIP old \<and> downLimiter se = downLimiter old
       \<and> (clientAddr se = clientAddr old \<or> clientAddr se = Some a \<and> src_key (take (length buf) m) = Some k)"
proof -
  obtain n a buf' where r: "ReadFrom ob buf evs = Some (Ok (n, a), buf', evs')"
    using assms by (auto simp: data_read_step_def Let_def split: option.splits prod.splits outcome.splits if_splits)
  obtain d m where m: "Recv d a \<in> set evs" "Deobfuscate ob (take udp_buf_size d) = Ok m"
    and t: "take n buf' = take (length buf) m" and sub: "set evs' \<subseteq> set evs"
    using ReadFrom_Ok [OF r] by blast
  let ?pkt = "take (length buf) m"
  show thesis
  proof (cases "src_key ?pkt")
    case None
    with assms have "S' = S" "w = None"
      by (auto simp: data_read_step_def r t src_key_def Let_def split: outcome.splits)
    then show thesis by (intro that [OF m sub]) auto
  next
    case (Some k)
    then have k: "SrcIPUint32 ?pkt = Ok k" by (cases "SrcIPUint32 ?pkt") (auto simp: src_key_def)
    show thesis
    proof (cases "fmlookup S k")
      case None
      with assms k have "S' = S" "w = None" by (auto simp: data_read_step_def r t Let_def)
      then show thesis by (intro that [OF m sub]) auto
    next
      case (Some sess)
      obtain ok lim where al: "Allow fl now (int (length ?pkt)) (upLimiter sess) = (ok, lim)" by fastforce
      note S' = data_read_step_session [OF assms r t k Some al]
      have "k |\<in>| fmdom S" using Some by (rule fmdomI)
      then have "fmdom S' = fmdom S" "case w of None \<Rightarrow> True | Some pkt \<Rightarrow> pkt = ?pkt \<and> src_key pkt \<in> Some ` fmdom' S"
        using k by (auto simp: S' src_key_def fmdom'_alt_def)
      then show thesis
        using Some k by (intro that [OF m sub]) (auto simp: S'(1) src_key_def split: if_splits)
    qed
  qed
qed

subsection \<open>What the loop admits\<close>

text \<open>A datagram of the list that deobfuscates to a payload whose packet has source key \<open>k\<close>.\<close>

definition carries :: "aead \<Rightarrow> sock_event list \<Rightarrow> u32 \<Rightarrow> bytes \<Rightarrow> addr \<Rightarrow> bool" where
  "carries ob evs k pkt a \<longleftrightarrow>
     (\<exists>d m. Recv d a \<in> set evs \<and> Deobfuscate ob (take udp_buf_size d) = Ok m
        \<and> pkt = take data_buf_size m \<and> SrcIPUint32 pkt = Ok k)"

lemma carries_mono: "carries ob evs' k pkt a \<Longrightarrow> set evs' \<subseteq> set evs \<Longrightarrow> carries ob evs k pkt a"
  unfolding carries_def by blast

lemma src_key_Some: "src_key pkt = Some k \<longleftrightarrow> SrcIPUint32 pkt = Ok k"
  by (cases "SrcIPUint32 pkt") (simp_all add: src_key_def)

definition follows_from :: "aead \<Rightarrow> sock_event list \<Rightarrow> session_table \<Rightarrow> session_table \<Rightarrow> bool" where
  "follows_from ob evs S S' \<longleftrightarrow> fmdom S' = fmdom S
     \<and> (\<forall>k se. fmlookup S' k = Some se \<longrightarrow> (\<exists>old. fmlookup S k = Some old \<and> conn se = conn old
          \<and> user se = user old \<and> assignedIP se = assignedIP old \<and> downLimiter se = downLimiter old
          \<and> (clientAddr se = clientAddr old \<or> (\<exists>a pkt. clientAddr se = Some a \<and> carries ob evs k pkt a))))"

lemma follows_refl: "follows_from ob evs S S"
  by (simp add: follows_from_def)

lemma follows_trans:
  assumes "follows_from ob evs S S'" and "follows_from ob evs' S' S''" and "set evs' \<subseteq> set evs"
  shows "follows_from ob evs S S''"
  unfolding follows_from_def
proof (intro conjI allI impI)
  show "fmdom S'' = fmdom S" using assms(1,2) by (simp add: follows_from_def)
  fix k se assume "fmlookup S'' k = Some se"
  then obtain mid where mid: "fmlookup S' k = Some mid" "conn se = conn mid" "user se = user mid"
      "assignedIP se = assignedIP mid" "downLimiter se = downLimiter mid"
      "clientAddr se = clientAddr mid \<or> (\<exists>a pkt. clientAddr se = Some a \<and> carries ob evs' k pkt a)"
    using assms(2) unfolding follows_from_def by blast
  then obtain old where old: "fmlookup S k = Some old" "conn mid = conn old" "user mid = user old"
      "assignedIP mid = assignedIP old" "downLimiter mid = downLimiter old"
      "clientAddr mid = clientAddr old \<or> (\<exists>a pkt. clientAddr mid = Some a \<and> carries ob evs k pkt a)"
    using assms(1) unfolding follows_from_def by blast
  have "clientAddr se = clientAddr old \<or> (\<exists>a pkt. clientAddr se = Some a \<and> carries ob evs k pkt a)"
    using mid(6) old(6) carries_mono [OF _ assms(3)] by fastforce
  then show "\<exists>old. fmlookup S k = Some old \<and> conn se = conn old
       \<and> user se = user old \<and> assignedIP se = assignedIP old \<and> downLimiter se = downLimiter old
       \<and> (clientAddr se = clientAddr old \<or> (\<exists>a pkt. clientAddr se = Some a \<and> carries ob evs k pkt a))"
    using mid old by auto
qed

lemma data_read_step_follows:
  assumes "data_read_step fl now tun ob buf evs S = GoesOn (S', w, evs')" and "length buf = data_buf_size"
  shows "follows_from ob evs S S' \<and> set evs' \<subseteq> set evs
     \<and> (\<forall>pkt. w = Some pkt \<longrightarrow> (\<exists>k a. k \<in> fmdom' S \<and> carries ob evs k pkt a))"
proof -
  obtain d a m where g: "Recv d a \<in> set evs" "Deobfuscate ob (take udp_buf_size d) = Ok m"
      "set evs' \<subseteq> set evs" "fmdom S' = fmdom S"
      "case w of None \<Rightarrow> True | Some pkt \<Rightarrow> pkt = take (length buf) m \<and> src_key pkt \<in> Some ` fmdom' S"
    and s: "\<And>k se. fmlookup S' k = Some se \<Longrightarrow> \<exists>old. fmlookup S k = Some old \<and> conn se = conn old
       \<and> user se = user old \<and> assignedIP se = assignedIP old \<and> downLimiter se = downLimiter old
       \<and> (clientAddr se = clientAddr old \<or> clientAddr se = Some a \<and> src_key (take (length buf) m) = Some k)"
    by (rule data_read_step_GoesOn [OF assms(1)]) blast
  have c: "carries ob evs k (take data_buf_size m) a" if "src_key (take (length buf) m) = Some k" for k
    unfolding carries_def using g(1,2) that assms(2) by (auto simp: src_key_Some)
  have "follows_from ob evs S S'"
    unfolding follows_from_def using g(4) s c by (metis (no_types, lifting))
  moreover have "\<exists>k a. k \<in> fmdom' S \<and> carries ob evs k pkt a" if wp: "w = Some pkt" for pkt
  proof -
    obtain k where "k \<in> fmdom' S" "src_key (take data_buf_size m) = Some k" "pkt = take data_buf_size m"
      using g(5) wp assms(2) by auto
    moreover from this have "carries ob evs k pkt a" using c [of k] by (simp add: assms(2))
    ultimately show ?thesis by blast
  qed
  ultimately show ?thesis using g(3) by blast
qed

lemma dataReadLoop_follows:
  assumes "\<And>j. length (bufs j) = data_buf_size" and "dataReadLoop fl dn now bufs tun ob i evs S = (S', ws)"
  shows "follows_from ob evs S S' \<and> (\<forall>pkt \<in> set ws. \<exists>k a. k \<in> fmdom' S \<and> carries ob evs k pkt a)"
  using assms
proof (induction fl dn now bufs tun ob i evs S arbitrary: S' ws rule: dataReadLoop.induct)
  case (1 fl dn now bufs tun ob i evs S)
  show ?case
  proof (cases "dn i")
    case True
    with 1(3) show ?thesis by (simp add: dataReadLoop.simps [of fl dn now bufs tun ob i] follows_refl)
  next
    case False
    show ?thesis
    proof (cases "data_read_step fl (now i) tun ob (bufs i) evs S")
      case (GoesOn x)
      obtain S1 w evs1 where x: "x = (S1, w, evs1)" by (cases x)
      obtain S2 ws2 where r: "dataReadLoop fl dn now bufs tun ob (Suc i) evs1 S1 = (S2, ws2)" by fastforce
      have res: "S' = S2" "ws = (case w of None \<Rightarrow> ws2 | Some pkt \<Rightarrow> pkt # ws2)"
        using 1(3) False GoesOn x r by (simp_all add: dataReadLoop.simps [of fl dn now bufs tun ob i])
      have step: "follows_from ob evs S S1" "set evs1 \<subseteq> set evs"
          "\<And>pkt. w = Some pkt \<Longrightarrow> \<exists>k a. k \<in> fmdom' S \<and> carries ob evs k pkt a"
        using data_read_step_follows [OF GoesOn [unfolded x] 1(2)] by blast+
      have rest: "follows_from ob evs1 S1 S2"
          "\<And>pkt. pkt \<in> set ws2 \<Longrightarrow> \<exists>k a. k \<in> fmdom' S1 \<and> carries ob evs1 k pkt a"
        using "1.IH" [OF False GoesOn x [symmetric] refl 1(2) r] by blast+
      have dom: "fmdom' S1 = fmdom' S" using step(1) by (simp add: follows_from_def fmdom'_alt_def)
      have "follows_from ob evs S S'"
        unfolding res(1) by (rule follows_trans [OF step(1) rest(1) step(2)])
      moreover have "\<exists>k a. k \<in> fmdom' S \<and> carries ob evs k pkt a" if "pkt \<in> set ws" for pkt
      proof (cases "w = Some pkt")
        case False
        then have "pkt \<in> set ws2" using that by (auto simp: res(2) split: option.splits)
        then show ?thesis using rest(2) dom carries_mono [OF _ step(2)] by blast
      qed (use step(3) in blast)
      ultimately show ?thesis by blast
    qed (use 1(3) False in \<open>simp_all add: dataReadLoop.simps [of fl dn now bufs tun ob i] follows_refl\<close>)
  qed
qed

text \<open>
  C5: Whatever the socket delivers, every packet the loop writes to the TUN device is the
  payload of a received datagram that passed deobfuscation and carries the address of a
  registered session as its source. The loop adds and removes no session, changes nothing of
  a session but its rate limiter and its return address, and the return address only to the
  sender of such a datagram with that session's source address.
\<close>

theorem dataReadLoop_admits:
  assumes "\<And>j. length (bufs j) = data_buf_size"
  shows "case dataReadLoop fl dn now bufs tun ob 0 evs S of (S', ws) \<Rightarrow>
      fmdom S' = fmdom S
    \<and> (\<forall>pkt \<in> set ws. \<exists>k a. k \<in> fmdom' S \<and> carries ob evs k pkt a)
    \<and> (\<forall>k se. fmlookup S' k = Some se \<longrightarrow> (\<exists>old. fmlookup S k = Some old
         \<and> conn se = conn old \<and> user se = user old \<and> assignedIP se = assignedIP old
         \<and> downLimiter se = downLimiter old
         \<and> (clientAddr se = clientAddr old \<or> (\<exists>a pkt. clientAddr se = Some a \<and> carries ob evs k pkt a))))"
proof -
  obtain S' ws where r: "dataReadLoop fl dn now bufs tun ob 0 evs S = (S', ws)" by fastforce
  from dataReadLoop_follows [OF assms r] show ?thesis
    unfolding r follows_from_def by simp
qed

definition sample_table :: session_table where
  "sample_table = fmupd 0x0A080002 \<lparr>conn = 1, user = \<lparr>ID = 1, Username = [], AccessKey = [], APIKey = [],
     Role = ''user'', DeviceLimit = 1, RateLimit = 0, CreatedAt = 0\<rparr>, assignedIP = [10, 8, 0, 2],
     clientAddr = None, upLimiter = None, downLimiter = None\<rparr> fmempty"

definition client_packet :: bytes where
  "client_packet = makeIPv4Packet [10, 8, 0, 2] [8, 8, 8, 8] 17 [1, 2, 3]"

definition sealed_packet :: bytes where
  "sealed_packet = put_u32 STUNMagic @ replicate 24 7
     @ Seal clear_aead (replicate 24 7) (put_u16 23 @ client_packet @ [0, 0]) (put_u32 STUNMagic)"

lemma sealed_packet_decoded:
  "Deobfuscate clear_aead sealed_packet = Ok client_packet" "length sealed_packet = 71"
  by code_simp+

lemma sample_read:
  "data_read_step grid now True clear_aead (replicate data_buf_size 0) (Recv sealed_packet a # evs) sample_table
     = GoesOn (fmupd 0x0A080002 ((the (fmlookup sample_table 0x0A080002))\<lparr>clientAddr := Some a\<rparr>) sample_table,
         Some client_packet, evs)"
proof -
  have d: "Deobfuscate clear_aead (take udp_buf_size sealed_packet) = Ok client_packet"
    using sealed_packet_decoded by (simp add: udp_buf_size_def)
  have k: "SrcIPUint32 client_packet = Ok 0x0A080002" and l: "length client_packet = 23" by code_simp+
  then show ?thesis
    by (simp add: data_read_step_def d copy_into_def Let_def data_buf_size_def DefaultMTU_def sample_table_def
        Allow_def)
qed

theorem dataReadLoop_admits_witness:
  "\<exists>k a. carries clear_aead [Recv sealed_packet ([192, 0, 2, 1], 9)] k client_packet a
     \<and> k \<in> fmdom' sample_table"
proof -
  let ?run = "dataReadLoop grid (\<lambda>_. False) int (\<lambda>_. replicate data_buf_size 0) True clear_aead 0
    [Recv sealed_packet ([192, 0, 2, 1], 9)] sample_table"
  have "snd ?run = [client_packet]"
    by (simp add: dataReadLoop.simps [of _ _ _ _ _ _ 0] sample_read dataReadLoop.simps [of _ _ _ _ _ _ "Suc 0"])
       (simp add: data_read_step_def)
  then show ?thesis
    using dataReadLoop_admits [where bufs = "\<lambda>_. replicate data_buf_size 0" and fl = grid
        and dn = "\<lambda>_. False" and now = int and tun = True and ob = clear_aead
        and evs = "[Recv sealed_packet ([192, 0, 2, 1], 9)]" and S = sample_table]
    by (auto split: prod.splits)
qed

subsection \<open>What the TUN loop sends\<close>

lemma DstIPUint32_not_panic: "DstIPUint32 pkt \<noteq> Panic"
proof (cases "length pkt < 20")
  case False
  then have "4 \<le> length (subslice 16 20 pkt)" by (simp add: length_subslice)
  then show ?thesis using be_u32_Some [of "subslice 16 20 pkt"] by (auto simp: DstIPUint32_def)
qed (simp add: DstIPUint32_def)

lemma Allow_cases: obtains b lim where "Allow fl now n tb = (b, lim)"
  by fastforce

lemma WriteTo_decodes:
  assumes c: "cipher_ok ob" and fits: "payload_fits rnd m" and b: "length obuf = udp_buf_size"
  shows "\<exists>dg. WriteTo ob obuf rnd None m a = (Ok (length m), [(dg, a)]) \<and> decode_packet ob dg = Some m"
proof -
  obtain nonce where n: "fst rnd = Some nonce" "length nonce = 24"
    and w: "WriteTo ob obuf rnd None m a
       = (Ok (length m), [(wire_packet ob nonce (inner_plaintext m (snd rnd)), a)])"
    and l: "length (wire_packet ob nonce (inner_plaintext m (snd rnd))) = 46 + length m + length (snd rnd)"
    by (rule WriteTo_Ok [OF c fits b])
  have "aead_ok ob" using c by (simp add: cipher_ok_def)
  moreover have "length m < 2 ^ 16" "46 + length m + length (snd rnd) \<le> udp_buf_size"
    using fits by (simp_all add: payload_fits_def draw_ok_def udp_buf_size_def)
  ultimately have "decode_packet ob (wire_packet ob nonce (inner_plaintext m (snd rnd))) = Some m"
    using Deobfuscate_inner [of ob nonce m "snd rnd"] n(2) l by (simp add: decode_packet_def)
  with w show ?thesis by blast
qed

lemma tun_read_session:
  assumes c: "cipher_ok ob" and d: "draw_ok rnd" and b: "length obuf = udp_buf_size"
    and k: "DstIPUint32 (take data_buf_size p) = Ok k" and se: "fmlookup S k = Some sess"
  shows "\<exists>out. tun_read_step fl now ob obuf rnd None (TunPacket p) S
        = GoesOn (fmupd k (sess\<lparr>downLimiter := snd (Allow fl now (int (length (take data_buf_size p))) (downLimiter sess))\<rparr>) S, out)
    \<and> (case clientAddr sess of
         Some a \<Rightarrow> if fst (Allow fl now (int (length (take data_buf_size p))) (downLimiter sess))
                   then \<exists>dg. out = [(dg, a)] \<and> decode_packet ob dg = Some (take data_buf_size p) else out = []
       | None \<Rightarrow> out = [])"
proof -
  let ?pkt = "take data_buf_size p"
  have fits: "payload_fits rnd ?pkt"
    using d by (simp add: payload_fits_def data_buf_size_def DefaultMTU_def udp_buf_size_def)
  obtain ok lim where al: "Allow fl now (int (length ?pkt)) (downLimiter sess) = (ok, lim)"
    by (rule Allow_cases)
  show ?thesis
  proof (cases "ok \<and> clientAddr sess \<noteq> None")
    case True
    then obtain a where a: "clientAddr sess = Some a" and okt: ok by auto
    obtain dg where "WriteTo ob obuf rnd None ?pkt a = (Ok (length ?pkt), [(dg, a)])" "decode_packet ob dg = Some ?pkt"
      using WriteTo_decodes [OF c fits b] by blast
    with k se al a okt show ?thesis by (simp add: tun_read_step_def del: length_take)
  next
    case False
    with k se al show ?thesis by (auto simp: tun_read_step_def Let_def simp del: length_take split: option.split)
  qed
qed

lemma tun_routing_facts:
  assumes c: "cipher_ok ob" and d: "draw_ok rnd" and b: "length obuf = udp_buf_size"
  shows "\<exists>S' out. tun_read_step fl now ob obuf rnd None (TunPacket p) S = GoesOn (S', out)
    \<and> (out \<noteq> [] \<longleftrightarrow> (\<exists>k sess. DstIPUint32 (take data_buf_size p) = Ok k \<and> fmlookup S k = Some sess
          \<and> clientAddr sess \<noteq> None \<and> fst (Allow fl now (int (length (take data_buf_size p))) (downLimiter sess))))
    \<and> (out \<noteq> [] \<longrightarrow> (\<exists>k sess a dg. DstIPUint32 (take data_buf_size p) = Ok k \<and> fmlookup S k = Some sess
          \<and> clientAddr sess = Some a \<and> out = [(dg, a)] \<and> decode_packet ob dg = Some (take data_buf_size p)))
    \<and> fmdom S' = fmdom S
    \<and> (\<forall>k. DstIPUint32 (take data_buf_size p) \<noteq> Ok k \<longrightarrow> fmlookup S' k = fmlookup S k)"
proof -
  let ?pkt = "take data_buf_size p"
  show ?thesis
  proof (cases "DstIPUint32 ?pkt")
    case (Ok k)
    show ?thesis
    proof (cases "fmlookup S k")
      case None
      then show ?thesis using Ok by (simp add: tun_read_step_def)
    next
      case (Some sess)
      have "finsert k (fmdom S) = fmdom S" using fmdomI [OF Some] by (rule finsert_absorb)
      with tun_read_session [OF c d b Ok Some, of fl now] Ok Some show ?thesis
        by (cases "clientAddr sess"; cases "fst (Allow fl now (int (length ?pkt)) (downLimiter sess))")
          (auto simp del: length_take)
    qed
  next
    case (Err e)
    then show ?thesis by (simp add: tun_read_step_def)
  next
    case Panic
    then show ?thesis using DstIPUint32_not_panic by simp
  qed
qed

text \<open>
  C6: A packet read from the device is sent to nobody, or as one datagram to the return address
  of the session whose address is its destination: to that address and no other, and the
  datagram decodes to the packet. It is sent exactly when that session exists, has a return
  address and is within its rate. The table changes in the rate limiter of that session only,
  and the loop goes on.
\<close>

theorem tun_packet_routed:
  assumes c: "cipher_ok ob" and d: "draw_ok rnd" and b: "length obuf = udp_buf_size"
  shows "\<exists>S' out. tun_read_step fl now ob obuf rnd None (TunPacket p) S = GoesOn (S', out)
    \<and> (out \<noteq> [] \<longleftrightarrow> (\<exists>k sess. DstIPUint32 (take data_buf_size p) = Ok k \<and> fmlookup S k = Some sess
          \<and> clientAddr sess \<noteq> None \<and> fst (Allow fl now (int (length (take data_buf_size p))) (downLimiter sess))))
    \<and> (out \<noteq> [] \<longrightarrow> (\<exists>k sess a dg. DstIPUint32 (take data_buf_size p) = Ok k \<and> fmlookup S k = Some sess
          \<and> clientAddr sess = Some a \<and> out = [(dg, a)] \<and> decode_packet ob dg = Some (take data_buf_size p)))
    \<and> fmdom S' = fmdom S
    \<and> (\<forall>k. DstIPUint32 (take data_buf_size p) \<noteq> Ok k \<longrightarrow> fmlookup S' k = fmlookup S k)"
  by (rule tun_routing_facts [OF assms])

definition addressed_table :: session_table where
  "addressed_table = fmupd 0x0A080002
     ((the (fmlookup sample_table 0x0A080002))\<lparr>clientAddr := Some ([192, 0, 2, 1], 9)\<rparr>) sample_table"

definition server_packet :: bytes where
  "server_packet = makeIPv4Packet [8, 8, 8, 8] [10, 8, 0, 2] 17 [4, 5]"

lemma clear_cipher_ok: "cipher_ok clear_aead"
  using clear_aead_ok clear_overhead by (simp add: cipher_ok_def)

lemma sample_draw_ok: "draw_ok (Some (replicate 24 7), [1])"
  by (simp add: draw_ok_def)

lemma server_packet_facts:
  "DstIPUint32 server_packet = Ok 0x0A080002"
  "take data_buf_size server_packet = server_packet"
  by code_simp+

lemma addressed_lookup:
  "\<exists>sess. fmlookup addressed_table 0x0A080002 = Some sess \<and> clientAddr sess = Some ([192, 0, 2, 1], 9)
     \<and> downLimiter sess = None \<and> upLimiter sess = None"
  by (simp add: addressed_table_def sample_table_def)

theorem tun_packet_routed_witness:
  "\<exists>S' dg. tun_read_step grid 0 clear_aead (replicate udp_buf_size 0) (Some (replicate 24 7), [1]) None
        (TunPacket server_packet) addressed_table = GoesOn (S', [(dg, ([192, 0, 2, 1], 9))])
     \<and> decode_packet clear_aead dg = Some server_packet"
proof -
  note routed = tun_packet_routed [OF clear_cipher_ok sample_draw_ok length_replicate [of udp_buf_size 0], where fl = grid and now = 0
      and p = server_packet and S = addressed_table]
  obtain sess where "fmlookup addressed_table 0x0A080002 = Some sess"
    "clientAddr sess = Some ([192, 0, 2, 1], 9)" "downLimiter sess = None"
    using addressed_lookup by blast
  with routed show ?thesis
    by (auto simp: server_packet_facts Allow_def)
qed

subsection \<open>The return address follows the source address\<close>

text \<open>A packet for an unlimited session with a return address.\<close>

lemma tun_read_sends:
  fixes sess :: ClientSession
  assumes c: "cipher_ok ob" and d: "draw_ok rnd" and b: "length obuf = udp_buf_size"
    and p: "DstIPUint32 p = Ok k" "length p \<le> data_buf_size"
    and sess: "fmlookup S k = Some sess" "downLimiter sess = None" "clientAddr sess = Some a"
  shows "\<exists>dg S'. tun_read_step fl now ob obuf rnd None (TunPacket p) S = GoesOn (S', [(dg, a)])
     \<and> decode_packet ob dg = Some p"
proof -
  have t: "take data_buf_size p = p" using p(2) by simp
  show ?thesis
    using tun_routing_facts [OF c d b, of fl now p S] p(1) sess unfolding t by (auto simp: Allow_def)
qed

text \<open>What an unlimited session lets in, from whatever address it comes.\<close>

lemma data_read_accepts:
  fixes sess :: ClientSession
  assumes buf: "length buf = data_buf_size"
    and dec: "decode_packet ob dg = Some pkt" "length pkt \<le> data_buf_size" "SrcIPUint32 pkt = Ok k"
    and sess: "fmlookup S k = Some sess" "upLimiter sess = None"
  shows "data_read_step fl now True ob buf (Recv dg a # evs) S
      = GoesOn (fmupd k (sess\<lparr>clientAddr := Some a\<rparr>) S, Some pkt, evs)"
proof -
  have "take (min (length buf) (length pkt)) (fst (copy_into buf pkt)) = pkt"
    using dec(2) buf take_copy_into [of buf pkt] by (simp add: snd_copy_into)
  moreover have eq: "sess\<lparr>upLimiter := None, clientAddr := Some a\<rparr> = sess\<lparr>clientAddr := Some a\<rparr>"
    using sess(2) by (cases sess) simp
  ultimately show ?thesis
    using sess dec(3) by (simp add: eq data_read_step_def ReadFrom_decoded [OF dec(1)] Let_def Allow_def
        del: ReadFrom.simps)
qed

text \<open>
  C39: A datagram binds a source address to nobody. Whoever can seal a packet under the shared
  key, from any UDP address, with the address of another client's session as its source has
  the packet written to the TUN device in that client's name, and the packets for that client
  are sent to the sender's address from then on. The same datagram, received a second time,
  is accepted and written again.
\<close>

theorem source_spoofing:
  assumes c: "cipher_ok ob" and d: "draw_ok rnd" and b: "length obuf = udp_buf_size"
    and buf: "length buf = data_buf_size"
    and dec: "decode_packet ob dg = Some pkt" "length pkt \<le> data_buf_size" "SrcIPUint32 pkt = Ok k"
    and sess: "fmlookup S k = Some sess" "upLimiter sess = None" "downLimiter sess = None"
    and reply: "DstIPUint32 p = Ok k" "length p \<le> data_buf_size"
  shows "\<exists>S1. data_read_step fl now True ob buf (Recv dg attacker # evs) S = GoesOn (S1, Some pkt, evs)
     \<and> (\<exists>dg' S2. tun_read_step fl now' ob obuf rnd None (TunPacket p) S1 = GoesOn (S2, [(dg', attacker)])
          \<and> decode_packet ob dg' = Some p)
     \<and> (\<exists>S3. data_read_step fl later True ob buf (Recv dg other # evs) S1 = GoesOn (S3, Some pkt, evs))"
proof -
  let ?S1 = "fmupd k (sess\<lparr>clientAddr := Some attacker\<rparr>) S"
  note read = data_read_accepts [OF buf dec]
  have "\<exists>dg' S2. tun_read_step fl now' ob obuf rnd None (TunPacket p) ?S1 = GoesOn (S2, [(dg', attacker)])
      \<and> decode_packet ob dg' = Some p"
    by (rule tun_read_sends [OF c d b reply, where sess = "sess\<lparr>clientAddr := Some attacker\<rparr>"])
      (simp_all add: sess(3))
  with read [OF sess(1,2)] read [of ?S1 "sess\<lparr>clientAddr := Some attacker\<rparr>"] sess(2)
  show ?thesis by (intro exI [of _ ?S1]) auto
qed

theorem source_spoofing_witness:
  "\<exists>S1. data_read_step grid 0 True clear_aead (replicate data_buf_size 0)
        [Recv sealed_packet ([203, 0, 113, 66], 4444)] sample_table = GoesOn (S1, Some client_packet, [])
     \<and> (\<exists>dg' S2. tun_read_step grid 1 clear_aead (replicate udp_buf_size 0) (Some (replicate 24 7), [1]) None
          (TunPacket server_packet) S1 = GoesOn (S2, [(dg', ([203, 0, 113, 66], 4444))]))"
proof -
  have dec: "decode_packet clear_aead sealed_packet = Some client_packet"
    using sealed_packet_decoded by (simp add: decode_packet_def udp_buf_size_def)
  have len: "length client_packet \<le> data_buf_size" "length server_packet \<le> data_buf_size"
    and src: "SrcIPUint32 client_packet = Ok 0x0A080002" by code_simp+
  obtain sess where "fmlookup sample_table 0x0A080002 = Some sess" "upLimiter sess = None" "downLimiter sess = None"
    by (simp add: sample_table_def)
  from source_spoofing [OF clear_cipher_ok sample_draw_ok length_replicate [of udp_buf_size 0]
      length_replicate [of data_buf_size 0] dec len(1) src this server_packet_facts(1) len(2),
      of grid 0 "([203, 0, 113, 66], 4444)" "[]" 1]
  show ?thesis by blast
qed

end
