(* ===== verification/Revocation.thy ===== *)
theory Revocation
  imports Api_Correct Daemon_Correct Data_Plane_Correct
begin

section \<open>Revoking an account: REST API, control plane and data plane together\<close>

text \<open>
  The API and the daemon share only the store. A request that deletes an account or replaces its
  access key changes rows; the handlers of the daemon look at them when a client authenticates
  and never again, and the data plane looks at the session table only. So the old key opens no
  new session, and the sessions that exist go on.
\<close>

subsection \<open>Requests that take a key away\<close>

text \<open>The request deletes the account with this id, or draws a new access key for it.\<close>

definition revokes :: "request \<Rightarrow> int \<Rightarrow> bool" where
  "revokes rq i \<longleftrightarrow>
     (\<exists>idStr. idStr \<noteq> [] \<and> ParseInt64 idStr = Some i
        \<and> ((Method rq = ''DELETE'' \<and> Path rq = [''api'', ''users'', idStr])
           \<or> (Method rq = ''POST'' \<and> Path rq = [''api'', ''users'', idStr, ''reissue-access-key''])))"

definition key_absent :: "string \<Rightarrow> db \<Rightarrow> bool" where
  "key_absent k d \<longleftrightarrow> (\<forall>r \<in> set (users d). access_key r \<noteq> k)"

lemma key_absent_delete:
  assumes "store_ok d" and "r \<in> set (users d)" and "DeleteUser f fk (uid r) d = (None, d')"
  shows "key_absent (access_key r) d'"
proof -
  have "users d' = filter (\<lambda>x. uid x \<noteq> uid r) (users d)"
    using assms(3) by (auto simp: DeleteUser_def split: option.splits)
  moreover have "x = r" if "x \<in> set (users d)" "access_key x = access_key r" for x
    using assms(1,2) that by (auto simp: store_ok_def users_ok_def distinct_map inj_on_def)
  ultimately show ?thesis by (auto simp: key_absent_def)
qed

lemma key_absent_reissue:
  assumes "store_ok d" and "r \<in> set (users d)" and "UpdateUserAccessKey f (uid r) k d = (None, d')" and "k \<noteq> access_key r"
  shows "key_absent (access_key r) d'"
proof -
  have "users d' = map (\<lambda>x. if uid x = uid r then x\<lparr>access_key := k\<rparr> else x) (users d)"
    using assms(3) by (auto simp: UpdateUserAccessKey_def split: option.splits if_splits)
  moreover have "x = r" if "x \<in> set (users d)" "access_key x = access_key r" for x
    using assms(1,2) that by (auto simp: store_ok_def users_ok_def distinct_map inj_on_def)
  ultimately show ?thesis using assms(4) by (auto simp: key_absent_def)
qed

text \<open>A revoking request that is answered with 200 has taken the key away.\<close>

lemma revoked:
  assumes ok: "store_ok d" and r: "r \<in> set (users d)" and rv: "revokes rq (uid r)"
    and st: "fst (fst (serve env srv rq d)) = 200" and k: "generateAccessKey (access_draw env) \<noteq> access_key r"
  shows "key_absent (access_key r) (snd (serve env srv rq d))"
proof -
  have mux: "key_absent (access_key r) (snd (mux env srv rq rl d))" if "fst (fst (mux env srv rq rl d)) = 200" for rl
  proof -
    obtain idStr where id: "idStr \<noteq> []" "ParseInt64 idStr = Some (uid r)"
      and p: "(Method rq = ''DELETE'' \<and> Path rq = [''api'', ''users'', idStr])
           \<or> (Method rq = ''POST'' \<and> Path rq = [''api'', ''users'', idStr, ''reissue-access-key''])"
      using rv by (auto simp: revokes_def)
    from p show ?thesis
    proof
      assume "Method rq = ''DELETE'' \<and> Path rq = [''api'', ''users'', idStr]"
      then have m: "mux env srv rq rl d = deleteUser env rl idStr d" using id(1) by (simp add: mux_def patterns_def)
      show ?thesis
        using that key_absent_delete [OF ok r] unfolding m
        by (auto simp: deleteUser_def id(2) split: sum.splits option.splits prod.splits if_splits)
    next
      assume "Method rq = ''POST'' \<and> Path rq = [''api'', ''users'', idStr, ''reissue-access-key'']"
      then have m: "mux env srv rq rl d = reissueAccessKey env rl idStr d" using id(1) by (simp add: mux_def patterns_def)
      show ?thesis
        using that key_absent_reissue [OF ok r _ k] unfolding m
        by (auto simp: reissueAccessKey_def id(2) Let_def split: sum.splits option.splits prod.splits if_splits)
    qed
  qed
  show ?thesis
    using st mux by (auto simp: serve_def authMiddleware_def split: sum.splits option.splits if_splits)
qed

subsection \<open>The key stays unknown\<close>

text \<open>Operations of the store, and events of the daemon, that would give the key to an account again.\<close>

fun gives_key :: "string \<Rightarrow> db_op \<Rightarrow> bool" where
  "gives_key k (OpCreateUser f now n a p r dl rl) \<longleftrightarrow> a = k"
| "gives_key k (OpUpdateAccessKey f i a) \<longleftrightarrow> a = k"
| "gives_key k _ \<longleftrightarrow> False"

fun event_gives_key :: "string \<Rightarrow> event \<Rightarrow> bool" where
  "event_gives_key k (StoreUsed op) \<longleftrightarrow> gives_key k op"
| "event_gives_key k (AuthStep c f between rf now) \<longleftrightarrow> list_ex (gives_key k) between"
| "event_gives_key k _ \<longleftrightarrow> False"

lemma RegisterDevice_users: "users (snd (RegisterDevice f now i h d)) = users d"
  by (simp add: RegisterDevice_def stmt_def Let_def split: sum.split option.split)

lemma key_absent_step: "key_absent k d \<Longrightarrow> \<not> gives_key k op \<Longrightarrow> key_absent k (db_step op d)"
  by (cases op) (auto simp: key_absent_def RegisterDevice_users CreateUser_def UpdateUserAPIKey_def UpdateUserAccessKey_def
      DeleteUser_def ResetUserDevices_def Let_def split: option.splits if_splits)

lemma key_absent_run: "key_absent k d \<Longrightarrow> \<not> list_ex (gives_key k) ops \<Longrightarrow> key_absent k (db_run ops d)"
  unfolding db_run_def by (induction ops arbitrary: d) (simp_all add: key_absent_step)

lemma Authenticate_users:
  "users (snd (Authenticate f ops rf now key h d)) \<in> {users d, users (db_run ops d)}"
proof (cases "key = [] \<or> h = []")
  case True
  then show ?thesis by (auto simp: Authenticate_def)
next
  case False
  show ?thesis
  proof (cases rule: GetUserByKey_cases [of f key d])
    case (found r)
    obtain e d' where rd: "RegisterDevice rf now (uid r) h (db_run ops d) = (e, d')" by fastforce
    then have "users d' = users (db_run ops d)" using RegisterDevice_users [of rf now "uid r" h "db_run ops d"] by simp
    moreover have "snd (Authenticate f ops rf now key h d) = d'"
      using False found(1) rd by (cases e) (simp_all add: Authenticate_def Let_def)
    ultimately show ?thesis by simp
  qed (use False in \<open>simp_all add: Authenticate_def\<close>)
qed

lemma Authenticate_absent:
  assumes "key_absent key d"
  shows "\<exists>e. Authenticate f ops rf now key h d = (Inl e, d)"
  using assms
  by (cases rule: GetUserByKey_cases [of f key d]) (auto simp: Authenticate_def key_absent_def)

lemma auth_step_users: "accounts (auth_step c req f b rf now s) = snd (Authenticate f b rf now (Key req) (HWID req) (accounts s))"
  by (simp add: auth_step_def set_phase_def send_response_def split: prod.split sum.split)

lemma key_absent_event:
  assumes "daemon_step fl e s = Some s'" and "key_absent k (accounts s)" and "\<not> event_gives_key k e"
  shows "key_absent k (accounts s')"
proof (cases e)
  case (AuthStep c f b rf now)
  then obtain req where s': "s' = auth_step c req f b rf now s"
    using assms(1) by (auto split: option.splits phase.splits)
  have "users (accounts s') \<in> {users (accounts s), users (db_run b (accounts s))}"
    unfolding s' auth_step_users by (rule Authenticate_users)
  then show ?thesis
    using key_absent_run [OF assms(2), of b] assms(2,3) AuthStep by (auto simp: key_absent_def)
next
  case (DropSessions ks)
  have "accounts (fold drop_session ks t) = accounts t" for t
    by (induction ks arbitrary: t) (simp_all add: drop_session_def release_ip_def split: option.split)
  then show ?thesis using assms(1,2) DropSessions by (auto split: if_splits)
next
  case (StoreUsed op)
  then show ?thesis using assms key_absent_step by auto
qed (use assms in \<open>auto simp: set_phase_def send_response_def alloc_step_def respond_step_def register_step_def release_ip_def
    split: if_splits option.splits phase.splits prod.splits outcome.splits\<close>)

lemma key_absent_events:
  "daemon_run fl es s = Some s' \<Longrightarrow> key_absent k (accounts s) \<Longrightarrow> \<not> list_ex (event_gives_key k) es \<Longrightarrow> key_absent k (accounts s')"
  by (induction es arbitrary: s) (auto split: option.splits dest: key_absent_event)

text \<open>
  C29: A revoked access key opens no session. After a request that deletes an account or reissues
  its access key has been answered with 200, and as long as no account is given the old key
  again, every connection that presents the old key is refused at its authentication, whatever
  the other connections and the users of the store did in between: its handler returns with an
  error response, and accounts, pool and session table stay as they are.
\<close>

theorem revoked_key_locked_out:
  assumes "store_ok d" and "r \<in> set (users d)" and "revokes rq (uid r)"
    and "fst (fst (serve env srv rq d)) = 200" and "generateAccessKey (access_draw env) \<noteq> access_key r"
    and "accounts s = snd (serve env srv rq d)" and "daemon_run fl es s = Some s1"
    and "\<not> list_ex (event_gives_key (access_key r)) es"
    and "handlers s1 c = Some (Authenticating req)" and "Key req = access_key r"
    and "daemon_step fl (AuthStep c f between rf now) s1 = Some s2"
  shows "handlers s2 c = Some Returned \<and> sessions s2 = sessions s1 \<and> ipPool s2 = ipPool s1 \<and> accounts s2 = accounts s1
     \<and> (\<exists>resp. sent s2 = sent s1 @ [(c, resp)] \<and> Status resp = ''error'')"
proof -
  have "key_absent (access_key r) (accounts s)" using revoked [OF assms(1-5)] assms(6) by simp
  then have "key_absent (Key req) (accounts s1)" using key_absent_events [OF assms(7) _ assms(8)] assms(10) by simp
  then obtain e where "Authenticate f between rf now (Key req) (HWID req) (accounts s1) = (Inl e, accounts s1)"
    using Authenticate_absent by blast
  then have "s2 = set_phase c Returned (send_response c (error_response (auth_err_text e)) (s1\<lparr>accounts := accounts s1\<rparr>))"
    using assms(9,11) by (simp add: auth_step_def)
  then show ?thesis by (simp add: set_phase_def send_response_def error_response_def)
qed

definition fire_joe :: request where
  "fire_joe = sample_rq ''DELETE'' [''api'', ''users'', ''4''] ''a2''"

definition joe_returns :: "event list" where
  "joe_returns = [Accepted 1, StreamAccepted 1 True, RequestDecoded 1 (Some \<lparr>Key = ''k4'', HWID = ''h1''\<rparr>)]"

theorem revoked_key_locked_out_witness:
  "\<exists>s1 s2. daemon_run grid joe_returns (fresh_server (snd (serve sample_env sample_srv fire_joe staff_db)) sample_pool 51821) = Some s1
     \<and> daemon_step grid (AuthStep 1 None [] (\<lambda>_. None) 9) s1 = Some s2 \<and> handlers s2 1 = Some Returned"
proof -
  let ?s = "fresh_server (snd (serve sample_env sample_srv fire_joe staff_db)) sample_pool 51821"
  have joe: "list_ex (\<lambda>r. uid r = 4 \<and> access_key r = ''k4'') (users staff_db)" by code_simp
  then obtain r where r: "r \<in> set (users staff_db)" "uid r = 4" "access_key r = ''k4''" by (auto simp: list_ex_iff)
  have "ParseInt64 ''4'' = Some 4" by code_simp
  then have rv: "revokes fire_joe (uid r)" by (auto simp: revokes_def fire_joe_def sample_rq_def r(2))
  have st: "fst (fst (serve sample_env sample_srv fire_joe staff_db)) = 200" by code_simp
  have k: "generateAccessKey (access_draw sample_env) \<noteq> access_key r" unfolding r(3) by code_simp
  let ?H = "[1 \<mapsto> Authenticating \<lparr>Key = ''k4'', HWID = ''h1''\<rparr>]"
  obtain s1 where s1: "daemon_run grid joe_returns ?s = Some s1"
    and h: "handlers s1 1 = Some (Authenticating \<lparr>Key = ''k4'', HWID = ''h1''\<rparr>)"
    by (simp add: joe_returns_def fresh_server_def set_phase_def)
  obtain s2 where s2: "daemon_step grid (AuthStep 1 None [] (\<lambda>_. None) 9) s1 = Some s2" using h by simp
  have no: "\<not> list_ex (event_gives_key (access_key r)) joe_returns" by (simp add: joe_returns_def)
  from revoked_key_locked_out [OF staff_ok r(1) rv st k _ s1 no h _ s2] s1 s2 r(3)
  show ?thesis by (simp add: fresh_server_def)
qed

subsection \<open>The sessions that exist\<close>

text \<open>Only its own handler, or \<open>Close\<close>, takes a session out of the table.\<close>

lemma session_kept:
  assumes ok: "ok_state s" and st: "daemon_step fl e s = Some s'" and se: "fmlookup (sessions s) k = Some se"
    and e: "e \<noteq> SessionEnds (conn se)" "\<forall>ks. e \<noteq> DropSessions ks"
  shows "fmlookup (sessions s') k = Some se"
proof -
  have own: "handlers s (conn se) = Some (Serving k (uint32ToIP k))" by (rule daemon_okD(7) [OF ok se])
  show ?thesis
  proof (cases e)
    case (RegisterStep c now)
    then obtain u ip where h: "handlers s c = Some (Registering u ip)" and s': "s' = register_step fl c u ip now s"
      using st by (auto split: option.splits phase.splits)
    have cl: "claims (handlers s) c = Some ip" using h by (simp add: claims_def)
    then obtain j where j: "ip = uint32ToIP j" using daemon_okD(4) [OF ok] by (auto simp: held_ips_def)
    have "j \<noteq> k"
      using daemon_okD(3) [OF ok cl, of "conn se"] own h j by (auto simp: claims_def)
    moreover have "To4 ip = Some ip" "be_u32 ip = Some j" by (simp_all add: j uint32ToIP_def To4_def be_simps)
    ultimately show ?thesis using se by (simp add: s' register_step_def)
  next
    case (SessionEnds c)
    then obtain j ip where h: "handlers s c = Some (Serving j ip)"
      and s': "s' = set_phase c (Releasing ip) (s\<lparr>sessions := fmdrop j (sessions s)\<rparr>)"
      using st by (auto split: option.splits phase.splits)
    have "j \<noteq> k" using daemon_okD(6) [OF ok h] se e(1) SessionEnds by auto
    then show ?thesis using se by (simp add: s')
  qed (use st se e in \<open>auto simp: auth_step_def alloc_step_def respond_step_def
      split: if_splits option.splits phase.splits prod.splits outcome.splits sum.splits\<close>)
qed

lemma session_kept_run:
  assumes "daemon_run fl es s = Some s'" and "ok_state s" and "fmlookup (sessions s) k = Some se"
    and "\<forall>e \<in> set es. e \<noteq> SessionEnds (conn se) \<and> (\<forall>ks. e \<noteq> DropSessions ks)"
  shows "fmlookup (sessions s') k = Some se"
  using assms
proof (induction es arbitrary: s)
  case (Cons e es)
  obtain t where t: "daemon_step fl e s = Some t" and run: "daemon_run fl es t = Some s'"
    using Cons.prems(1) by (auto split: option.splits)
  have e: "e \<noteq> SessionEnds (conn se)" "\<forall>ks. e \<noteq> DropSessions ks" using Cons.prems(4) by auto
  show ?case
    using Cons.IH [OF run ok_step [OF Cons.prems(2) t e(2)] session_kept [OF Cons.prems(2) t Cons.prems(3) e]]
      Cons.prems(4) by simp
qed simp

text \<open>
  C30: Revoking an account does not disconnect it. While the server is not being closed, a session
  stays in the table, with the same user, address and limits, through everything the API and
  all other connections do, also when its account is deleted or its key reissued, until its own
  handler sees the QUIC connection end; and so long every datagram with its source address that
  opens under the shared key is written to the TUN device.
\<close>

theorem revocation_keeps_tunnel:
  fixes sess :: ClientSession
  assumes "pool_wf p" and "held p = {}" and "running fl (fresh_server d0 p port) s"
    and "fmlookup (sessions s) k = Some sess" and "upLimiter sess = None"
    and "daemon_run fl es (s\<lparr>accounts := snd (serve env srv rq (accounts s))\<rparr>) = Some s'"
    and "\<forall>e \<in> set es. e \<noteq> SessionEnds (conn sess) \<and> (\<forall>ks. e \<noteq> DropSessions ks)"
    and "length buf = data_buf_size" and "decode_packet ob dg = Some pkt" "length pkt \<le> data_buf_size" "SrcIPUint32 pkt = Ok k"
  shows "fmlookup (sessions s') k = Some sess
     \<and> data_read_step fl now True ob buf (Recv dg a # evs) (sessions s')
       = GoesOn (fmupd k (sess\<lparr>clientAddr := Some a\<rparr>) (sessions s'), Some pkt, evs)"
proof -
  have "ok_state (s\<lparr>accounts := snd (serve env srv rq (accounts s))\<rparr>)"
    using ok_running [OF assms(3) ok_fresh [OF assms(1,2)]] by simp
  then have "fmlookup (sessions s') k = Some sess"
    using session_kept_run [OF assms(6) _ _ assms(7)] assms(4) by simp
  with data_read_accepts [OF assms(8-11) _ assms(5)] show ?thesis by blast
qed

definition fire_bob :: request where
  "fire_bob = sample_rq ''DELETE'' [''api'', ''users'', ''2''] ''sys''"

theorem revocation_keeps_tunnel_witness:
  "\<exists>s s' sess. daemon_run grid (login 1 ''k2'' ''h1'' @ join 1) sample_server = Some s
     \<and> daemon_run grid [Accepted 7] (s\<lparr>accounts := snd (serve sample_env sample_srv fire_bob (accounts s))\<rparr>) = Some s'
     \<and> ID (user sess) = 2 \<and> \<not> list_ex (\<lambda>r. uid r = 2) (users (accounts s')) \<and> fmlookup (sessions s') 0x0A080002 = Some sess"
proof -
  let ?es = "login 1 ''k2'' ''h1'' @ join 1"
  have run: "(case daemon_run grid ?es sample_server of None \<Rightarrow> False
      | Some s \<Rightarrow> (case fmlookup (sessions s) 0x0A080002 of None \<Rightarrow> False
          | Some sess \<Rightarrow> ID (user sess) = 2 \<and> upLimiter sess = None)
         \<and> handlers s 7 = None
         \<and> \<not> list_ex (\<lambda>r. uid r = 2) (users (snd (serve sample_env sample_srv fire_bob (accounts s)))))"
    by code_simp
  then obtain s sess where s: "daemon_run grid ?es sample_server = Some s"
    and se: "fmlookup (sessions s) 0x0A080002 = Some sess" "ID (user sess) = 2" "upLimiter sess = None"
    and free: "handlers s 7 = None"
    and gone: "\<not> list_ex (\<lambda>r. uid r = 2) (users (snd (serve sample_env sample_srv fire_bob (accounts s))))"
    by (auto split: option.splits)
  have running: "running grid sample_server s" by (rule running_run [OF s]) (simp add: login_def join_def)
  let ?s0 = "s\<lparr>accounts := snd (serve sample_env sample_srv fire_bob (accounts s))\<rparr>"
  obtain s' where s': "daemon_run grid [Accepted 7] ?s0 = Some s'" and acc: "accounts s' = accounts ?s0"
    using free by (simp add: set_phase_def)
  have d: "decode_packet clear_aead sealed_packet = Some client_packet"
    using sealed_packet_decoded by (simp add: decode_packet_def udp_buf_size_def)
  have l: "length client_packet \<le> data_buf_size" "SrcIPUint32 client_packet = Ok 0x0A080002" by code_simp+
  have "held sample_pool = {}" by (simp add: sample_pool_def held_def)
  from revocation_keeps_tunnel [OF sample_pool_wf this running [unfolded sample_server_def] se(1,3) s' _
      length_replicate [of data_buf_size 0] d l]
  have "fmlookup (sessions s') 0x0A080002 = Some sess" by simp
  with s s' se(2) acc gone show ?thesis by (intro exI [of _ s] exI [of _ s'] exI [of _ sess]) simp
qed

end
