(* ===== verification/Switch_Spec.thy ===== *)
theory Switch_Spec
  imports Data_Plane_Correct
begin

section \<open>What the server promises: an abstract switch\<close>

text \<open>
  The specification of the whole server, without handlers, pool, table of sessions, token buckets
  or store. A switch leases addresses to connections, at most one each and each to one; a
  connection that has been admitted may plug a line in at its address; a packet is delivered
  when it comes from the address of a line, and then the line's end is where it came from; a
  datagram is emitted for a packet to the address of a line, towards the line's end. The fields
  \<open>delivered\<close> and \<open>emitted\<close> are all that was ever let through, \<open>members\<close> who was ever admitted.
\<close>

record switch =
  lease :: "nat \<Rightarrow> bytes option"
  line :: "u32 \<Rightarrow> (nat \<times> User \<times> addr option) option"
  members :: "(nat \<times> User) set"
  delivered :: "bytes list"
  emitted :: "(bytes \<times> addr) list"

definition empty_switch :: switch where
  "empty_switch = \<lparr>lease = Map.empty, line = Map.empty, members = {}, delivered = [], emitted = []\<rparr>"

text \<open>
  The parameters: the addresses there are to lease, the payloads of datagrams sealed under the
  shared key, and which datagram is a sealing of which packet.
\<close>

inductive switch_step ::
  "bytes set \<Rightarrow> (bytes \<Rightarrow> bool) \<Rightarrow> (bytes \<Rightarrow> bytes \<Rightarrow> bool) \<Rightarrow> switch \<Rightarrow> switch \<Rightarrow> bool"
  for addresses genuine seals where
  switch_idle: "switch_step addresses genuine seals t t"
| switch_admit: "switch_step addresses genuine seals t (t\<lparr>members := insert (c, u) (members t)\<rparr>)"
| switch_reserve: "lease t c = None \<Longrightarrow> a \<in> addresses \<Longrightarrow> a \<notin> ran (lease t)
    \<Longrightarrow> switch_step addresses genuine seals t (t\<lparr>lease := (lease t)(c \<mapsto> a)\<rparr>)"
| switch_vacate: "(\<And>k u ep. line t k \<noteq> Some (c, u, ep))
    \<Longrightarrow> switch_step addresses genuine seals t (t\<lparr>lease := (lease t)(c := None)\<rparr>)"
| switch_plug: "lease t c = Some (uint32ToIP k) \<Longrightarrow> (c, u) \<in> members t \<Longrightarrow> line t k = None
    \<Longrightarrow> switch_step addresses genuine seals t (t\<lparr>line := (line t)(k \<mapsto> (c, u, None))\<rparr>)"
| switch_unplug: "line t k = Some (c, u, ep)
    \<Longrightarrow> switch_step addresses genuine seals t (t\<lparr>line := (line t)(k := None)\<rparr>)"
| switch_deliver: "genuine pkt \<Longrightarrow> src_key pkt = Some k \<Longrightarrow> line t k = Some (c, u, ep)
    \<Longrightarrow> switch_step addresses genuine seals t
          (t\<lparr>line := (line t)(k \<mapsto> (c, u, Some a)), delivered := delivered t @ [pkt]\<rparr>)"
| switch_emit: "DstIPUint32 pkt = Ok k \<Longrightarrow> line t k = Some (c, u, Some a) \<Longrightarrow> seals pkt d
    \<Longrightarrow> switch_step addresses genuine seals t (t\<lparr>emitted := emitted t @ [(d, a)]\<rparr>)"

inductive switch_run ::
  "bytes set \<Rightarrow> (bytes \<Rightarrow> bool) \<Rightarrow> (bytes \<Rightarrow> bytes \<Rightarrow> bool) \<Rightarrow> nat \<Rightarrow> switch \<Rightarrow> switch \<Rightarrow> bool"
  for addresses genuine seals where
  switch_none: "switch_run addresses genuine seals 0 t t"
| switch_more: "switch_run addresses genuine seals n t t' \<Longrightarrow> switch_step addresses genuine seals t' t''
    \<Longrightarrow> switch_run addresses genuine seals (Suc n) t t''"

subsection \<open>What holds of every switch\<close>

text \<open>No address is leased twice, and every line belongs to an admitted connection that leases its address.\<close>

definition switch_ok :: "bytes set \<Rightarrow> switch \<Rightarrow> bool" where
  "switch_ok addresses t \<longleftrightarrow> ran (lease t) \<subseteq> addresses
     \<and> (\<forall>c c' a. lease t c = Some a \<longrightarrow> lease t c' = Some a \<longrightarrow> c = c')
     \<and> (\<forall>k c u ep. line t k = Some (c, u, ep) \<longrightarrow> lease t c = Some (uint32ToIP k) \<and> (c, u) \<in> members t)"

lemma switch_okD:
  assumes "switch_ok addresses t"
  shows "ran (lease t) \<subseteq> addresses" and "lease t c = Some a \<Longrightarrow> lease t c' = Some a \<Longrightarrow> c = c'"
    and "line t k = Some (c, u, ep) \<Longrightarrow> lease t c = Some (uint32ToIP k)"
    and "line t k = Some (c, u, ep) \<Longrightarrow> (c, u) \<in> members t"
  using assms unfolding switch_ok_def by blast+

lemma switch_ok_empty: "switch_ok addresses empty_switch"
  by (simp add: switch_ok_def empty_switch_def)

lemma switch_ok_reserve:
  assumes "switch_ok addresses t" and "lease t c = None" and "a \<in> addresses" and "a \<notin> ran (lease t)"
  shows "switch_ok addresses (t\<lparr>lease := (lease t)(c \<mapsto> a)\<rparr>)"
proof -
  have "lease t c' \<noteq> Some a" for c' using assms(4) by (meson ranI)
  moreover have "x \<noteq> c" if "line t k = Some (x, u, ep)" for k x u ep
    using switch_okD(3) [OF assms(1) that] assms(2) by auto
  ultimately show ?thesis
    using switch_okD [OF assms(1)] assms(2,3) by (auto simp: switch_ok_def)
qed

lemma switch_ok_vacate:
  assumes "switch_ok addresses t" and "\<And>k u ep. line t k \<noteq> Some (c, u, ep)"
  shows "switch_ok addresses (t\<lparr>lease := (lease t)(c := None)\<rparr>)"
proof -
  have "ran ((lease t)(c := None)) \<subseteq> ran (lease t)" by (auto simp: ran_def)
  then show ?thesis using assms by (auto simp: switch_ok_def)
qed

lemma switch_ok_step:
  assumes "switch_step addresses genuine seals t t'" and "switch_ok addresses t"
  shows "switch_ok addresses t'"
  using assms
proof (induction rule: switch_step.induct)
  case (switch_reserve t c a)
  then show ?case using switch_ok_reserve by blast
next
  case (switch_vacate t c)
  then show ?case using switch_ok_vacate by blast
next
  case (switch_deliver pkt k t c u ep a)
  then show ?case using switch_okD [OF switch_deliver.prems] by (auto simp: switch_ok_def)
qed (auto simp: switch_ok_def)

lemma switch_ok_run:
  "switch_run addresses genuine seals n t t' \<Longrightarrow> switch_ok addresses t \<Longrightarrow> switch_ok addresses t'"
  by (induction rule: switch_run.induct) (auto intro: switch_ok_step)

end
