(* ===== verification/Server_Machine.thy ===== *)
theory Server_Machine
  imports Api_Correct Daemon_Correct Data_Plane_Correct
begin

section \<open>The whole server: control plane, data plane and REST API interleaved\<close>

text \<open>
  The connection handlers, the two loops of the data plane and the requests to the API run
  beside each other on the session table and the store. An event is a step of a handler, an
  iteration of a loop, or a request. An iteration looks its session up once and then works on
  the object it found; seen from the table this is as if the whole iteration ran at the moment of
  the lookup, so it is one event. Three ghost fields keep what has happened: \<open>authed\<close> the
  connections that authenticated and as whom, \<open>heard\<close> the senders of datagrams that opened, by
  their source address, and \<open>to_tun\<close> and \<open>to_udp\<close> what was forwarded.
\<close>

record server_sys =
  vpn :: VPNServer
  authed :: "(nat \<times> User) list"
  heard :: "(u32 \<times> addr) list"
  to_tun :: "bytes list"
  to_udp :: "(bytes \<times> addr) list"

datatype server_event =
    Control event
  | Request api_env Server request
  | UdpIn int bytes "sock_event list"
  | TunIn int bytes "bytes option \<times> bytes" "string option" tun_event

fun new_auth :: "event \<Rightarrow> VPNServer \<Rightarrow> (nat \<times> User) list" where
  "new_auth (AuthStep c f between rf now) v =
     (case handlers v c of
        Some (Authenticating req) \<Rightarrow>
          (case Authenticate f between rf now (Key req) (HWID req) (accounts v) of (Inr u, d) \<Rightarrow> [(c, u)] | _ \<Rightarrow> [])
      | _ \<Rightarrow> [])"
| "new_auth _ v = []"

definition heard_of :: "aead \<Rightarrow> bytes \<Rightarrow> sock_event list \<Rightarrow> (u32 \<times> addr) list" where
  "heard_of ob buf evs =
     (case ReadFrom ob buf evs of
        Some (Ok (n, a), buf', rest) \<Rightarrow> (case src_key (take n buf') of Some k \<Rightarrow> [(k, a)] | None \<Rightarrow> [])
      | _ \<Rightarrow> [])"

fun server_step :: "(rat \<Rightarrow> rat) \<Rightarrow> aead \<Rightarrow> server_event \<Rightarrow> server_sys \<Rightarrow> server_sys option" where
  "server_step fl ob (Control e) s =
     (case daemon_step fl e (vpn s) of
        None \<Rightarrow> None
      | Some v \<Rightarrow> Some (s\<lparr>vpn := v, authed := authed s @ new_auth e (vpn s)\<rparr>))"
| "server_step fl ob (Request env srv rq) s =
     Some (s\<lparr>vpn := (vpn s)\<lparr>accounts := snd (serve env srv rq (accounts (vpn s)))\<rparr>\<rparr>)"
| "server_step fl ob (UdpIn now buf evs) s =
     (if length buf \<noteq> data_buf_size then None
      else case data_read_step fl now True ob buf evs (sessions (vpn s)) of
        GoesOn (S', w, rest) \<Rightarrow>
          Some (s\<lparr>vpn := (vpn s)\<lparr>sessions := S'\<rparr>, heard := heard s @ heard_of ob buf evs,
                  to_tun := to_tun s @ (case w of None \<Rightarrow> [] | Some pkt \<Rightarrow> [pkt])\<rparr>)
      | _ \<Rightarrow> None)"
| "server_step fl ob (TunIn now obuf rnd sock ev) s =
     (case tun_read_step fl now ob obuf rnd sock ev (sessions (vpn s)) of
        GoesOn (S', out) \<Rightarrow> Some (s\<lparr>vpn := (vpn s)\<lparr>sessions := S'\<rparr>, to_udp := to_udp s @ out\<rparr>)
      | _ \<Rightarrow> None)"

fun server_run :: "(rat \<Rightarrow> rat) \<Rightarrow> aead \<Rightarrow> server_event list \<Rightarrow> server_sys \<Rightarrow> server_sys option" where
  "server_run fl ob [] s = Some s"
| "server_run fl ob (e # es) s =
     (case server_step fl ob e s of None \<Rightarrow> None | Some s' \<Rightarrow> server_run fl ob es s')"

definition new_server :: "db \<Rightarrow> ip_pool \<Rightarrow> int \<Rightarrow> server_sys" where
  "new_server d p port = \<lparr>vpn = fresh_server d p port, authed = [], heard = [], to_tun = [], to_udp = []\<rparr>"

subsection \<open>The data plane and the invariant of the control plane\<close>

text \<open>The loops change return addresses and token buckets only.\<close>

definition same_sessions :: "session_table \<Rightarrow> session_table \<Rightarrow> bool" where
  "same_sessions S S' \<longleftrightarrow> fmdom S' = fmdom S
     \<and> (\<forall>k se. fmlookup S' k = Some se \<longrightarrow>
          (\<exists>old. fmlookup S k = Some old \<and> conn se = conn old \<and> user se = user old \<and> assignedIP se = assignedIP old))"

lemma same_sessions_upd:
  "fmlookup S k = Some old \<Longrightarrow> conn se = conn old \<Longrightarrow> user se = user old \<Longrightarrow> assignedIP se = assignedIP old
    \<Longrightarrow> same_sessions S (fmupd k se S)"
  using fmdomI [of S k old] by (auto simp: same_sessions_def split: if_splits)

lemma same_sessions_refl [simp]: "same_sessions S S"
  by (simp add: same_sessions_def)

lemma data_read_same: "data_read_step fl now tun ob buf evs S = GoesOn (S', w, rest) \<Longrightarrow> same_sessions S S'"
  by (auto simp: data_read_step_def Let_def split: option.splits prod.splits outcome.splits if_splits
      intro: same_sessions_upd)

lemma tun_read_same: "tun_read_step fl now ob obuf rnd sock ev S = GoesOn (S', out) \<Longrightarrow> same_sessions S S'"
  by (auto simp: tun_read_step_def Let_def split: option.splits prod.splits outcome.splits if_splits tun_event.splits
      intro: same_sessions_upd)

lemma ok_same:
  assumes "daemon_ok H p S" and "same_sessions S S'"
  shows "daemon_ok H p S'"
proof (rule daemon_okI)
  show "pool_wf p" "\<And>c. H c \<noteq> Some Panicked" using daemon_okD(1,2) [OF assms(1)] by blast+
  show "\<And>c c' ip. claims H c = Some ip \<Longrightarrow> claims H c' = Some ip \<Longrightarrow> c = c'"
    "\<And>c ip. claims H c = Some ip \<Longrightarrow> ip \<in> held_ips p" "\<And>ip. ip \<in> held_ips p \<Longrightarrow> \<exists>c. claims H c = Some ip"
    using daemon_okD(3-5) [OF assms(1)] by blast+
  have dom: "fmlookup S' k \<noteq> None" if "fmlookup S k = Some old" for k old
  proof -
    have "k |\<in>| fmdom S'" using assms(2) fmdomI [OF that] by (simp add: same_sessions_def)
    then show ?thesis by (auto simp: fmlookup_dom_iff)
  qed
  show "ip = uint32ToIP k \<and> (\<exists>se. fmlookup S' k = Some se \<and> conn se = c \<and> assignedIP se = ip)"
    if serving: "H c = Some (Serving k ip)" for c k ip
  proof -
    obtain old where old: "ip = uint32ToIP k" "fmlookup S k = Some old" "conn old = c" "assignedIP old = ip"
      using daemon_okD(6) [OF assms(1) serving] by blast
    obtain se where "fmlookup S' k = Some se" using dom [OF old(2)] by blast
    with assms(2) old show ?thesis unfolding same_sessions_def by fastforce
  qed
  show "H (conn se) = Some (Serving k (uint32ToIP k))" if se: "fmlookup S' k = Some se" for k se
  proof -
    obtain old where "fmlookup S k = Some old" "conn se = conn old" using assms(2) se unfolding same_sessions_def by blast
    then show ?thesis using daemon_okD(7) [OF assms(1)] by simp
  qed
qed

lemma traced_same:
  assumes "traced Q v" and "same_sessions (sessions v) S'"
  shows "traced Q (v\<lparr>sessions := S'\<rparr>)"
  using assms unfolding traced_def same_sessions_def by fastforce

lemma traced_accounts: "traced Q (v\<lparr>accounts := d\<rparr>) = traced Q v"
  by simp

lemma new_auth_sound:
  "handlers v c = Some (Authenticating req) \<Longrightarrow> Authenticate f b rf now (Key req) (HWID req) (accounts v) = (Inr u, d)
    \<Longrightarrow> (c, u) \<in> set (new_auth (AuthStep c f b rf now) v)"
  by simp

text \<open>Return addresses come from datagrams.\<close>

definition addrs_heard :: "(u32 \<times> addr) list \<Rightarrow> session_table \<Rightarrow> bool" where
  "addrs_heard hs S \<longleftrightarrow> (\<forall>k se a. fmlookup S k = Some se \<longrightarrow> clientAddr se = Some a \<longrightarrow> (k, a) \<in> set hs)"

lemma addrs_heard_drop: "addrs_heard hs S \<Longrightarrow> addrs_heard hs (fmdrop k S)"
  by (auto simp: addrs_heard_def split: if_splits)

lemma addrs_heard_upd:
  "addrs_heard hs S \<Longrightarrow> (\<And>a. clientAddr se = Some a \<Longrightarrow> (k, a) \<in> set hs) \<Longrightarrow> addrs_heard hs (fmupd k se S)"
  by (auto simp: addrs_heard_def split: if_splits)

lemma addrs_heard_app: "addrs_heard hs S \<Longrightarrow> addrs_heard (hs @ xs) S"
  by (auto simp: addrs_heard_def)

lemma addrs_heard_old: "addrs_heard hs S \<Longrightarrow> fmlookup S k = Some se \<Longrightarrow> clientAddr se = Some a \<Longrightarrow> (k, a) \<in> set hs"
  unfolding addrs_heard_def by blast

lemma addrs_heard_control:
  assumes "daemon_step fl e v = Some v'" and "addrs_heard hs (sessions v)" and "\<forall>ks. e \<noteq> DropSessions ks"
  shows "addrs_heard hs (sessions v')"
proof (cases e)
  case (RegisterStep c now)
  then obtain u ip where "v' = register_step fl c u ip now v" using assms(1) by (auto split: option.splits phase.splits)
  then show ?thesis using assms(2)
    by (auto simp: register_step_def new_session_def Let_def split: option.split intro!: addrs_heard_upd)
next
  case (SessionEnds c)
  then show ?thesis using assms(1,2) by (auto split: option.splits phase.splits intro: addrs_heard_drop)
qed (use assms in \<open>auto simp: auth_step_def alloc_step_def respond_step_def
    split: if_splits option.splits phase.splits prod.splits outcome.splits sum.splits\<close>)

lemma addrs_heard_read:
  assumes "data_read_step fl now tun ob buf evs S = GoesOn (S', w, rest)" and "addrs_heard hs S"
  shows "addrs_heard (hs @ heard_of ob buf evs) S'"
proof -
  obtain n a buf' where r: "ReadFrom ob buf evs = Some (Ok (n, a), buf', rest)"
    using assms(1) by (auto simp: data_read_step_def Let_def split: option.splits prod.splits outcome.splits if_splits)
  show ?thesis
  proof (cases "\<exists>k sess. SrcIPUint32 (take n buf') = Ok k \<and> fmlookup S k = Some sess")
    case False
    then have "S' = S" using assms(1) by (auto simp: data_read_step_def r Let_def split: outcome.splits option.splits)
    then show ?thesis by (simp add: assms(2) addrs_heard_app)
  next
    case True
    then obtain k sess where k: "SrcIPUint32 (take n buf') = Ok k" "fmlookup S k = Some sess" by blast
    obtain ok lm where al: "Allow fl now (int (length (take n buf'))) (upLimiter sess) = (ok, lm)" by fastforce
    have "heard_of ob buf evs = [(k, a)]" using k(1) by (simp add: heard_of_def r src_key_def)
    then show ?thesis
      using addrs_heard_app [OF assms(2)] addrs_heard_old [OF assms(2) k(2)]
      by (auto simp: data_read_step_session(1) [OF assms(1) r refl k al] intro!: addrs_heard_upd split: if_splits)
  qed
qed

lemma addrs_heard_tun:
  assumes "tun_read_step fl now ob obuf rnd sock ev S = GoesOn (S', out)" and "addrs_heard hs S"
  shows "addrs_heard hs S'"
  using assms
  by (auto simp: tun_read_step_def Let_def dest: addrs_heard_old
      split: option.splits prod.splits outcome.splits if_splits tun_event.splits intro!: addrs_heard_upd)

definition server_ok :: "server_sys \<Rightarrow> bool" where
  "server_ok s \<longleftrightarrow> ok_state (vpn s) \<and> traced (\<lambda>c u. (c, u) \<in> set (authed s)) (vpn s) \<and> addrs_heard (heard s) (sessions (vpn s))"

lemma server_ok_control:
  assumes "server_ok s" and "daemon_step fl e (vpn s) = Some v" and "\<forall>ks. e \<noteq> DropSessions ks"
  shows "server_ok (s\<lparr>vpn := v, authed := authed s @ new_auth e (vpn s)\<rparr>)"
proof -
  have "traced (\<lambda>c u. (c, u) \<in> set (authed s @ new_auth e (vpn s))) (vpn s)"
    by (rule traced_mono [of "\<lambda>c u. (c, u) \<in> set (authed s)"]) (use assms(1) in \<open>simp_all add: server_ok_def\<close>)
  then have "traced (\<lambda>c u. (c, u) \<in> set (authed s @ new_auth e (vpn s))) v"
    by (rule traced_step [OF _ assms(2)]) simp
  then show ?thesis
    using assms ok_step [of "vpn s" fl e v] addrs_heard_control [of fl e "vpn s" v "heard s"] by (simp add: server_ok_def)
qed

lemma server_ok_step:
  assumes "server_ok s" and "server_step fl ob e s = Some s'" and "\<forall>ks. e \<noteq> Control (DropSessions ks)"
  shows "server_ok s'"
proof (cases e)
  case (Control ev)
  then show ?thesis using assms server_ok_control [of s fl ev] by (auto split: option.splits)
next
  case (Request env srv rq)
  then show ?thesis using assms(1,2) by (auto simp: server_ok_def)
next
  case (UdpIn now buf evs)
  then obtain S' w rest where r: "data_read_step fl now True ob buf evs (sessions (vpn s)) = GoesOn (S', w, rest)"
    and s': "vpn s' = (vpn s)\<lparr>sessions := S'\<rparr>" "authed s' = authed s" "heard s' = heard s @ heard_of ob buf evs"
    using assms(2) by (auto split: if_splits iteration.splits)
  then show ?thesis
    using assms(1) ok_same [OF _ data_read_same [OF r]] traced_same [OF _ data_read_same [OF r]] addrs_heard_read [OF r]
    by (simp add: server_ok_def)
next
  case (TunIn now obuf rnd sock ev)
  then obtain S' out where r: "tun_read_step fl now ob obuf rnd sock ev (sessions (vpn s)) = GoesOn (S', out)"
    and s': "vpn s' = (vpn s)\<lparr>sessions := S'\<rparr>" "authed s' = authed s" "heard s' = heard s"
    using assms(2) by (auto split: iteration.splits)
  then show ?thesis
    using assms(1) ok_same [OF _ tun_read_same [OF r]] traced_same [OF _ tun_read_same [OF r]] addrs_heard_tun [OF r]
    by (simp add: server_ok_def)
qed

lemma server_ok_run:
  "server_run fl ob es s = Some s' \<Longrightarrow> server_ok s \<Longrightarrow> \<forall>e \<in> set es. \<forall>ks. e \<noteq> Control (DropSessions ks) \<Longrightarrow> server_ok s'"
  by (induction es arbitrary: s) (auto split: option.splits dest: server_ok_step)

lemma server_ok_new: "pool_wf p \<Longrightarrow> held p = {} \<Longrightarrow> server_ok (new_server d p port)"
  using ok_fresh [of p d port]
  by (simp add: server_ok_def new_server_def traced_def addrs_heard_def) (simp add: fresh_server_def)

subsection \<open>Properties\<close>

lemma server_run_snoc:
  "server_run fl ob (es @ [e]) s0 = Option.bind (server_run fl ob es s0) (server_step fl ob e)"
  by (induction es arbitrary: s0) (auto split: option.split)

lemma serving_owner:
  assumes "server_ok s" and "fmlookup (sessions (vpn s)) k = Some se"
  shows "handlers (vpn s) (conn se) = Some (Serving k (uint32ToIP k)) \<and> (conn se, user se) \<in> set (authed s)
     \<and> (\<forall>a. clientAddr se = Some a \<longrightarrow> (k, a) \<in> set (heard s))"
  using assms daemon_okD(7) [OF _ assms(2)] by (auto simp: server_ok_def traced_def addrs_heard_def)

text \<open>
  C2: The server is consistent under full load. In every interleaving of connection handlers,
  both loops of the data plane and requests to the API, from a new server and until \<open>Close\<close>
  drops the sessions: no address is held by two handlers, every session in the table is the one
  its own handler serves at that address, its connection has authenticated as its user, and the
  address its packets go to is the sender of a datagram that opened under the shared key and
  carried the address of the session.
\<close>

theorem server_consistent:
  assumes "pool_wf p" and "held p = {}" and "server_run fl ob es (new_server d p port) = Some s"
    and "\<forall>e \<in> set es. \<forall>ks. e \<noteq> Control (DropSessions ks)"
  shows "(\<forall>c c' ip. claims (handlers (vpn s)) c = Some ip \<and> claims (handlers (vpn s)) c' = Some ip \<longrightarrow> c = c')
     \<and> (\<forall>k se. fmlookup (sessions (vpn s)) k = Some se \<longrightarrow>
          handlers (vpn s) (conn se) = Some (Serving k (uint32ToIP k)) \<and> (conn se, user se) \<in> set (authed s)
          \<and> (\<forall>a. clientAddr se = Some a \<longrightarrow> (k, a) \<in> set (heard s)))"
proof -
  have ok: "server_ok s" by (rule server_ok_run [OF assms(3) server_ok_new [OF assms(1,2)] assms(4)])
  then have "ok_state (vpn s)" by (simp add: server_ok_def)
  with daemon_okD(3) serving_owner [OF ok] show ?thesis by blast
qed

text \<open>
  A packet enters the device by event \<open>e\<close> in state \<open>s\<close> rightly: it came in a datagram sealed under
  the key, and its source is the address a handler serves for a connection that authenticated.
  A datagram leaves rightly: it is what \<open>WriteTo\<close> makes of a packet of the device for such an
  address, and goes where a datagram from that address has come from.
\<close>

definition admitted :: "aead \<Rightarrow> server_event \<Rightarrow> server_sys \<Rightarrow> bytes \<Rightarrow> bool" where
  "admitted ob e s pkt \<longleftrightarrow>
     (\<exists>now buf evs k c u. e = UdpIn now buf evs \<and> (\<exists>a. carries ob evs k pkt a)
        \<and> handlers (vpn s) c = Some (Serving k (uint32ToIP k)) \<and> (c, u) \<in> set (authed s))"

definition routed :: "aead \<Rightarrow> server_event \<Rightarrow> server_sys \<Rightarrow> bytes \<times> addr \<Rightarrow> bool" where
  "routed ob e s x \<longleftrightarrow>
     (\<exists>now obuf rnd sock p k c u. e = TunIn now obuf rnd sock (TunPacket p)
        \<and> x \<in> set (snd (WriteTo ob obuf rnd sock (take data_buf_size p) (snd x)))
        \<and> DstIPUint32 (take data_buf_size p) = Ok k
        \<and> handlers (vpn s) c = Some (Serving k (uint32ToIP k)) \<and> (c, u) \<in> set (authed s) \<and> (k, snd x) \<in> set (heard s))"

lemma data_read_writes:
  assumes "data_read_step fl now tun ob buf evs S = GoesOn (S', Some pkt, rest)"
  shows "\<exists>d a m. Recv d a \<in> set evs \<and> Deobfuscate ob (take udp_buf_size d) = Ok m
    \<and> pkt = take (length buf) m \<and> src_key pkt \<in> Some ` fmdom' S"
  by (rule data_read_step_GoesOn [OF assms]) auto

lemma tun_write_admitted:
  assumes ok: "server_ok s" and st: "server_step fl ob e s = Some s'" and "pkt \<in> set (to_tun s')" "pkt \<notin> set (to_tun s)"
  shows "admitted ob e s pkt"
proof (cases e)
  case (UdpIn now buf evs)
  then obtain S' w rest where r: "data_read_step fl now True ob buf evs (sessions (vpn s)) = GoesOn (S', w, rest)"
    and len: "length buf = data_buf_size" and w: "w = Some pkt"
    using st assms(3,4) by (auto split: if_splits iteration.splits option.splits)
  obtain d a m where m: "Recv d a \<in> set evs" "Deobfuscate ob (take udp_buf_size d) = Ok m"
    and pkt: "pkt = take (length buf) m" "src_key pkt \<in> Some ` fmdom' (sessions (vpn s))"
    using data_read_writes [OF r [unfolded w]] by blast
  then obtain k se where k: "src_key pkt = Some k" and se: "fmlookup (sessions (vpn s)) k = Some se"
    by (auto simp: fmlookup_dom'_iff)
  have "carries ob evs k pkt a" using m pkt(1) k len by (auto simp: carries_def src_key_Some)
  with serving_owner [OF ok se] UdpIn show ?thesis unfolding admitted_def by blast
qed (use st assms(3,4) in \<open>auto split: option.splits iteration.splits\<close>)

lemma udp_write_routed:
  assumes ok: "server_ok s" and st: "server_step fl ob e s = Some s'" and "x \<in> set (to_udp s')" "x \<notin> set (to_udp s)"
  shows "routed ob e s x"
proof (cases e)
  case (TunIn now obuf rnd sock ev)
  then obtain S' out where r: "tun_read_step fl now ob obuf rnd sock ev (sessions (vpn s)) = GoesOn (S', out)" and x: "x \<in> set out"
    using st assms(3,4) by (auto split: iteration.splits)
  then obtain p k se a where p: "ev = TunPacket p" "DstIPUint32 (take data_buf_size p) = Ok k"
      "fmlookup (sessions (vpn s)) k = Some se" "clientAddr se = Some a"
      "x \<in> set (snd (WriteTo ob obuf rnd sock (take data_buf_size p) a))"
    by (auto simp: tun_read_step_def Let_def split: tun_event.splits outcome.splits option.splits prod.splits if_splits)
  have "snd x = a"
    using p(5) by (auto simp: WriteTo_def split: outcome.splits prod.splits if_splits option.splits)
  with p serving_owner [OF ok p(3)] TunIn show ?thesis unfolding routed_def by blast
qed (use st assms(3,4) in \<open>auto split: option.splits iteration.splits if_splits\<close>)

text \<open>Some event of the run happened in a state with this property.\<close>

definition happened ::
  "(rat \<Rightarrow> rat) \<Rightarrow> aead \<Rightarrow> server_sys \<Rightarrow> server_event list \<Rightarrow> (server_event \<Rightarrow> server_sys \<Rightarrow> bool) \<Rightarrow> bool" where
  "happened fl ob s0 es Q \<longleftrightarrow> (\<exists>es1 e es2 s1. es = es1 @ e # es2 \<and> server_run fl ob es1 s0 = Some s1 \<and> Q e s1)"

lemma happened_app: "happened fl ob s0 es Q \<Longrightarrow> happened fl ob s0 (es @ [e]) Q"
  unfolding happened_def by (metis append.assoc append_Cons)

lemma happened_now: "server_run fl ob es s0 = Some t \<Longrightarrow> Q e t \<Longrightarrow> happened fl ob s0 (es @ [e]) Q"
  unfolding happened_def by blast


definition server_history :: "server_event list" where
  "server_history =
     map Control (login 1 ''k2'' ''h1'' @ join 1)
     @ [UdpIn 0 (replicate data_buf_size 0) [Recv sealed_packet ([192, 0, 2, 1], 9)],
        Request sample_env sample_srv (sample_rq ''DELETE'' [''api'', ''users'', ''2''] ''sys''),
        TunIn 1 (replicate udp_buf_size 0) (Some (replicate 24 7), [1]) None (TunPacket server_packet)]"

definition sample_accounts :: db where
  "sample_accounts = db_run [OpCreateUser None 1 ''ann'' ''k1'' ''a1'' ''owner'' 2 0,
        OpCreateUser None 2 ''bob'' ''k2'' ''a2'' ''user'' 2 0] empty_db"

lemma control_run:
  "daemon_run fl es v = Some v' \<Longrightarrow> \<exists>as. server_run fl ob (map Control es) (s\<lparr>vpn := v\<rparr>) = Some (s\<lparr>vpn := v', authed := as\<rparr>)"
proof (induction es arbitrary: v s)
  case Nil
  then show ?case by (intro exI [of _ "authed s"]) simp
next
  case (Cons e es)
  then obtain v1 where v1: "daemon_step fl e v = Some v1" and run: "daemon_run fl es v1 = Some v'"
    by (auto split: option.splits)
  from Cons.IH [OF run, of "s\<lparr>authed := authed s @ new_auth e v\<rparr>"] v1 show ?case by (cases s) simp
qed

lemma history_runs:
  "\<exists>s dg. server_run grid clear_aead server_history (new_server sample_accounts sample_pool 51821) = Some s
     \<and> to_tun s = [client_packet] \<and> to_udp s = [(dg, ([192, 0, 2, 1], 9))]
     \<and> claims (handlers (vpn s)) 1 = Some [10, 8, 0, 2]"
proof -
  let ?es = "login 1 ''k2'' ''h1'' @ join 1" and ?v = "fresh_server sample_accounts sample_pool 51821"
  have "(case daemon_run grid ?es ?v of None \<Rightarrow> False
      | Some v \<Rightarrow> (case fmlookup (sessions v) 0x0A080002 of None \<Rightarrow> False
          | Some se \<Rightarrow> upLimiter se = None \<and> downLimiter se = None)
         \<and> claims (handlers v) 1 = Some [10, 8, 0, 2])"
    by code_simp
  then obtain v se where v: "daemon_run grid ?es ?v = Some v" and se: "fmlookup (sessions v) 0x0A080002 = Some se"
    and lims: "upLimiter se = None" "downLimiter se = None" and cl: "claims (handlers v) 1 = Some [10, 8, 0, 2]"
    by (auto split: option.splits)
  obtain as where pre: "server_run grid clear_aead (map Control ?es) (new_server sample_accounts sample_pool 51821)
      = Some (new_server sample_accounts sample_pool 51821\<lparr>vpn := v, authed := as\<rparr>)"
    using control_run [OF v, of clear_aead "new_server sample_accounts sample_pool 51821"] by (auto simp: new_server_def)
  let ?a = "([192, 0, 2, 1], 9) :: addr"
  have d: "decode_packet clear_aead sealed_packet = Some client_packet"
    using sealed_packet_decoded by (simp add: decode_packet_def udp_buf_size_def)
  have l: "length client_packet \<le> data_buf_size" "SrcIPUint32 client_packet = Ok 0x0A080002" by code_simp+
  note up = data_read_accepts [OF length_replicate [of data_buf_size 0] d l se lims(1), of grid 0 ?a "[]"]
  let ?S1 = "fmupd 0x0A080002 (se\<lparr>clientAddr := Some ?a\<rparr>) (sessions v)"
  have s2: "length server_packet \<le> data_buf_size" by code_simp
  obtain dg S2 where down: "tun_read_step grid 1 clear_aead (replicate udp_buf_size 0) (Some (replicate 24 7), [1]) None
      (TunPacket server_packet) ?S1 = GoesOn (S2, [(dg, ?a)])"
    using tun_read_sends [OF clear_cipher_ok sample_draw_ok length_replicate [of udp_buf_size 0] server_packet_facts(1) s2,
        of ?S1 "se\<lparr>clientAddr := Some ?a\<rparr>" ?a grid 1] lims(2) by auto
  have append: "server_run fl ob (xs @ ys) t = Option.bind (server_run fl ob xs t) (server_run fl ob ys)" for fl ob xs ys t
    by (induction xs arbitrary: t) (auto split: option.split)
  show ?thesis
    unfolding server_history_def append pre
    using cl by (simp add: up down new_server_def)
qed

lemma history_no_close: "\<forall>e \<in> set server_history. \<forall>ks. e \<noteq> Control (DropSessions ks)"
  by (simp add: server_history_def login_def join_def)

lemma sample_pool_free: "held sample_pool = {}"
  by (simp add: sample_pool_def held_def)

theorem server_consistent_witness:
  "\<exists>s. server_run grid clear_aead server_history (new_server sample_accounts sample_pool 51821) = Some s
     \<and> claims (handlers (vpn s)) 1 = Some [10, 8, 0, 2]
     \<and> (\<forall>c. claims (handlers (vpn s)) c = Some [10, 8, 0, 2] \<longleftrightarrow> c = 1)"
proof -
  obtain s where s: "server_run grid clear_aead server_history (new_server sample_accounts sample_pool 51821) = Some s"
    "claims (handlers (vpn s)) 1 = Some [10, 8, 0, 2]" using history_runs by blast
  with server_consistent [OF sample_pool_wf sample_pool_free s(1) history_no_close] show ?thesis by blast
qed


end
