(* ===== verification/Server_Refines.thy ===== *)
theory Server_Refines
  imports Switch_Spec Server_Machine
begin

section \<open>The server implements the switch\<close>

text \<open>
  Seen through \<open>switch_of\<close>, every step of the whole server, of whichever handler, loop or
  request, is one step of the switch. The addresses handlers hold are the leases, the session table
  the lines; the token buckets, the store, the pool's hint and the phases of the handlers are
  not seen.
\<close>

definition switch_of :: "server_sys \<Rightarrow> switch" where
  "switch_of s =
     \<lparr>lease = claims (handlers (vpn s)),
      line = (\<lambda>k. map_option (\<lambda>se. (conn se, user se, clientAddr se)) (fmlookup (sessions (vpn s)) k)),
      members = set (authed s), delivered = to_tun s, emitted = to_udp s\<rparr>"

definition opened_payload :: "aead \<Rightarrow> bytes \<Rightarrow> bool" where
  "opened_payload ob pkt \<longleftrightarrow>
     (\<exists>d m. Deobfuscate ob (take udp_buf_size d) = Ok m \<and> pkt = take data_buf_size m)"

definition sealed_as :: "aead \<Rightarrow> bytes \<Rightarrow> bytes \<Rightarrow> bool" where
  "sealed_as ob pkt d \<longleftrightarrow> (\<exists>obuf rnd sock a. (d, a) \<in> set (snd (WriteTo ob obuf rnd sock pkt a)))"

abbreviation server_switch :: "bytes set \<Rightarrow> aead \<Rightarrow> server_sys \<Rightarrow> server_sys \<Rightarrow> bool" where
  "server_switch U ob s s' \<equiv> switch_step U (opened_payload ob) (sealed_as ob) (switch_of s) (switch_of s')"

lemma stutter: "switch_of s' = switch_of s \<Longrightarrow> server_switch U ob s s'"
  by (simp add: switch_idle)

subsection \<open>The steps of the handlers\<close>

text \<open>A step of a handler that neither takes nor gives an address, nor touches the table.\<close>

lemma claims_same: "claims H c = phase_ip ph \<Longrightarrow> claims (H(c \<mapsto> ph)) = claims H"
  by auto

lemma claims_none: "H c = None \<Longrightarrow> claims H c = None"
  by (simp add: claims_def)

lemma switch_quiet:
  assumes "daemon_step fl e v = Some v'"
    and "case e of AuthStep c f b rf now \<Rightarrow> False | AllocStep c \<Rightarrow> False | ResponseSent c ok \<Rightarrow> False
      | RegisterStep c now \<Rightarrow> False | SessionEnds c \<Rightarrow> False | ReleaseStep c \<Rightarrow> False | DropSessions ks \<Rightarrow> False
      | _ \<Rightarrow> True"
  shows "claims (handlers v') = claims (handlers v) \<and> sessions v' = sessions v"
  using assms
  by (cases e) (auto simp: claims_phase claims_none
      intro!: claims_same split: if_splits option.splits phase.splits)

lemma switch_vacates:
  assumes ok: "ok_state (vpn s)" and h: "handlers (vpn s) c = Some ph" "\<not> is_serving ph"
    and v: "handlers v = (handlers (vpn s))(c \<mapsto> Returned)" "sessions v = sessions (vpn s)"
  shows "server_switch U ob s (s\<lparr>vpn := v\<rparr>)"
proof -
  have none: "line (switch_of s) k \<noteq> Some (c, u, ep)" for k u ep
    using daemon_okD(7) [OF ok] h by (fastforce simp: switch_of_def)
  have "claims (handlers v) = (claims (handlers (vpn s)))(c := None)" by (auto simp: v(1) fun_eq_iff)
  then have "switch_of (s\<lparr>vpn := v\<rparr>) = (switch_of s)\<lparr>lease := (lease (switch_of s))(c := None)\<rparr>"
    by (simp add: switch_of_def v(2))
  then show ?thesis using switch_vacate [where t = "switch_of s", OF none] by simp
qed

lemma switch_responds:
  assumes ok: "ok_state (vpn s)" and h: "handlers (vpn s) c = Some (Responding u ip)"
  shows "server_switch U ob s (s\<lparr>vpn := respond_step c u ip b (vpn s)\<rparr>)"
proof (cases b)
  case True
  have "claims ((handlers (vpn s))(c \<mapsto> Registering u ip)) = claims (handlers (vpn s))"
    by (rule claims_same) (simp add: claims_def h)
  then show ?thesis using True by (intro stutter) (simp add: respond_step_def switch_of_def)
next
  case False
  then show ?thesis by (intro switch_vacates [OF ok h]) (simp_all add: respond_step_def)
qed

lemma switch_allocates:
  assumes ok: "ok_state (vpn s)" and h: "handlers (vpn s) c = Some (Allocating u)"
    and U: "client_ips (ipPool (vpn s)) = U"
  shows "server_switch U ob s (s\<lparr>vpn := alloc_step c u (vpn s)\<rparr>)"
  using daemon_okD(1) [OF ok]
proof (cases "ipPool (vpn s)" rule: Allocate_cases)
  case exhausted
  have "claims ((handlers (vpn s))(c \<mapsto> Returned)) = claims (handlers (vpn s))"
    by (rule claims_same) (simp add: claims_def h)
  then show ?thesis by (intro stutter) (simp add: alloc_step_def exhausted switch_of_def)
next
  case (granted k hh)
  define ip where "ip = uint32ToIP (addr_at (ipPool (vpn s)) k)"
  obtain p' where al: "Allocate (ipPool (vpn s)) = (Ok ip, p')" using granted(1) ip_def by blast
  then have t: "take_ip (ipPool (vpn s)) = (Some ip, p')" by (simp add: take_ip_def)
  from pool.take_Some [OF daemon_okD(1) [OF ok] t] U have ip: "ip \<in> U" "ip \<notin> held_ips (ipPool (vpn s))" by auto
  then have "ip \<notin> ran (lease (switch_of s))" using daemon_okD(4) [OF ok] by (auto simp: switch_of_def ran_def)
  moreover have "lease (switch_of s) c = None" by (simp add: switch_of_def claims_def h)
  moreover have "switch_of (s\<lparr>vpn := alloc_step c u (vpn s)\<rparr>)
      = (switch_of s)\<lparr>lease := (lease (switch_of s))(c \<mapsto> ip)\<rparr>"
    by (auto simp: switch_of_def alloc_step_def al fun_eq_iff)
  ultimately show ?thesis using switch_reserve [where t = "switch_of s"] ip(1) by simp
qed

lemma switch_registers:
  assumes ok: "server_ok s" and h: "handlers (vpn s) c = Some (Registering u ip)"
  shows "server_switch U ob s (s\<lparr>vpn := register_step fl c u ip now (vpn s)\<rparr>)"
proof -
  have oks: "ok_state (vpn s)" using ok by (simp add: server_ok_def)
  have cl: "claims (handlers (vpn s)) c = Some ip" by (simp add: claims_def h)
  then obtain k where k: "ip = uint32ToIP k" using daemon_okD(4) [OF oks] by (auto simp: held_ips_def)
  have "To4 ip = Some ip" "be_u32 ip = Some k" by (simp_all add: k uint32ToIP_def To4_def be_simps)
  then have step: "handlers (register_step fl c u ip now (vpn s)) = (handlers (vpn s))(c \<mapsto> Serving k ip)"
    "sessions (register_step fl c u ip now (vpn s)) = fmupd k (new_session fl now c u ip) (sessions (vpn s))"
    by (simp_all add: register_step_def)
  have free: "fmlookup (sessions (vpn s)) k = None"
  proof (cases "fmlookup (sessions (vpn s)) k")
    case (Some x)
    from daemon_okD(7) [OF oks this] have x: "handlers (vpn s) (conn x) = Some (Serving k (uint32ToIP k))" .
    then have "claims (handlers (vpn s)) (conn x) = Some ip" by (simp add: claims_def k)
    from daemon_okD(3) [OF oks this cl] x h show ?thesis by simp
  qed
  have "claims ((handlers (vpn s))(c \<mapsto> Serving k ip)) = claims (handlers (vpn s))"
    by (rule claims_same) (simp add: cl)
  then have "switch_of (s\<lparr>vpn := register_step fl c u ip now (vpn s)\<rparr>)
      = (switch_of s)\<lparr>line := (line (switch_of s))(k \<mapsto> (c, u, None))\<rparr>"
    by (auto simp: switch_of_def step new_session_def Let_def fun_eq_iff)
  moreover have "(c, u) \<in> members (switch_of s)"
    using ok h by (auto simp: server_ok_def switch_of_def dest: traced_user)
  ultimately show ?thesis
    using switch_plug [where t = "switch_of s" and c = c and k = k] cl free by (simp add: switch_of_def k)
qed

lemma switch_ends:
  assumes ok: "ok_state (vpn s)" and h: "handlers (vpn s) c = Some (Serving k ip)"
    and v: "handlers v = (handlers (vpn s))(c \<mapsto> Releasing ip)" "sessions v = fmdrop k (sessions (vpn s))"
  shows "server_switch U ob s (s\<lparr>vpn := v\<rparr>)"
proof -
  obtain se where se: "fmlookup (sessions (vpn s)) k = Some se" using daemon_okD(6) [OF ok h] by blast
  have "claims ((handlers (vpn s))(c \<mapsto> Releasing ip)) = claims (handlers (vpn s))"
    by (rule claims_same) (simp add: claims_def h)
  then have "switch_of (s\<lparr>vpn := v\<rparr>) = (switch_of s)\<lparr>line := (line (switch_of s))(k := None)\<rparr>"
    by (auto simp: switch_of_def v fun_eq_iff)
  then show ?thesis using switch_unplug [where t = "switch_of s" and k = k] se by (simp add: switch_of_def)
qed

lemma switch_authenticates:
  assumes h: "handlers (vpn s) c = Some (Authenticating req)"
  shows "server_switch U ob s (s\<lparr>vpn := auth_step c req f between rf now (vpn s),
     authed := authed s @ new_auth (AuthStep c f between rf now) (vpn s)\<rparr>)"
proof -
  obtain r d where r: "Authenticate f between rf now (Key req) (HWID req) (accounts (vpn s)) = (r, d)" by fastforce
  have same: "claims ((handlers (vpn s))(c \<mapsto> Returned)) = claims (handlers (vpn s))"
    "claims ((handlers (vpn s))(c \<mapsto> Allocating u)) = claims (handlers (vpn s))" for u
    by (rule claims_same; simp add: claims_def h)+
  show ?thesis
  proof (cases r)
    case (Inl e)
    then show ?thesis by (intro stutter) (simp add: auth_step_def r h switch_of_def same)
  next
    case (Inr u)
    then have "switch_of (s\<lparr>vpn := auth_step c req f between rf now (vpn s),
        authed := authed s @ new_auth (AuthStep c f between rf now) (vpn s)\<rparr>)
        = (switch_of s)\<lparr>members := insert (c, u) (members (switch_of s))\<rparr>"
      by (simp add: auth_step_def r h switch_of_def same)
    then show ?thesis using switch_admit [where t = "switch_of s"] by simp
  qed
qed

lemma switch_control:
  assumes ok: "server_ok s" and st: "daemon_step fl e (vpn s) = Some v" and e: "\<forall>ks. e \<noteq> DropSessions ks"
    and U: "client_ips (ipPool (vpn s)) = U"
  shows "server_switch U ob s (s\<lparr>vpn := v, authed := authed s @ new_auth e (vpn s)\<rparr>)"
proof -
  have oks: "ok_state (vpn s)" using ok by (simp add: server_ok_def)
  have only: "s\<lparr>vpn := v, authed := authed s\<rparr> = s\<lparr>vpn := v\<rparr>" by (cases s) simp
  have quiet: ?thesis if "new_auth e (vpn s) = []" "claims (handlers v) = claims (handlers (vpn s)) \<and> sessions v = sessions (vpn s)"
    by (rule stutter) (use that in \<open>simp add: switch_of_def\<close>)
  show ?thesis
  proof (cases e)
    case (AuthStep c f b rf now)
    then obtain req where "handlers (vpn s) c = Some (Authenticating req)" "v = auth_step c req f b rf now (vpn s)"
      using st by (auto split: option.splits phase.splits)
    with switch_authenticates AuthStep show ?thesis by simp
  next
    case (AllocStep c)
    then obtain u where "handlers (vpn s) c = Some (Allocating u)" "v = alloc_step c u (vpn s)"
      using st by (auto split: option.splits phase.splits)
    with switch_allocates [OF oks _ U] AllocStep only show ?thesis by simp
  next
    case (ResponseSent c b)
    then obtain u ip where "handlers (vpn s) c = Some (Responding u ip)" "v = respond_step c u ip b (vpn s)"
      using st by (auto split: option.splits phase.splits)
    with switch_responds [OF oks] ResponseSent only show ?thesis by simp
  next
    case (RegisterStep c now)
    then obtain u ip where "handlers (vpn s) c = Some (Registering u ip)" "v = register_step fl c u ip now (vpn s)"
      using st by (auto split: option.splits phase.splits)
    with switch_registers [OF ok] RegisterStep only show ?thesis by simp
  next
    case (SessionEnds c)
    then obtain k ip where "handlers (vpn s) c = Some (Serving k ip)"
      "v = set_phase c (Releasing ip) ((vpn s)\<lparr>sessions := fmdrop k (sessions (vpn s))\<rparr>)"
      using st by (auto split: option.splits phase.splits)
    with switch_ends [OF oks] SessionEnds only show ?thesis by simp
  next
    case (ReleaseStep c)
    then obtain ip where "handlers (vpn s) c = Some (Releasing ip)" "v = set_phase c Returned (release_ip ip (vpn s))"
      using st by (auto split: option.splits phase.splits)
    with switch_vacates [OF oks, of c _ v U ob] ReleaseStep only show ?thesis by simp
  qed (use switch_quiet [OF st] e quiet in auto)
qed

lemma client_ips_step:
  assumes ok: "ok_state v" and st: "daemon_step fl e v = Some v'" and e: "\<forall>ks. e \<noteq> DropSessions ks"
  shows "client_ips (ipPool v') = client_ips (ipPool v)"
proof -
  have give: "client_ips (snd (Release (ipPool v) ip)) = client_ips (ipPool v)" if "claims (handlers v) c = Some ip" for c ip
    using pool.give_held [OF daemon_okD(1) [OF ok] daemon_okD(4) [OF ok that]] by (simp add: give_ip_def)
  have take: "client_ips p = client_ips (ipPool v)" if "Allocate (ipPool v) = (r, p)" for r p
    using daemon_okD(1) [OF ok]
  proof (cases "ipPool v" rule: Allocate_cases)
    case (granted k h)
    with that obtain ip where "take_ip (ipPool v) = (Some ip, p)" by (auto simp: take_ip_def)
    with pool.take_Some [OF daemon_okD(1) [OF ok]] show ?thesis by blast
  qed (use that in simp)
  have give': "client_ips (snd (Release (ipPool v) ip)) = client_ips (ipPool v)"
    if "handlers v c = Some ph" "phase_ip ph = Some ip" for c ph ip
    using give [of c ip] that by (simp add: claims_def)
  show ?thesis
    using st e give' take
    by (cases e) (auto simp: auth_step_def alloc_step_def respond_step_def register_step_def
        split: if_splits option.splits phase.splits prod.splits sum.splits outcome.splits)
qed

subsection \<open>The loops of the data plane\<close>

lemma switch_limiter:
  assumes "fmlookup (sessions (vpn s)) k = Some sess"
    and "conn se = conn sess" and "user se = user sess" and "clientAddr se = clientAddr sess"
  shows "line (switch_of (s\<lparr>vpn := (vpn s)\<lparr>sessions := fmupd k se (sessions (vpn s))\<rparr>\<rparr>)) = line (switch_of s)"
  using assms by (auto simp: switch_of_def fun_eq_iff)

lemma switch_udp:
  assumes "server_step fl ob (UdpIn now buf evs) s = Some s'"
  shows "server_switch U ob s s'"
proof -
  obtain S' w rest where r: "data_read_step fl now True ob buf evs (sessions (vpn s)) = GoesOn (S', w, rest)"
    and len: "length buf = data_buf_size"
    and s': "s' = s\<lparr>vpn := (vpn s)\<lparr>sessions := S'\<rparr>, heard := heard s @ heard_of ob buf evs,
                  to_tun := to_tun s @ (case w of None \<Rightarrow> [] | Some pkt \<Rightarrow> [pkt])\<rparr>"
    using assms by (auto split: if_splits iteration.splits)
  obtain n a buf' where rd: "ReadFrom ob buf evs = Some (Ok (n, a), buf', rest)"
    using r by (auto simp: data_read_step_def Let_def split: option.splits prod.splits outcome.splits if_splits)
  let ?pkt = "take n buf'"
  have g: "opened_payload ob ?pkt" using ReadFrom_Ok [OF rd] len unfolding opened_payload_def by metis
  show ?thesis
  proof (cases "\<exists>k sess. SrcIPUint32 ?pkt = Ok k \<and> fmlookup (sessions (vpn s)) k = Some sess")
    case False
    then have "S' = sessions (vpn s)" "w = None"
      using r by (auto simp: data_read_step_def rd Let_def split: outcome.splits option.splits)
    then show ?thesis by (intro stutter) (simp add: s' switch_of_def)
  next
    case True
    then obtain k sess where k: "SrcIPUint32 ?pkt = Ok k" and sess: "fmlookup (sessions (vpn s)) k = Some sess" by blast
    obtain ok lm where al: "Allow fl now (int (length ?pkt)) (upLimiter sess) = (ok, lm)" by fastforce
    note S' = data_read_step_session [OF r rd refl k sess al]
    show ?thesis
    proof (cases ok)
      case True
      then have "switch_of s' = (switch_of s)\<lparr>line := (line (switch_of s))(k \<mapsto> (conn sess, user sess, Some a)),
          delivered := delivered (switch_of s) @ [?pkt]\<rparr>"
        by (auto simp: s' S' switch_of_def fun_eq_iff)
      moreover have "line (switch_of s) k = Some (conn sess, user sess, clientAddr sess)" by (simp add: switch_of_def sess)
      ultimately show ?thesis
        using switch_deliver [where t = "switch_of s" and genuine = "opened_payload ob", OF g] k by (simp add: src_key_def)
    next
      case False
      then have "line (switch_of s') = line (switch_of s)"
        using switch_limiter [OF sess, of "sess\<lparr>upLimiter := lm\<rparr>"] by (simp add: s' S' switch_of_def)
      then show ?thesis using False by (intro stutter) (simp add: s' S' switch_of_def)
    qed
  qed
qed

lemma WriteTo_one: "snd (WriteTo ob obuf rnd sock p to) = [] \<or> (\<exists>d. snd (WriteTo ob obuf rnd sock p to) = [(d, to)])"
  by (auto simp: WriteTo_def split: outcome.split option.split prod.split)

lemma switch_tun:
  assumes "server_step fl ob (TunIn now obuf rnd sock ev) s = Some s'"
  shows "server_switch U ob s s'"
proof -
  obtain S' out where r: "tun_read_step fl now ob obuf rnd sock ev (sessions (vpn s)) = GoesOn (S', out)"
    and s': "s' = s\<lparr>vpn := (vpn s)\<lparr>sessions := S'\<rparr>, to_udp := to_udp s @ out\<rparr>"
    using assms by (auto split: iteration.splits)
  obtain p where p: "ev = TunPacket p" using r by (cases ev) (auto simp: tun_read_step_def)
  let ?pkt = "take data_buf_size p"
  show ?thesis
  proof (cases "\<exists>k sess. DstIPUint32 ?pkt = Ok k \<and> fmlookup (sessions (vpn s)) k = Some sess")
    case False
    then have "S' = sessions (vpn s)" "out = []"
      using r by (auto simp: tun_read_step_def p Let_def split: outcome.splits option.splits)
    then show ?thesis by (intro stutter) (simp add: s' switch_of_def)
  next
    case True
    then obtain k sess where k: "DstIPUint32 ?pkt = Ok k" and sess: "fmlookup (sessions (vpn s)) k = Some sess" by blast
    obtain ok lm where al: "Allow fl now (int (length ?pkt)) (downLimiter sess) = (ok, lm)" by fastforce
    have S': "S' = fmupd k (sess\<lparr>downLimiter := lm\<rparr>) (sessions (vpn s))"
      and out: "out = [] \<or> (\<exists>a. clientAddr sess = Some a \<and> out = snd (WriteTo ob obuf rnd sock ?pkt a))"
      using r al [simplified] by (auto simp: tun_read_step_def p Let_def k sess split: outcome.splits option.splits if_splits prod.splits)
    have l: "line (switch_of s') = line (switch_of s)"
      using switch_limiter [OF sess, of "sess\<lparr>downLimiter := lm\<rparr>"] by (simp add: s' S' switch_of_def)
    show ?thesis
    proof (cases "out = []")
      case True
      then show ?thesis using l by (intro stutter) (simp add: s' switch_of_def)
    next
      case False
      then obtain a d where a: "clientAddr sess = Some a" and d: "out = [(d, a)]"
        and w: "out = snd (WriteTo ob obuf rnd sock ?pkt a)"
        using out WriteTo_one by metis
      have "sealed_as ob ?pkt d" unfolding sealed_as_def using d w by (metis list.set_intros(1))
      moreover have "line (switch_of s) k = Some (conn sess, user sess, Some a)" by (simp add: switch_of_def sess a)
      moreover have "switch_of s' = (switch_of s)\<lparr>emitted := emitted (switch_of s) @ [(d, a)]\<rparr>"
        using l by (simp add: s' switch_of_def d)
      ultimately show ?thesis using switch_emit [where t = "switch_of s", OF k] by simp
    qed
  qed
qed

lemma server_simulates:
  assumes "server_ok s" and "server_step fl ob e s = Some s'" and "\<forall>ks. e \<noteq> Control (DropSessions ks)"
    and "client_ips (ipPool (vpn s)) = U"
  shows "server_switch U ob s s' \<and> client_ips (ipPool (vpn s')) = U"
proof (cases e)
  case (Control ev)
  then obtain v where v: "daemon_step fl ev (vpn s) = Some v" "s' = s\<lparr>vpn := v, authed := authed s @ new_auth ev (vpn s)\<rparr>"
    using assms(2) by (auto split: option.splits)
  have "ok_state (vpn s)" using assms(1) by (simp add: server_ok_def)
  then show ?thesis
    using switch_control [OF assms(1) v(1) _ assms(4)] client_ips_step [OF _ v(1)] assms(3,4) Control v(2) by simp
next
  case (Request env srv rq)
  then have "s' = s\<lparr>vpn := (vpn s)\<lparr>accounts := snd (serve env srv rq (accounts (vpn s)))\<rparr>\<rparr>" using assms(2) by simp
  then have "switch_of s' = switch_of s" "ipPool (vpn s') = ipPool (vpn s)" by (simp_all add: switch_of_def)
  then show ?thesis using stutter assms(4) by simp
next
  case (UdpIn now buf evs)
  then have "ipPool (vpn s') = ipPool (vpn s)" using assms(2) by (auto split: if_splits iteration.splits)
  then show ?thesis using switch_udp assms(2,4) UdpIn by metis
next
  case (TunIn now obuf rnd sock ev)
  then have "ipPool (vpn s') = ipPool (vpn s)" using assms(2) by (auto split: iteration.splits)
  then show ?thesis using switch_tun assms(2,4) TunIn by metis
qed

subsection \<open>Properties\<close>

text \<open>
  C4: The server refines the switch. From a new server, every run of connection handlers, loops
  of the data plane and API requests in any interleaving, up to the point where \<open>Close\<close> drops
  the sessions, is a run of the switch on the addresses of the pool, one step for each event:
  what is leased, plugged in, delivered and emitted is what the switch allows, and so no address
  is leased twice and every line belongs to an admitted connection that leases its address.
\<close>

theorem server_refines_switch:
  assumes "pool_wf p" and "held p = {}" and "server_run fl ob es (new_server d p port) = Some s"
    and "\<forall>e \<in> set es. \<forall>ks. e \<noteq> Control (DropSessions ks)"
  shows "switch_run (client_ips p) (opened_payload ob) (sealed_as ob) (length es) empty_switch (switch_of s)
     \<and> switch_ok (client_ips p) (switch_of s)"
proof -
  have "switch_run (client_ips p) (opened_payload ob) (sealed_as ob) (length es) empty_switch (switch_of s)
      \<and> client_ips (ipPool (vpn s)) = client_ips p"
    using assms(3,4)
  proof (induction es arbitrary: s rule: rev_induct)
    case Nil
    then have "s = new_server d p port" by simp
    then have "switch_of s = empty_switch" "ipPool (vpn s) = p"
      by (simp_all add: new_server_def fresh_server_def switch_of_def empty_switch_def claims_def fun_eq_iff)
    then show ?case using switch_none by simp
  next
    case (snoc e es)
    then obtain t where run: "server_run fl ob es (new_server d p port) = Some t" and st: "server_step fl ob e t = Some s"
      by (auto simp: server_run_snoc split: Option.bind_splits)
    have "server_ok t" by (rule server_ok_run [OF run server_ok_new [OF assms(1,2)]]) (use snoc.prems(2) in auto)
    with server_simulates [OF _ st] snoc.IH [OF run] snoc.prems(2) show ?case by (auto intro: switch_more)
  qed
  with switch_ok_run [OF _ switch_ok_empty] show ?thesis by blast
qed

theorem server_refines_switch_witness:
  "\<exists>t dg. switch_run (client_ips sample_pool) (opened_payload clear_aead) (sealed_as clear_aead)
        (length server_history) empty_switch t
     \<and> lease t 1 = Some [10, 8, 0, 2] \<and> delivered t = [client_packet] \<and> emitted t = [(dg, ([192, 0, 2, 1], 9))]"
proof -
  obtain s dg where s: "server_run grid clear_aead server_history (new_server sample_accounts sample_pool 51821) = Some s"
    "to_tun s = [client_packet]" "to_udp s = [(dg, ([192, 0, 2, 1], 9))]" "claims (handlers (vpn s)) 1 = Some [10, 8, 0, 2]"
    using history_runs by blast
  from server_refines_switch [OF sample_pool_wf sample_pool_free s(1) history_no_close] s(2-4) show ?thesis
    by (intro exI [of _ "switch_of s"] exI [of _ dg]) (simp add: switch_of_def)
qed

end
