(* ===== verification/Daemon_Progress.thy ===== *)
theory Daemon_Progress
  imports Daemon_Correct
begin

section \<open>Progress of the connection handlers\<close>

text \<open>
  Each handler makes a bounded number of steps, whatever the others do, and none of them waits
  for another: as long as it has not returned, one of its own events is possible. A server
  whose connections end gives everything back.
\<close>

fun handler_of :: "event \<Rightarrow> nat option" where
  "handler_of (StreamAccepted c ok) = Some c"
| "handler_of (RequestDecoded c r) = Some c"
| "handler_of (AuthStep c f between rf now) = Some c"
| "handler_of (AllocStep c) = Some c"
| "handler_of (ResponseSent c ok) = Some c"
| "handler_of (RegisterStep c now) = Some c"
| "handler_of (SessionEnds c) = Some c"
| "handler_of (ReleaseStep c) = Some c"
| "handler_of _ = None"

fun steps_left :: "phase \<Rightarrow> nat" where
  "steps_left Accepting = 8"
| "steps_left Decoding = 7"
| "steps_left (Authenticating req) = 6"
| "steps_left (Allocating u) = 5"
| "steps_left (Responding u ip) = 4"
| "steps_left (Registering u ip) = 3"
| "steps_left (Serving k ip) = 2"
| "steps_left (Releasing ip) = 1"
| "steps_left Returned = 0"
| "steps_left Panicked = 0"

lemmas handler_step_simps = auth_step_def alloc_step_def respond_step_def register_step_def

lemma handlers_drop_sessions [simp]: "handlers (fold drop_session ks s) = handlers s"
  by (induction ks arbitrary: s) (simp_all add: drop_session_def split: option.split)

text \<open>A step of a handler changes this handler only and brings it closer to its end.\<close>

lemma own_step:
  assumes "daemon_step fl e s = Some s'" and "handler_of e = Some c"
  obtains ph ph' where "handlers s c = Some ph" and "handlers s' = (handlers s)(c \<mapsto> ph')"
    and "steps_left ph' < steps_left ph"
proof -
  have "\<exists>ph ph'. handlers s c = Some ph \<and> handlers s' = (handlers s)(c \<mapsto> ph') \<and> steps_left ph' < steps_left ph"
    using assms
    by (cases e) (auto simp: handler_step_simps split: if_splits option.splits phase.splits prod.splits sum.splits
        outcome.splits intro!: exI)
  then show thesis using that by blast
qed

lemma other_step:
  assumes "daemon_step fl e s = Some s'" and "handler_of e \<noteq> Some c" and "handlers s c = Some ph"
  shows "handlers s' c = Some ph"
proof (cases "handler_of e")
  case None
  then show ?thesis using assms by (cases e) (auto split: if_splits)
next
  case (Some c')
  with own_step [OF assms(1) Some] assms(2,3) show ?thesis by (metis fun_upd_apply)
qed

lemma handler_not_stuck:
  assumes "handlers s c = Some ph" and "ph \<noteq> Returned" and "ph \<noteq> Panicked"
  shows "\<exists>e s'. handler_of e = Some c \<and> daemon_step fl e s = Some s'"
proof (cases ph)
  case Accepting
  then show ?thesis using assms by (intro exI [of _ "StreamAccepted c False"]) simp
next
  case Decoding
  then show ?thesis using assms by (intro exI [of _ "RequestDecoded c None"]) simp
next
  case (Authenticating req)
  then show ?thesis using assms by (intro exI [of _ "AuthStep c None [] (\<lambda>_. None) 0"]) simp
next
  case (Allocating u)
  then show ?thesis using assms by (intro exI [of _ "AllocStep c"]) simp
next
  case (Responding u ip)
  then show ?thesis using assms by (intro exI [of _ "ResponseSent c False"]) simp
next
  case (Registering u ip)
  then show ?thesis using assms by (intro exI [of _ "RegisterStep c 0"]) simp
next
  case (Serving k ip)
  then show ?thesis using assms by (intro exI [of _ "SessionEnds c"]) simp
next
  case (Releasing ip)
  then show ?thesis using assms by (intro exI [of _ "ReleaseStep c"]) simp
qed (use assms in auto)

lemma steps_bounded:
  assumes "daemon_run fl es s = Some s'" and "handlers s c = Some ph"
  shows "\<exists>ph'. handlers s' c = Some ph' \<and> length (filter (\<lambda>e. handler_of e = Some c) es) + steps_left ph' \<le> steps_left ph"
  using assms
proof (induction es arbitrary: s ph)
  case (Cons e es)
  obtain t where t: "daemon_step fl e s = Some t" "daemon_run fl es t = Some s'"
    using Cons.prems(1) by (auto split: option.splits)
  show ?case
  proof (cases "handler_of e = Some c")
    case True
    obtain ph1 where "handlers t c = Some ph1" "steps_left ph1 < steps_left ph"
      by (rule own_step [OF t(1) True]) (use Cons.prems(2) in auto)
    with Cons.IH [OF t(2)] True show ?thesis by fastforce
  next
    case False
    with Cons.IH [OF t(2) other_step [OF t(1) False Cons.prems(2)]] show ?thesis by auto
  qed
qed simp



text \<open>Every handler was there or was accepted.\<close>

lemma run_handlers:
  assumes "daemon_run fl es s = Some s'" and "handlers s' c \<noteq> None"
  shows "handlers s c \<noteq> None \<or> Accepted c \<in> set es"
  using assms
proof (induction es arbitrary: s)
  case (Cons e es)
  obtain t where t: "daemon_step fl e s = Some t" "daemon_run fl es t = Some s'"
    using Cons.prems(1) by (auto split: option.splits)
  have "handlers t c \<noteq> None \<Longrightarrow> handlers s c \<noteq> None \<or> e = Accepted c"
  proof (cases "handler_of e")
    case None
    then show "handlers t c \<noteq> None \<Longrightarrow> ?thesis" using t(1) by (cases e) (auto split: if_splits)
  next
    case (Some c')
    then show "handlers t c \<noteq> None \<Longrightarrow> ?thesis" using own_step [OF t(1) Some] by (metis fun_upd_apply option.distinct(1))
  qed
  with Cons.IH [OF t(2) Cons.prems(2)] show ?case by auto
qed simp

subsection \<open>Draining\<close>

lemma daemon_run_append:
  "daemon_run fl es s = Some t \<Longrightarrow> daemon_run fl (es @ fs) s = daemon_run fl fs t"
  by (induction es arbitrary: s) (auto split: option.splits)

lemma drain_one:
  assumes ok: "ok_state s0" and "running fl s0 s" and "handlers s c = Some ph"
  shows "\<exists>es s'. daemon_run fl es s = Some s' \<and> running fl s0 s' \<and> handlers s' = (handlers s)(c \<mapsto> Returned)
     \<and> length es \<le> 8 \<and> length es \<le> steps_left ph \<and> list_all (\<lambda>e. handler_of e = Some c) es"
  using assms(2,3)
proof (induction "steps_left ph" arbitrary: s ph rule: less_induct)
  case less
  have "ph \<noteq> Panicked" using daemon_okD(2) [OF ok_running [OF less.prems(1) ok]] less.prems(2) by metis
  show ?case
  proof (cases "ph = Returned")
    case True
    then show ?thesis using less.prems by (intro exI [of _ "[]"] exI [of _ s]) auto
  next
    case False
    obtain e t where t: "handler_of e = Some c" "daemon_step fl e s = Some t"
      using handler_not_stuck [OF less.prems(2) False \<open>ph \<noteq> Panicked\<close>] by blast
    obtain ph1 where ph1: "handlers t = (handlers s)(c \<mapsto> ph1)" "steps_left ph1 < steps_left ph"
      by (rule own_step [OF t(2,1)]) (use less.prems(2) in auto)
    have run: "running fl s0 t" by (rule running_step [OF less.prems(1) t(2)]) (use t(1) in auto)
    have "handlers t c = Some ph1" using ph1(1) by simp
    from less.hyps [OF ph1(2) run this] obtain es s' where "daemon_run fl es t = Some s'" "running fl s0 s'" "handlers s' = (handlers t)(c \<mapsto> Returned)"
      "length es \<le> steps_left ph1" "list_all (\<lambda>e. handler_of e = Some c) es"
      by blast
    moreover have "steps_left ph \<le> 8" by (cases ph) simp_all
    ultimately show ?thesis using t ph1 by (intro exI [of _ "e # es"] exI [of _ s']) auto
  qed
qed

lemma drain_all:
  assumes ok: "ok_state s0" and "running fl s0 s"
  shows "\<exists>es s'. daemon_run fl es s = Some s' \<and> running fl s0 s'
     \<and> (\<forall>c. handlers s' c = (if c \<in> set cs \<and> handlers s c \<noteq> None then Some Returned else handlers s c))
     \<and> length es \<le> 8 * length cs \<and> list_all (\<lambda>e. handler_of e \<noteq> None) es"
  using assms(2)
proof (induction cs arbitrary: s)
  case Nil
  then show ?case by (intro exI [of _ "[]"] exI [of _ s]) auto
next
  case (Cons c cs)
  show ?case
  proof (cases "handlers s c")
    case None
    obtain es u where "daemon_run fl es s = Some u" "running fl s0 u"
      "\<And>c'. handlers u c' = (if c' \<in> set cs \<and> handlers s c' \<noteq> None then Some Returned else handlers s c')"
      "length es \<le> 8 * length cs" "list_all (\<lambda>e. handler_of e \<noteq> None) es"
      using Cons.IH [OF Cons.prems] by blast
    then show ?thesis using None by (intro exI [of _ es] exI [of _ u]) auto
  next
    case (Some ph)
    obtain es t where t: "daemon_run fl es s = Some t" "running fl s0 t" "handlers t = (handlers s)(c \<mapsto> Returned)"
      "length es \<le> 8" "list_all (\<lambda>e. handler_of e = Some c) es"
      using drain_one [OF ok Cons.prems Some] by blast
    obtain fs u where u: "daemon_run fl fs t = Some u" "running fl s0 u"
      "\<And>c'. handlers u c' = (if c' \<in> set cs \<and> handlers t c' \<noteq> None then Some Returned else handlers t c')"
      "length fs \<le> 8 * length cs" "list_all (\<lambda>e. handler_of e \<noteq> None) fs"
      using Cons.IH [OF t(2)] by blast
    have "list_all (\<lambda>e. handler_of e \<noteq> None) (es @ fs)" using t(5) u(5) by (auto simp: list_all_iff)
    then show ?thesis
      using t u Some daemon_run_append [OF t(1), of fs] by (intro exI [of _ "es @ fs"] exI [of _ u]) auto
  qed
qed

text \<open>
  C11: The server drains. From every state of a server that \<open>Close\<close> has not reached, with any number
  of connections in any phase, a sequence of at most eight steps per connection, all of them
  steps of the handlers, ends with every handler returned, no session and no address held: no
  combination of connections blocks another for good, and no capacity is lost.
\<close>

theorem server_drains:
  assumes "pool_wf p" and "held p = {}" and "running fl (fresh_server d p port) s"
    and "\<And>c. handlers s c \<noteq> None \<Longrightarrow> c \<in> set cs"
  shows "\<exists>es s'. daemon_run fl es s = Some s' \<and> length es \<le> 8 * length cs
     \<and> list_all (\<lambda>e. handler_of e \<noteq> None) es
     \<and> (\<forall>c. handlers s' c = (if handlers s c = None then None else Some Returned))
     \<and> sessions s' = fmempty \<and> held (ipPool s') = {}"
proof -
  note ok = ok_fresh [OF assms(1,2), of d port]
  obtain es s' where r: "daemon_run fl es s = Some s'" "running fl (fresh_server d p port) s'"
    "length es \<le> 8 * length cs" "list_all (\<lambda>e. handler_of e \<noteq> None) es"
    and h: "\<And>c. handlers s' c = (if c \<in> set cs \<and> handlers s c \<noteq> None then Some Returned else handlers s c)"
    using drain_all [OF ok assms(3), of cs] by blast
  have h': "handlers s' c = (if handlers s c = None then None else Some Returned)" for c
    using h [of c] assms(4) [of c] by auto
  from returned_empty [OF ok_running [OF r(2) ok]] h' have "held (ipPool s') = {} \<and> sessions s' = fmempty" by simp
  with r h' show ?thesis by blast
qed

theorem server_drains_witness:
  "\<exists>s es s'. daemon_run grid (login 1 ''k2'' ''h1'' @ login 2 ''k1'' ''h2'' @ join 1) sample_server = Some s
     \<and> daemon_run grid es s = Some s' \<and> length es \<le> 16 \<and> held (ipPool s') = {} \<and> sessions s' = fmempty"
proof -
  let ?es = "login 1 ''k2'' ''h1'' @ login 2 ''k1'' ''h2'' @ join 1"
  have "(case daemon_run grid ?es sample_server of None \<Rightarrow> False | Some s \<Rightarrow> True)" by code_simp
  then obtain s where s: "daemon_run grid ?es sample_server = Some s" by (auto split: option.splits)
  have live: "c \<in> set [1, 2]" if "handlers s c \<noteq> None" for c
    using run_handlers [OF s] that by (auto simp: login_def join_def sample_server_def fresh_server_def)
  have "running grid sample_server s" by (rule running_run [OF s]) (simp add: login_def join_def)
  moreover have "held sample_pool = {}" by (simp add: sample_pool_def held_def)
  ultimately show ?thesis
    using server_drains [OF sample_pool_wf _ _ live] s unfolding sample_server_def by fastforce
qed

end
