(* ===== verification/Client.thy ===== *)
theory Client
  imports Data_Plane
begin

section \<open>The client engine (client/go_core/client.go)\<close>

text \<open>
  \<open>connectionWatcher\<close> calls \<open>connectUDP\<close> in a loop; a call dials, authenticates, creates the TUN
  device and the data socket and then waits for its end. What the network and the kernel
  answer to one call is a record (\<open>attempt\<close>). The client keeps the numbers of the connections,
  sockets and devices in its fields, \<open>net\<close> those that are open, so that what is never closed
  shows. QUIC is outside the repository; the choice of the application protocol in its TLS
  handshake is that of \<open>crypto/tls\<close>.
\<close>

definition client_protos :: "string list" where
  "client_protos = [''vpn8-quic'']"

definition server_protos :: "string list" where
  "server_protos = [''h3'']"

text \<open>
  \<open>negotiateALPN\<close> of \<open>crypto/tls\<close>: \<open>None\<close> is the alert that ends the handshake, the empty string
  no protocol.
\<close>

definition negotiateALPN :: "string list \<Rightarrow> string list \<Rightarrow> bool \<Rightarrow> string option" where
  "negotiateALPN serverProtos clientProtos quic =
     (if serverProtos = [] \<or> clientProtos = []
      then (if quic \<and> serverProtos \<noteq> [] then None else Some [])
      else case find (\<lambda>s. s \<in> set clientProtos) serverProtos of
        Some s \<Rightarrow> Some s
      | None \<Rightarrow> if ''h2'' \<in> set serverProtos \<and> ''http/1.1'' \<in> set clientProtos then Some [] else None)"

record VPNClient =
  serverAddr :: string
  accessKey :: string
  cl_apiKey :: string
  hwid_of :: string
  cl_psk :: bytes
  quicConn :: "nat option"
  dataConn :: "nat option"
  cl_dataPort :: int
  tcpConn :: "nat option"
  cl_tunDev :: "nat option"
  activeMode :: string
  is_running :: bool
  ctx_cancelled :: bool
  rxBytes :: u64
  txBytes :: u64

definition NewVPNClient :: "string \<Rightarrow> string \<Rightarrow> string \<Rightarrow> bytes \<Rightarrow> VPNClient" where
  "NewVPNClient addr key h k =
     \<lparr>serverAddr = addr, accessKey = key, cl_apiKey = [], hwid_of = h, cl_psk = k, quicConn = None,
      dataConn = None, cl_dataPort = 0, tcpConn = None, cl_tunDev = None, activeMode = ''UDP'',
      is_running = False, ctx_cancelled = False, rxBytes = 0, txBytes = 0\<rparr>"

record net =
  quic_open :: "nat list"
  data_open :: "nat list"
  tcp_open :: "nat list"
  tun_open :: "nat list"
  next_id :: nat

text \<open>\<open>SetCustomTUN\<close> and \<open>SetTUN\<close>.\<close>

definition SetCustomTUN :: "nat \<Rightarrow> VPNClient \<Rightarrow> VPNClient" where
  "SetCustomTUN t c = c\<lparr>cl_tunDev := Some t\<rparr>"

text \<open>The methods that read a field, under the mutex or atomically.\<close>

abbreviation GetActiveMode :: "VPNClient \<Rightarrow> string" where
  "GetActiveMode c \<equiv> activeMode c"

abbreviation GetAPIKey :: "VPNClient \<Rightarrow> string" where
  "GetAPIKey c \<equiv> cl_apiKey c"

abbreviation GetRxBytes :: "VPNClient \<Rightarrow> u64" where
  "GetRxBytes c \<equiv> rxBytes c"

abbreviation GetTxBytes :: "VPNClient \<Rightarrow> u64" where
  "GetTxBytes c \<equiv> txBytes c"

abbreviation GetCustomTUN :: "VPNClient \<Rightarrow> nat option" where
  "GetCustomTUN c \<equiv> cl_tunDev c"

abbreviation IsRunning :: "VPNClient \<Rightarrow> bool" where
  "IsRunning c \<equiv> is_running c"

text \<open>\<open>Start\<close>: \<open>None\<close> when the client is already running.\<close>

definition Start :: "VPNClient \<Rightarrow> VPNClient option" where
  "Start c = (if is_running c then None else Some (c\<lparr>is_running := True, ctx_cancelled := False\<rparr>))"

definition close_opt :: "nat option \<Rightarrow> nat list \<Rightarrow> nat list" where
  "close_opt r xs = (case r of None \<Rightarrow> xs | Some i \<Rightarrow> removeAll i xs)"

definition cleanup :: "VPNClient \<times> net \<Rightarrow> VPNClient \<times> net" where
  "cleanup st =
     (let (c, n) = st in
      (c\<lparr>quicConn := None, dataConn := None, tcpConn := None, cl_tunDev := None, is_running := False,
         ctx_cancelled := True\<rparr>,
       n\<lparr>quic_open := close_opt (quicConn c) (quic_open n), data_open := close_opt (dataConn c) (data_open n),
         tcp_open := close_opt (tcpConn c) (tcp_open n), tun_open := close_opt (cl_tunDev c) (tun_open n)\<rparr>))"

definition Stop :: "VPNClient \<times> net \<Rightarrow> VPNClient \<times> net" where
  "Stop st = cleanup st"

subsection \<open>connectUDP\<close>

datatype reply = NoReply string | Reply AuthResponse

definition authenticateClient :: "reply \<Rightarrow> string + AuthResponse" where
  "authenticateClient r =
     (case r of
        NoReply e \<Rightarrow> Inl e
      | Reply resp \<Rightarrow>
          if Status resp \<noteq> ''success'' then Inl (''auth failure: '' @ Message resp) else Inr resp)"

datatype ending = CtxDone | ConnLost

record attempt =
  at_dial :: "string option"
  at_reply :: reply
  at_name :: string
  at_server :: bytes
  at_tun :: "TUNConfig \<Rightarrow> string option"
  at_resolve :: "string option"
  at_listen :: "string option"
  at_end :: ending

text \<open>The prefix length \<open>setupTUN\<close> reads from the subnet of the response.\<close>

definition subnet_prefix :: "string \<Rightarrow> int" where
  "subnet_prefix subnet =
     (case split_on CHR ''/'' subnet of
        [_, n] \<Rightarrow> (case ParseInt64 n of Some i \<Rightarrow> i | None \<Rightarrow> 16)
      | _ \<Rightarrow> 16)"

definition client_tun_config :: "(string \<Rightarrow> bytes option) \<Rightarrow> string \<Rightarrow> bytes \<Rightarrow> AuthResponse \<Rightarrow> TUNConfig" where
  "client_tun_config p6 nm server resp =
     \<lparr>DevName = nm, Address = (case ParseIP p6 (AssignedIP resp) of Some ip \<Rightarrow> ip | None \<Rightarrow> []),
      CIDR = subnet_prefix (Subnet resp), tc_MTU = MTU resp, RouteServer = server\<rparr>"

text \<open>
  The effects of \<open>connectUDP\<close> on the client, in the order of the code: the connection, the
  fields of the response, the two halves of \<open>setupTUN\<close> and the data socket. \<open>drop_quic\<close> is the
  \<open>CloseWithError\<close> of the paths that return.
\<close>

definition keep_quic :: "VPNClient \<times> net \<Rightarrow> nat \<times> VPNClient \<times> net" where
  "keep_quic st =
     (let (c, n) = st; q = next_id n
      in (q, c\<lparr>quicConn := Some q\<rparr>, n\<lparr>quic_open := q # quic_open n, next_id := Suc q\<rparr>))"

definition keep_response :: "AuthResponse \<Rightarrow> VPNClient \<times> net \<Rightarrow> VPNClient \<times> net" where
  "keep_response resp st = (let (c, n) = st in (c\<lparr>cl_dataPort := DataPort resp, cl_apiKey := KeyForAPI resp\<rparr>, n))"

definition close_device :: "VPNClient \<times> net \<Rightarrow> VPNClient \<times> net" where
  "close_device st =
     (let (c, n) = st
      in (c\<lparr>cl_tunDev := None\<rparr>, n\<lparr>tun_open := close_opt (cl_tunDev c) (tun_open n)\<rparr>))"

definition open_device :: "VPNClient \<times> net \<Rightarrow> VPNClient \<times> net" where
  "open_device st =
     (let (c, n) = st
      in (c\<lparr>cl_tunDev := Some (next_id n)\<rparr>,
          n\<lparr>tun_open := next_id n # tun_open n, next_id := Suc (next_id n)\<rparr>))"

definition open_data :: "VPNClient \<times> net \<Rightarrow> VPNClient \<times> net" where
  "open_data st =
     (let (c, n) = st
      in (c\<lparr>dataConn := Some (next_id n)\<rparr>,
          n\<lparr>data_open := next_id n # data_open n, next_id := Suc (next_id n)\<rparr>))"

definition drop_quic :: "nat \<Rightarrow> VPNClient \<times> net \<Rightarrow> VPNClient \<times> net" where
  "drop_quic q st = (let (c, n) = st in (c, n\<lparr>quic_open := removeAll q (quic_open n)\<rparr>))"

text \<open>
  \<open>setupTUN\<close> closes the device the client has, whoever set it, and creates its own;
  \<open>created\<close> is the error \<open>CreateTUN\<close> returns for the configuration, if it does.
\<close>

definition setupTUN ::
  "(TUNConfig \<Rightarrow> string option) \<Rightarrow> TUNConfig \<Rightarrow> VPNClient \<times> net \<Rightarrow> string option \<times> VPNClient \<times> net" where
  "setupTUN created cfg st =
     (let st = close_device st in
      case created cfg of Some e \<Rightarrow> (Some e, st) | None \<Rightarrow> (None, open_device st))"

text \<open>The texts of the errors of the obfuscator; those of the cipher and the random source are the libraries'.\<close>

fun obf_err_text :: "obf_err \<Rightarrow> string" where
  "obf_err_text ErrPacketTooShort = ''packet is too short to be deobfuscated''"
| "obf_err_text ErrInvalidKeySize = ''pre-shared key must be exactly 32 bytes long''"
| "obf_err_text ErrInvalidMagic = ''invalid protocol magic bytes''"
| "obf_err_text ErrAuthFailed = ''AEAD authentication failed''"
| "obf_err_text ErrDstTooSmall = ''destination buffer too small''"
| "obf_err_text ErrRandSource = ''random source''"
| "obf_err_text ErrCipher = ''chacha20poly1305: bad key length''"

text \<open>\<open>NewObfuscator\<close> does not panic; its branch here is without effect.\<close>

definition connectUDP ::
  "crypto_env \<Rightarrow> (string \<Rightarrow> bytes option) \<Rightarrow> attempt \<Rightarrow> VPNClient \<times> net
     \<Rightarrow> string option \<times> VPNClient \<times> net" where
  "connectUDP ce p6 a st =
     (case at_dial a of
        Some e \<Rightarrow> (Some e, st)
      | None \<Rightarrow>
          let (q, st) = keep_quic st in
          (case authenticateClient (at_reply a) of
             Inl e \<Rightarrow> (Some e, drop_quic q st)
           | Inr resp \<Rightarrow>
               let (e, st) = setupTUN (at_tun a) (client_tun_config p6 (at_name a) (at_server a) resp)
                               (keep_response resp st)
               in (case e of
                     Some e \<Rightarrow> (Some (''failed to setup TUN: '' @ e), drop_quic q st)
                   | None \<Rightarrow>
                       (case at_resolve a of
                          Some e \<Rightarrow> (Some e, drop_quic q st)
                        | None \<Rightarrow>
                            (case NewObfuscator ce (cl_psk (fst st)) of
                               Ok obf \<Rightarrow>
                                 (case at_listen a of
                                    Some e \<Rightarrow> (Some e, drop_quic q st)
                                  | None \<Rightarrow>
                                      (let st = open_data st
                                       in (Some (case at_end a of
                                                   CtxDone \<Rightarrow> ''context canceled'' | ConnLost \<Rightarrow> ''connection lost''),
                                           drop_quic q st)))
                             | Err e \<Rightarrow> (Some (obf_err_text e), drop_quic q st)
                             | Panic \<Rightarrow> (Some [], drop_quic q st))))))"

definition connectTCP :: "string option" where
  "connectTCP = Some ''TCP TUN fallback not yet fully implemented''"

text \<open>One round of \<open>connectionWatcher\<close>; the sleeps are left out.\<close>

definition watcher_round ::
  "crypto_env \<Rightarrow> (string \<Rightarrow> bytes option) \<Rightarrow> attempt \<Rightarrow> VPNClient \<times> net \<Rightarrow> VPNClient \<times> net" where
  "watcher_round ce p6 a st =
     (if ctx_cancelled (fst st) then st
      else case connectUDP ce p6 a st of
        (Some e, c, n) \<Rightarrow> (c\<lparr>activeMode := ''TCP''\<rparr>, n)
      | (None, c, n) \<Rightarrow> (c, n))"

definition watcher_rounds ::
  "crypto_env \<Rightarrow> (string \<Rightarrow> bytes option) \<Rightarrow> attempt list \<Rightarrow> VPNClient \<times> net \<Rightarrow> VPNClient \<times> net" where
  "watcher_rounds ce p6 ats st = fold (watcher_round ce p6) ats st"

subsection \<open>The relay loops\<close>

text \<open>
  An iteration of \<open>tunToUdpLoop\<close> for what the device delivers: the counter and the datagrams
  handed to the socket. While the client has no device the loop only sleeps.
\<close>

definition tun_to_udp_step ::
  "aead \<Rightarrow> bytes \<Rightarrow> bytes option \<times> bytes \<Rightarrow> string option \<Rightarrow> addr \<Rightarrow> tun_event \<Rightarrow> u64
     \<Rightarrow> (u64 \<times> (bytes \<times> addr) list) iteration" where
  "tun_to_udp_step ob obuf rnd sock server ev tx =
     (case ev of
        TunError e \<Rightarrow> Ends
      | TunPacket p \<Rightarrow>
          let pkt = take data_buf_size p in
          if pkt \<noteq> [] \<and> drop_bit 4 (pkt ! 0) \<noteq> 4 then GoesOn (tx, [])
          else (case WriteTo ob obuf rnd sock pkt server of
                  (Ok _, out) \<Rightarrow> GoesOn (tx + word_of_nat (length pkt), out)
                | _ \<Rightarrow> Ends))"

text \<open>An iteration of \<open>udpToTunLoop\<close>: the counter, the packet written to the device, the events left.\<close>

definition udp_to_tun_step ::
  "aead \<Rightarrow> bytes \<Rightarrow> bool \<Rightarrow> sock_event list \<Rightarrow> u64 \<Rightarrow> (u64 \<times> bytes option \<times> sock_event list) iteration" where
  "udp_to_tun_step ob buf tun evs rx =
     (case ReadFrom ob buf evs of
        None \<Rightarrow> Blocked
      | Some (Ok (n, _), buf', evs') \<Rightarrow>
          GoesOn (rx + word_of_nat n, if tun then Some (take n buf') else None, evs')
      | Some _ \<Rightarrow> Ends)"

end
