(* ===== verification/Client_Correct.thy ===== *)
theory Client_Correct
  imports Client Data_Plane_Correct Daemon_Correct
begin

section \<open>The client engine against the daemon\<close>

text \<open>
  What the two sides do together: whether the QUIC handshake can succeed, what a connection
  leaves open, and what a packet is when it has gone through both ends of the tunnel.
\<close>

subsection \<open>The handshake\<close>

text \<open>A dial follows the negotiation when it fails where the negotiation does.\<close>

definition dial_follows_alpn :: "attempt \<Rightarrow> bool" where
  "dial_follows_alpn a \<longleftrightarrow>
     (case negotiateALPN server_protos client_protos True of None \<Rightarrow> at_dial a \<noteq> None | Some _ \<Rightarrow> True)"

lemma no_common_protocol: "negotiateALPN server_protos client_protos True = None"
  by code_simp

lemma watcher_round_dial_fails:
  assumes "at_dial a = Some e" and "\<not> ctx_cancelled (fst st)"
  shows "watcher_round ce p6 a st = ((fst st)\<lparr>activeMode := ''TCP''\<rparr>, snd st)"
  using assms by (simp add: watcher_round_def connectUDP_def split_beta)

lemma rounds_dial_fails:
  assumes "\<And>a. a \<in> set ats \<Longrightarrow> at_dial a \<noteq> None" and "\<not> ctx_cancelled c" and "ats \<noteq> []"
  shows "watcher_rounds ce p6 ats (c, n) = (c\<lparr>activeMode := ''TCP''\<rparr>, n)"
  using assms
proof (induction ats arbitrary: c)
  case (Cons a ats)
  obtain e where e: "at_dial a = Some e" using Cons.prems(1) [of a] by auto
  have "watcher_rounds ce p6 (a # ats) (c, n) = watcher_rounds ce p6 ats (c\<lparr>activeMode := ''TCP''\<rparr>, n)"
    using watcher_round_dial_fails [OF e, of "(c, n)"] Cons.prems(2) by (simp add: watcher_rounds_def)
  then show ?case
    using Cons.IH [of "c\<lparr>activeMode := ''TCP''\<rparr>"] Cons.prems
    by (cases "ats = []") (auto simp: watcher_rounds_def)
qed simp

text \<open>
  C12: The client of this repository cannot connect to its server: the only application protocol
  it offers is not the only one the server accepts, so the handshake ends in an alert, and a
  client whose dials fail accordingly goes on dialling for ever: however many rounds its
  watcher makes, it opens no connection, no data socket and no device, and shows the mode TCP,
  which carries nothing.
\<close>

theorem client_never_connects:
  assumes "\<And>a. a \<in> set ats \<Longrightarrow> dial_follows_alpn a"
    and "Start (NewVPNClient addr key h k) = Some c" and "ats \<noteq> []"
  shows "watcher_rounds ce p6 ats (c, n) = (c\<lparr>activeMode := ''TCP''\<rparr>, n)
     \<and> quicConn c = None \<and> dataConn c = None \<and> cl_tunDev c = None \<and> connectTCP \<noteq> None"
proof -
  have c: "\<not> ctx_cancelled c" "quicConn c = None" "dataConn c = None" "cl_tunDev c = None"
    using assms(2) by (auto simp: Start_def NewVPNClient_def)
  have "watcher_rounds ce p6 ats (c, n) = (c\<lparr>activeMode := ''TCP''\<rparr>, n)"
    by (rule rounds_dial_fails) (use assms c in \<open>auto simp: dial_follows_alpn_def no_common_protocol\<close>)
  with c show ?thesis by (simp add: connectTCP_def)
qed

definition sample_net :: net where
  "sample_net = \<lparr>quic_open = [], data_open = [], tcp_open = [], tun_open = [], next_id = 0\<rparr>"

definition sample_client :: VPNClient where
  "sample_client = (NewVPNClient ''vpn:443'' ''epn_1'' ''h1'' (replicate 32 1))\<lparr>is_running := True\<rparr>"

lemma sample_client_started:
  "Start (NewVPNClient ''vpn:443'' ''epn_1'' ''h1'' (replicate 32 1)) = Some sample_client"
  by (simp add: Start_def sample_client_def NewVPNClient_def)

definition refused :: attempt where
  "refused = \<lparr>at_dial = Some ''no application protocol'', at_reply = NoReply [], at_name = [], at_server = [],
     at_tun = (\<lambda>_. None), at_resolve = None, at_listen = None, at_end = CtxDone\<rparr>"

theorem client_never_connects_witness:
  "watcher_rounds \<lparr>sha256_sum = id, new_cipher = (\<lambda>_. None)\<rparr> (\<lambda>_. None) [refused, refused] (sample_client, sample_net)
     = (sample_client\<lparr>activeMode := ''TCP''\<rparr>, sample_net)"
  using client_never_connects [OF _ sample_client_started, of "[refused, refused]"]
  by (simp add: dial_follows_alpn_def no_common_protocol refused_def)

subsection \<open>What connections leave open\<close>

text \<open>An attempt that gets as far as the relay loops and loses its connection later.\<close>

definition connection_ok :: "crypto_env \<Rightarrow> (string \<Rightarrow> bytes option) \<Rightarrow> bytes \<Rightarrow> attempt \<Rightarrow> bool" where
  "connection_ok ce p6 k a \<longleftrightarrow>
     at_dial a = None
     \<and> (case authenticateClient (at_reply a) of
          Inl e \<Rightarrow> False
        | Inr resp \<Rightarrow> at_tun a (client_tun_config p6 (at_name a) (at_server a) resp) = None)
     \<and> at_resolve a = None
     \<and> (case NewObfuscator ce k of Ok obf \<Rightarrow> True | _ \<Rightarrow> False)
     \<and> at_listen a = None \<and> at_end a = ConnLost"

lemmas stage_defs = keep_quic_def keep_response_def close_device_def open_device_def open_data_def drop_quic_def

text \<open>Whatever is open has a number that was given out.\<close>

definition numbered :: "net \<Rightarrow> bool" where
  "numbered n \<longleftrightarrow> (\<forall>i \<in> set (quic_open n) \<union> set (data_open n) \<union> set (tun_open n). i < next_id n)"

lemma removeAll_fresh: "numbered n \<Longrightarrow> removeAll (next_id n) (quic_open n) = quic_open n"
  by (rule removeAll_id) (auto simp: numbered_def)

lemma set_close_opt: "set (close_opt r xs) \<subseteq> set xs"
  by (auto simp: close_opt_def split: option.splits)

lemma round_connects:
  assumes "connection_ok ce p6 (cl_psk c) a" and "\<not> ctx_cancelled c" and "numbered n"
  obtains c' n' d t where "watcher_round ce p6 a (c, n) = (c', n')"
    and "data_open n' = d # data_open n" and "d \<notin> set (data_open n)" and "dataConn c' = Some d"
    and "tun_open n' = t # close_opt (cl_tunDev c) (tun_open n)" and "t \<notin> set (tun_open n)"
    and "cl_tunDev c' = Some t" and "quic_open n' = quic_open n" and "numbered n'"
    and "cl_psk c' = cl_psk c" and "\<not> ctx_cancelled c'" and "activeMode c' = ''TCP''"
proof -
  define r where "r = watcher_round ce p6 a (c, n)"
  have facts: "data_open (snd r) = Suc (Suc (next_id n)) # data_open n" "dataConn (fst r) = Some (Suc (Suc (next_id n)))"
    "tun_open (snd r) = Suc (next_id n) # close_opt (cl_tunDev c) (tun_open n)"
    "cl_tunDev (fst r) = Some (Suc (next_id n))" "quic_open (snd r) = quic_open n"
    "next_id (snd r) = Suc (Suc (Suc (next_id n)))" "cl_psk (fst r) = cl_psk c"
    "\<not> ctx_cancelled (fst r)" "activeMode (fst r) = ''TCP''"
    using assms(1,2) removeAll_fresh [OF assms(3)]
    by (auto simp: r_def watcher_round_def connectUDP_def connection_ok_def setupTUN_def stage_defs Let_def
        split: sum.splits outcome.splits)
  have old: "i < next_id n" if "i \<in> set (quic_open n) \<union> set (data_open n) \<union> set (tun_open n)" for i
    using assms(3) that by (simp add: numbered_def)
  have "i < next_id n" if "i \<in> set (close_opt (cl_tunDev c) (tun_open n))" for i
    using that set_close_opt [of "cl_tunDev c" "tun_open n"] old by blast
  with old have "numbered (snd r)"
    by (simp add: numbered_def facts ball_Un less_SucI)
  moreover have "Suc (Suc (next_id n)) \<notin> set (data_open n)" "Suc (next_id n) \<notin> set (tun_open n)"
    using old by force+
  ultimately show thesis
    using facts by (intro that [of "fst r" "snd r"]) (simp_all add: r_def)
qed

text \<open>After \<open>k\<close> connections there are \<open>k\<close> more data sockets, the last of them the client's.\<close>

lemma rounds_connect:
  assumes "\<And>a. a \<in> set ats \<Longrightarrow> connection_ok ce p6 (cl_psk c) a" and "\<not> ctx_cancelled c" and "numbered n"
    and "ats \<noteq> []"
  shows "\<exists>c' n' ds d t. watcher_rounds ce p6 ats (c, n) = (c', n')
     \<and> data_open n' = d # ds @ data_open n \<and> length ats = Suc (length ds)
     \<and> d \<notin> set (ds @ data_open n) \<and> dataConn c' = Some d
     \<and> tun_open n' = t # close_opt (cl_tunDev c) (tun_open n) \<and> t \<notin> set (close_opt (cl_tunDev c) (tun_open n))
     \<and> cl_tunDev c' = Some t \<and> quic_open n' = quic_open n \<and> activeMode c' = ''TCP''"
  using assms
proof (induction ats arbitrary: c n)
  case (Cons a ats)
  obtain c1 n1 d t where r: "watcher_round ce p6 a (c, n) = (c1, n1)"
    and d: "data_open n1 = d # data_open n" "d \<notin> set (data_open n)" "dataConn c1 = Some d"
    and t: "tun_open n1 = t # close_opt (cl_tunDev c) (tun_open n)" "t \<notin> set (tun_open n)" "cl_tunDev c1 = Some t"
    and q: "quic_open n1 = quic_open n" and n1: "numbered n1" and c1: "cl_psk c1 = cl_psk c" "\<not> ctx_cancelled c1"
    and m: "activeMode c1 = ''TCP''"
    by (rule round_connects [OF Cons.prems(1) [OF list.set_intros(1)] Cons.prems(2,3)]) blast
  have t': "t \<notin> set (close_opt (cl_tunDev c) (tun_open n))" using t(2) set_close_opt by blast
  have run: "watcher_rounds ce p6 (a # ats) (c, n) = watcher_rounds ce p6 ats (c1, n1)"
    by (simp add: watcher_rounds_def r)
  show ?case
  proof (cases "ats = []")
    case True
    then show ?thesis using run d t t' q m by (simp add: watcher_rounds_def)
  next
    case False
    have closed: "close_opt (cl_tunDev c1) (tun_open n1) = close_opt (cl_tunDev c) (tun_open n)"
      using t t' by (simp add: close_opt_def [of "Some t"])
    obtain c' n' ds d' t'' where "watcher_rounds ce p6 ats (c1, n1) = (c', n')"
      "data_open n' = d' # ds @ data_open n1" "length ats = Suc (length ds)" "d' \<notin> set (ds @ data_open n1)"
      "dataConn c' = Some d'" "tun_open n' = t'' # close_opt (cl_tunDev c1) (tun_open n1)"
      "t'' \<notin> set (close_opt (cl_tunDev c1) (tun_open n1))" "cl_tunDev c' = Some t''"
      "quic_open n' = quic_open n1" "activeMode c' = ''TCP''"
      using Cons.IH [OF _ c1(2) n1 False] Cons.prems(1) c1(1) by force
    then show ?thesis using run d q closed
      by (intro exI [of _ c'] exI [of _ n'] exI [of _ "ds @ [d]"] exI [of _ d'] exI [of _ t'']) simp
  qed
qed simp

text \<open>
  Reconnecting leaks. Each connection of a client opens a data socket and overwrites the
  field that holds the one before, so after \<open>k\<close> connections \<open>k\<close> more sockets are open, of which
  \<open>Stop\<close> closes the last only. The devices and the QUIC connections do not leak: one device is
  open in between and none after \<open>Stop\<close>; a device set with \<open>SetCustomTUN\<close> is closed by the first
  connection and never used. The mode the client shows is TCP from the first loss on, while its
  packets go over UDP.
\<close>

theorem reconnect_leaks_sockets:
  assumes "\<And>a. a \<in> set ats \<Longrightarrow> connection_ok ce p6 (cl_psk c) a" and "\<not> ctx_cancelled c" and "numbered n"
    and "ats \<noteq> []"
  shows "case watcher_rounds ce p6 ats (SetCustomTUN i c, n) of (c', n') \<Rightarrow>
       length (data_open n') = length (data_open n) + length ats
     \<and> length (data_open (snd (Stop (c', n')))) = length (data_open n) + length ats - 1
     \<and> (\<exists>t. tun_open n' = t # removeAll i (tun_open n) \<and> cl_tunDev c' = Some t)
     \<and> tun_open (snd (Stop (c', n'))) = removeAll i (tun_open n)
     \<and> quic_open n' = quic_open n \<and> activeMode c' = ''TCP''"
proof -
  obtain c' n' ds d t where r: "watcher_rounds ce p6 ats (SetCustomTUN i c, n) = (c', n')"
    and d: "data_open n' = d # ds @ data_open n" "length ats = Suc (length ds)" "d \<notin> set (ds @ data_open n)"
      "dataConn c' = Some d"
    and t: "tun_open n' = t # removeAll i (tun_open n)" "t \<notin> set (removeAll i (tun_open n))" "cl_tunDev c' = Some t"
    and q: "quic_open n' = quic_open n" "activeMode c' = ''TCP''"
    using rounds_connect [of ats ce p6 "SetCustomTUN i c" n] assms
    by (fastforce simp: SetCustomTUN_def close_opt_def)
  have "removeAll d (ds @ data_open n) = ds @ data_open n" by (rule removeAll_id [OF d(3)])
  moreover have "removeAll t (removeAll i (tun_open n)) = removeAll i (tun_open n)" by (rule removeAll_id [OF t(2)])
  ultimately show ?thesis using d t q
    by (simp add: r Stop_def cleanup_def close_opt_def)
qed

definition greeting :: AuthResponse where
  "greeting = \<lparr>Status = ''success'', Message = [], AssignedIP = ''10.8.0.2'', ServerIPText = ''10.8.0.1'',
     Subnet = ''10.8.0.0/16'', MTU = 1200, DataPort = 51821, KeyForAPI = ''api_1''\<rparr>"

definition served_attempt :: attempt where
  "served_attempt = \<lparr>at_dial = None, at_reply = Reply greeting, at_name = ''utun3'', at_server = [192, 0, 2, 1],
     at_tun = (\<lambda>_. None), at_resolve = None, at_listen = None, at_end = ConnLost\<rparr>"

theorem reconnect_leaks_sockets_witness:
  "case watcher_rounds \<lparr>sha256_sum = id, new_cipher = (\<lambda>_. Some clear_aead)\<rparr> (\<lambda>_. None)
       [served_attempt, served_attempt, served_attempt] (SetCustomTUN 7 sample_client, sample_net\<lparr>next_id := 8\<rparr>) of
     (c, n) \<Rightarrow> length (data_open (snd (Stop (c, n)))) = 2 \<and> tun_open (snd (Stop (c, n))) = []"
proof -
  have "connection_ok \<lparr>sha256_sum = id, new_cipher = (\<lambda>_. Some clear_aead)\<rparr> (\<lambda>_. None) (cl_psk sample_client)
      served_attempt"
    by (simp add: connection_ok_def served_attempt_def authenticateClient_def greeting_def NewObfuscator_def
        sample_client_def NewVPNClient_def)
  moreover have "\<not> ctx_cancelled sample_client" "numbered (sample_net\<lparr>next_id := 8\<rparr>)"
    by (simp_all add: sample_client_def NewVPNClient_def numbered_def sample_net_def)
  ultimately show ?thesis
    using reconnect_leaks_sockets [of "[served_attempt, served_attempt, served_attempt]"
        "\<lparr>sha256_sum = id, new_cipher = (\<lambda>_. Some clear_aead)\<rparr>" "\<lambda>_. None" sample_client "sample_net\<lparr>next_id := 8\<rparr>" 7]
    by (auto simp: sample_net_def split: prod.splits)
qed

subsection \<open>The tunnel from end to end\<close>

text \<open>What the client's loops do with a packet and with a datagram that decodes.\<close>

lemma tun_to_udp_sends:
  assumes c: "cipher_ok ob" and d: "draw_ok rnd" and b: "length obuf = udp_buf_size"
    and p: "pkt \<noteq> []" "drop_bit 4 (pkt ! 0) = 4" "length pkt \<le> data_buf_size"
  shows "\<exists>dg. tun_to_udp_step ob obuf rnd None server (TunPacket pkt) tx
      = GoesOn (tx + word_of_nat (length pkt), [(dg, server)]) \<and> decode_packet ob dg = Some pkt"
proof -
  have fits: "payload_fits rnd pkt"
    using d p(3) by (simp add: payload_fits_def data_buf_size_def DefaultMTU_def udp_buf_size_def)
  obtain dg where "WriteTo ob obuf rnd None pkt server = (Ok (length pkt), [(dg, server)])"
    and "decode_packet ob dg = Some pkt"
    using WriteTo_decodes [OF c fits b] by blast
  then show ?thesis using p by (auto simp: tun_to_udp_step_def)
qed

lemma udp_to_tun_writes:
  assumes "length buf = data_buf_size" and "decode_packet ob dg = Some pkt" and "length pkt \<le> data_buf_size"
  shows "udp_to_tun_step ob buf True (Recv dg a # evs) rx
      = GoesOn (rx + word_of_nat (length pkt), Some pkt, evs)"
proof -
  have "take (min (length buf) (length pkt)) (fst (copy_into buf pkt)) = pkt"
    using assms take_copy_into [of buf pkt] by (simp add: snd_copy_into)
  then show ?thesis
    using assms by (simp add: udp_to_tun_step_def ReadFrom_decoded [OF assms(2)] del: ReadFrom.simps)
qed

text \<open>
  C7: The tunnel is transparent. An IPv4 packet of at most 1300 bytes from the client's device,
  whose source address is that of an unlimited session, leaves as one datagram to the server;
  the server that receives it from any address writes the same bytes to its own device, and
  from then on a packet of its device for that session goes to the address the datagram came
  from and is written, byte for byte, to the client's device. Both counters of the client grow
  by the lengths of the packets.
\<close>

theorem tunnel_end_to_end:
  fixes sess :: ClientSession
  assumes c: "cipher_ok ob" and d: "draw_ok rnd" "draw_ok rnd'"
    and b: "length obuf = udp_buf_size" "length obuf' = udp_buf_size"
      "length buf = data_buf_size" "length cbuf = data_buf_size"
    and up: "SrcIPUint32 pkt = Ok k" "length pkt \<le> data_buf_size"
    and sess: "fmlookup S k = Some sess" "upLimiter sess = None" "downLimiter sess = None"
    and down: "DstIPUint32 p = Ok k" "length p \<le> data_buf_size"
  shows "\<exists>dg S1. tun_to_udp_step ob obuf rnd None server (TunPacket pkt) tx
            = GoesOn (tx + word_of_nat (length pkt), [(dg, server)])
     \<and> data_read_step fl now True ob buf (Recv dg nat_addr # evs) S = GoesOn (S1, Some pkt, evs)
     \<and> (\<exists>dg' S2. tun_read_step fl now' ob obuf' rnd' None (TunPacket p) S1 = GoesOn (S2, [(dg', nat_addr)])
          \<and> udp_to_tun_step ob cbuf True (Recv dg' server # evs') rx
              = GoesOn (rx + word_of_nat (length p), Some p, evs'))"
proof -
  have v4: "pkt \<noteq> []" "drop_bit 4 (pkt ! 0) = 4"
    using up(1) src_key_iff [of pkt k] by (auto simp: is_ipv4_def)
  obtain dg where dg: "tun_to_udp_step ob obuf rnd None server (TunPacket pkt) tx
      = GoesOn (tx + word_of_nat (length pkt), [(dg, server)])" "decode_packet ob dg = Some pkt"
    using tun_to_udp_sends [OF c d(1) b(1) v4 up(2)] by blast
  let ?S1 = "fmupd k (sess\<lparr>clientAddr := Some nat_addr\<rparr>) S"
  have rd: "data_read_step fl now True ob buf (Recv dg nat_addr # evs) S = GoesOn (?S1, Some pkt, evs)"
    by (rule data_read_accepts [OF b(3) dg(2) up(2,1) sess(1,2)])
  obtain dg' S2 where "tun_read_step fl now' ob obuf' rnd' None (TunPacket p) ?S1 = GoesOn (S2, [(dg', nat_addr)])"
    and dec: "decode_packet ob dg' = Some p"
    using tun_read_sends [OF c d(2) b(2) down, of ?S1 "sess\<lparr>clientAddr := Some nat_addr\<rparr>" nat_addr fl now'] sess(3) by auto
  with dg(1) rd udp_to_tun_writes [OF b(4) dec down(2)] show ?thesis by blast
qed

theorem tunnel_end_to_end_witness:
  "\<exists>dg S1. tun_to_udp_step clear_aead (replicate udp_buf_size 0) (Some (replicate 24 7), [1]) None ([192, 0, 2, 7], 51821)
        (TunPacket client_packet) 0 = GoesOn (23, [(dg, ([192, 0, 2, 7], 51821))])
     \<and> data_read_step grid 0 True clear_aead (replicate data_buf_size 0) [Recv dg ([192, 0, 2, 1], 9)] sample_table
        = GoesOn (S1, Some client_packet, [])"
proof -
  have len: "length client_packet \<le> data_buf_size" "length server_packet \<le> data_buf_size"
    "length client_packet = 23" and src: "SrcIPUint32 client_packet = Ok 0x0A080002" by code_simp+
  obtain sess where "fmlookup sample_table 0x0A080002 = Some sess" "upLimiter sess = None" "downLimiter sess = None"
    by (simp add: sample_table_def)
  from tunnel_end_to_end [OF clear_cipher_ok sample_draw_ok sample_draw_ok length_replicate [of udp_buf_size 0]
      length_replicate [of udp_buf_size 0] length_replicate [of data_buf_size 0] length_replicate [of data_buf_size 0]
      src len(1) this server_packet_facts(1) len(2), where server = "([192, 0, 2, 7], 51821)" and tx = 0
      and fl = grid and now = 0 and nat_addr = "([192, 0, 2, 1], 9)" and evs = "[]"
      and now' = 1 and evs' = "[]" and rx = 0]
  show ?thesis by (simp add: len(3)) blast
qed

subsection \<open>The configuration of the client\<close>

lemma subnet_prefix_of_pool:
  assumes "pool_net n p"
  shows "subnet_prefix (SubnetCIDR p) = int n"
proof -
  have n: "n \<le> 30" and m: "net_mask (subnetNet p) = CIDRMask n 32" and b: "subnetIP p = put_u32 (baseIP p)"
    using assms by (simp_all add: pool_net_def uint32ToIP_def)
  have l: "length (subnetIP p) = 4" "subnetIP p \<noteq> []" by (simp_all add: b put_u32_def)
  have "SubnetCIDR p = dotted (subnetIP p) @ CHR ''/'' # format_nat n"
    using n l by (simp add: SubnetCIDR_def m mask_size_CIDRMask ip_string_def)
  moreover have "CHR ''/'' \<notin> set (dotted (subnetIP p))" "CHR ''/'' \<notin> set (format_nat n)"
    using b by (auto simp: put_u32_def dotted_4 dest!: format_nat_digits simp: is_digit_def)
  ultimately have "split_on CHR ''/'' (SubnetCIDR p) = [dotted (subnetIP p), format_nat n]"
    by (simp add: split_on_append split_on_no_sep)
  moreover have "ParseInt64 (format_nat n) = Some (int n)"
    using n ParseInt64_format [of "int n"] by (simp add: format_int_def)
  ultimately show ?thesis by (simp add: subnet_prefix_def)
qed

text \<open>
  C8: The client configures its device with what the server granted. From the success response
  for an address of a pool with prefix length \<open>n\<close>, whatever the IPv6 parser, \<open>setupTUN\<close> reads back
  that address (in its 16-byte form), the prefix length of the server's subnet and the MTU, and
  the client keeps the server's data port and the API key of the account.
\<close>

theorem client_config_of_response:
  assumes net: "pool_net n (ipPool s)" and len: "length ip = 4"
  shows "authenticateClient (Reply (success_response s u ip)) = Inr (success_response s u ip)
     \<and> client_tun_config p6 nm server (success_response s u ip)
        = \<lparr>DevName = nm, Address = v4_in_v6_prefix @ ip, CIDR = int n, tc_MTU = 1200, RouteServer = server\<rparr>
     \<and> cl_dataPort (fst (keep_response (success_response s u ip) st)) = dataPort s
     \<and> cl_apiKey (fst (keep_response (success_response s u ip) st)) = APIKey u"
proof -
  have "ip \<noteq> []" using len by auto
  then have "ip_string (\<lambda>_. []) ip = dotted ip" using len by (simp add: ip_string_def)
  then show ?thesis
    using ParseIP_dotted [OF len, of p6] subnet_prefix_of_pool [OF net]
    by (simp add: authenticateClient_def success_response_def client_tun_config_def keep_response_def DefaultMTU_def
        split_beta)
qed

theorem client_config_of_response_witness:
  "\<exists>n. client_tun_config (\<lambda>_. None) ''utun3'' [192, 0, 2, 1]
     (success_response sample_server (user (the (fmlookup sample_table 0x0A080002))) [10, 8, 0, 2])
   = \<lparr>DevName = ''utun3'', Address = v4_in_v6_prefix @ [10, 8, 0, 2], CIDR = int n, tc_MTU = 1200,
      RouteServer = [192, 0, 2, 1]\<rparr>"
proof -
  obtain n where "pool_net n sample_pool" using sample_pool_net by blast
  then have "pool_net n (ipPool sample_server)" by (simp add: sample_server_def fresh_server_def)
  from client_config_of_response [OF this, of "[10, 8, 0, 2]"] show ?thesis by auto
qed

end
