(* ===== verification/Client_Machine.thy ===== *)
theory Client_Machine
  imports Client_Correct
begin

section \<open>The client engine under Start and Stop (client/go_core/client.go)\<close>

text \<open>
  \<open>Start\<close> runs \<open>connectionWatcher\<close> in a goroutine with a context of its own, and \<open>Stop\<close>,
  \<open>Start\<close> and \<open>SetCustomTUN\<close> run beside it: \<open>connectUDP\<close> takes the mutex of the client for
  single statements only. The model has for every watcher the point its loop has reached; an
  event is one step of one watcher or one call. \<open>current\<close> is the watcher whose context the
  field \<open>cancel\<close> of the client belongs to, \<open>dead\<close> tells which contexts are cancelled. The relay
  loops show as \<open>CountV\<close>, the atomic additions to the counters.
\<close>

datatype wphase =
    AtTop | Dialing | Authing nat | TunClosing nat AuthResponse | TunCreating nat AuthResponse
  | DataOpening nat | Waiting nat | Ended

record client_sys =
  engine :: "VPNClient \<times> net"
  watchers :: "nat \<Rightarrow> wphase option"
  dead :: "nat \<Rightarrow> bool"
  current :: "nat option"
  started :: nat

datatype client_event =
    StartV
  | StopV
  | SetTunV
  | TopV nat
  | DialV nat "string option"
  | AuthV nat reply
  | CloseV nat
  | CreateV nat string bytes "TUNConfig \<Rightarrow> string option"
  | DataV nat "string option" "string option"
  | EndV nat ending
  | CountV nat nat

definition new_sys :: "VPNClient \<Rightarrow> client_sys" where
  "new_sys c =
     \<lparr>engine = (c, \<lparr>quic_open = [], data_open = [], tcp_open = [], tun_open = [], next_id = 0\<rparr>),
      watchers = (\<lambda>_. None), dead = (\<lambda>_. False), current = None, started = 0\<rparr>"

definition go_to :: "nat \<Rightarrow> wphase \<Rightarrow> (VPNClient \<times> net) \<Rightarrow> client_sys \<Rightarrow> client_sys" where
  "go_to w ph e s = s\<lparr>engine := e, watchers := (watchers s)(w \<mapsto> ph)\<rparr>"

definition show_tcp :: "VPNClient \<times> net \<Rightarrow> VPNClient \<times> net" where
  "show_tcp st = ((fst st)\<lparr>activeMode := ''TCP''\<rparr>, snd st)"

text \<open>A call or a watcher's step; \<open>None\<close> when the watcher is not at the point of the event.\<close>

fun client_step ::
  "crypto_env \<Rightarrow> (string \<Rightarrow> bytes option) \<Rightarrow> client_event \<Rightarrow> client_sys \<Rightarrow> client_sys option" where
  "client_step ce p6 StartV s =
     Some (case Start (fst (engine s)) of
         None \<Rightarrow> s
       | Some c \<Rightarrow> s\<lparr>engine := (c, snd (engine s)), watchers := (watchers s)(started s \<mapsto> AtTop),
                     dead := (dead s)(started s := False), current := Some (started s),
                     started := Suc (started s)\<rparr>)"
| "client_step ce p6 StopV s =
     Some (s\<lparr>engine := Stop (engine s),
             dead := (case current s of None \<Rightarrow> dead s | Some w \<Rightarrow> (dead s)(w := True))\<rparr>)"
| "client_step ce p6 SetTunV s =
     Some (let (c, n) = engine s in s\<lparr>engine := (SetCustomTUN (next_id n) c,
             n\<lparr>tun_open := next_id n # tun_open n, next_id := Suc (next_id n)\<rparr>)\<rparr>)"
| "client_step ce p6 (TopV w) s =
     (if watchers s w = Some AtTop then Some (go_to w (if dead s w then Ended else Dialing) (engine s) s) else None)"
| "client_step ce p6 (DialV w r) s =
     (if watchers s w = Some Dialing
      then Some (case r of
          Some e \<Rightarrow> go_to w AtTop (show_tcp (engine s)) s
        | None \<Rightarrow> (let (q, st) = keep_quic (engine s) in go_to w (Authing q) st s))
      else None)"
| "client_step ce p6 (AuthV w r) s =
     (case watchers s w of
        Some (Authing q) \<Rightarrow>
          Some (case authenticateClient r of
              Inl e \<Rightarrow> go_to w AtTop (show_tcp (drop_quic q (engine s))) s
            | Inr resp \<Rightarrow> go_to w (TunClosing q resp) (keep_response resp (engine s)) s)
      | _ \<Rightarrow> None)"
| "client_step ce p6 (CloseV w) s =
     (case watchers s w of
        Some (TunClosing q resp) \<Rightarrow> Some (go_to w (TunCreating q resp) (close_device (engine s)) s)
      | _ \<Rightarrow> None)"
| "client_step ce p6 (CreateV w nm server created) s =
     (case watchers s w of
        Some (TunCreating q resp) \<Rightarrow>
          Some (case created (client_tun_config p6 nm server resp) of
              Some e \<Rightarrow> go_to w AtTop (show_tcp (drop_quic q (engine s))) s
            | None \<Rightarrow> go_to w (DataOpening q) (open_device (engine s)) s)
      | _ \<Rightarrow> None)"
| "client_step ce p6 (DataV w resolve listen) s =
     (case watchers s w of
        Some (DataOpening q) \<Rightarrow>
          Some (case (resolve, NewObfuscator ce (cl_psk (fst (engine s))), listen) of
              (None, Ok obf, None) \<Rightarrow> go_to w (Waiting q) (open_data (engine s)) s
            | _ \<Rightarrow> go_to w AtTop (show_tcp (drop_quic q (engine s))) s)
      | _ \<Rightarrow> None)"
| "client_step ce p6 (EndV w e) s =
     (case watchers s w of
        Some (Waiting q) \<Rightarrow>
          if e = CtxDone \<and> \<not> dead s w then None
          else Some (go_to w AtTop (show_tcp (drop_quic q (engine s))) s)
      | _ \<Rightarrow> None)"
| "client_step ce p6 (CountV rx tx) s =
     Some (let (c, n) = engine s in s\<lparr>engine := (c\<lparr>rxBytes := rxBytes c + word_of_nat rx,
             txBytes := txBytes c + word_of_nat tx\<rparr>, n)\<rparr>)"

fun client_run ::
  "crypto_env \<Rightarrow> (string \<Rightarrow> bytes option) \<Rightarrow> client_event list \<Rightarrow> client_sys \<Rightarrow> client_sys option" where
  "client_run ce p6 [] s = Some s"
| "client_run ce p6 (e # es) s =
     (case client_step ce p6 e s of None \<Rightarrow> None | Some s' \<Rightarrow> client_run ce p6 es s')"

text \<open>The states of a client after any events from its creation.\<close>

inductive client_reach :: "crypto_env \<Rightarrow> (string \<Rightarrow> bytes option) \<Rightarrow> VPNClient \<Rightarrow> client_sys \<Rightarrow> bool"
  for ce p6 c where
  reach_new: "client_reach ce p6 c (new_sys c)"
| reach_step: "client_reach ce p6 c s \<Longrightarrow> client_step ce p6 e s = Some s' \<Longrightarrow> client_reach ce p6 c s'"

lemma client_run_append:
  "client_run ce p6 (xs @ ys) s = (case client_run ce p6 xs s of None \<Rightarrow> None | Some s' \<Rightarrow> client_run ce p6 ys s')"
  by (induction xs arbitrary: s) (auto split: option.split)

lemma reach_run: "client_reach ce p6 c s \<Longrightarrow> client_run ce p6 es s = Some s' \<Longrightarrow> client_reach ce p6 c s'"
  by (induction es arbitrary: s) (auto split: option.splits intro: reach_step)

subsection \<open>Who owns the QUIC connections\<close>

fun quic_of :: "wphase \<Rightarrow> nat option" where
  "quic_of (Authing q) = Some q"
| "quic_of (TunClosing q resp) = Some q"
| "quic_of (TunCreating q resp) = Some q"
| "quic_of (DataOpening q) = Some q"
| "quic_of (Waiting q) = Some q"
| "quic_of _ = None"

definition quic_owners :: "client_sys \<Rightarrow> nat set" where
  "quic_owners s = {q. \<exists>w ph. watchers s w = Some ph \<and> quic_of ph = Some q}"

definition quic_owned :: "client_sys \<Rightarrow> bool" where
  "quic_owned s \<longleftrightarrow> set (quic_open (snd (engine s))) \<subseteq> quic_owners s"

lemma quic_open_stages [simp]:
  "quic_open (snd (drop_quic q st)) = removeAll q (quic_open (snd st))"
  "quic_open (snd (show_tcp st)) = quic_open (snd st)"
  "quic_open (snd (keep_response resp st)) = quic_open (snd st)"
  "quic_open (snd (close_device st)) = quic_open (snd st)"
  "quic_open (snd (open_device st)) = quic_open (snd st)"
  "quic_open (snd (open_data st)) = quic_open (snd st)"
  "set (quic_open (snd (Stop st))) \<subseteq> set (quic_open (snd st))"
  using set_close_opt by (auto simp: stage_defs show_tcp_def Stop_def cleanup_def split_beta)

lemma owners_go_to:
  assumes "watchers s w = Some ph0" and "q \<in> quic_owners s" and "quic_of ph0 \<noteq> Some q"
  shows "q \<in> quic_owners (go_to w ph e s)"
proof -
  obtain w' ph' where w': "watchers s w' = Some ph'" "quic_of ph' = Some q"
    using assms(2) by (auto simp: quic_owners_def)
  then have "w' \<noteq> w" using assms(1,3) by auto
  with w' show ?thesis by (auto simp: quic_owners_def go_to_def)
qed

lemma owned_go_to:
  assumes "quic_owned s" and "watchers s w = Some ph0"
    and "set (quic_open (snd e)) \<subseteq> set (quic_open (snd (engine s))) - set_option (quic_of ph0) \<union> set_option (quic_of ph)"
  shows "quic_owned (go_to w ph e s)"
proof -
  have "quic_of ph = Some q \<Longrightarrow> q \<in> quic_owners (go_to w ph e s)" for q
    by (auto simp: quic_owners_def go_to_def)
  moreover have "engine (go_to w ph e s) = e" by (simp add: go_to_def)
  moreover have "q \<in> quic_owners (go_to w ph e s)" if "q \<in> set (quic_open (snd (engine s)))" "quic_of ph0 \<noteq> Some q" for q
    by (rule owners_go_to [OF assms(2) subsetD [OF assms(1) [unfolded quic_owned_def] that(1)] that(2)])
  ultimately show ?thesis
    using assms(3) by (auto simp: quic_owned_def)
qed

lemma owners_start:
  assumes "watchers t = (watchers s)(w \<mapsto> ph)" and "watchers s w = None"
  shows "quic_owners s \<subseteq> quic_owners t"
proof
  fix q assume "q \<in> quic_owners s"
  then obtain w' ph' where w': "watchers s w' = Some ph'" "quic_of ph' = Some q" by (auto simp: quic_owners_def)
  then have "watchers t w' = Some ph'" using assms by (cases "w' = w") simp_all
  with w' show "q \<in> quic_owners t" unfolding quic_owners_def by blast
qed

lemma quic_owned_start:
  assumes "client_step ce p6 StartV s = Some s'" and "quic_owned s" and "watchers s (started s) = None"
  shows "quic_owned s'"
proof (cases "Start (fst (engine s))")
  case (Some c)
  then have s': "engine s' = (c, snd (engine s))" "watchers s' = (watchers s)(started s \<mapsto> AtTop)"
    using assms(1) by auto
  have "quic_owners s \<subseteq> quic_owners s'" by (rule owners_start [OF s'(2) assms(3)])
  with assms(2) s'(1) show ?thesis by (simp add: quic_owned_def)
qed (use assms in simp)

lemma quic_owned_stop:
  assumes "client_step ce p6 StopV s = Some s'" and "quic_owned s"
  shows "quic_owned s'"
proof -
  have s': "s' = s\<lparr>engine := Stop (engine s),
      dead := (case current s of None \<Rightarrow> dead s | Some w \<Rightarrow> (dead s)(w := True))\<rparr>" using assms(1) by simp
  have "engine s' = Stop (engine s)" "quic_owners s' = quic_owners s"
    by (simp_all add: s' quic_owners_def)
  with quic_open_stages(7) assms(2) show ?thesis unfolding quic_owned_def by (metis subset_trans)
qed

lemma quic_owned_step:
  assumes step: "client_step ce p6 e s = Some s'" and owned: "quic_owned s"
    and fresh: "watchers s (started s) = None"
  shows "quic_owned s'"
proof (cases e)
  case StartV
  then show ?thesis using quic_owned_start step owned fresh by blast
next
  case StopV
  then show ?thesis using quic_owned_stop step owned by blast
next
  case SetTunV
  with step owned show ?thesis by (auto simp: quic_owned_def quic_owners_def split: prod.splits)
next
  case (CountV rx tx)
  with step owned show ?thesis by (auto simp: quic_owned_def quic_owners_def split: prod.splits)
next
  case (TopV w)
  then have "watchers s w = Some AtTop" "s' = go_to w (if dead s w then Ended else Dialing) (engine s) s"
    using step by (auto split: if_splits)
  then show ?thesis using owned_go_to [OF owned] by (simp split: if_split)
next
  case (DialV w r)
  then have w: "watchers s w = Some Dialing" using step by (auto split: if_splits)
  have "quic_open (snd (snd (keep_quic (engine s)))) = fst (keep_quic (engine s)) # quic_open (snd (engine s))"
    by (simp add: keep_quic_def split_beta Let_def)
  then show ?thesis using DialV w step
    by (auto simp: split_beta split: option.splits intro!: owned_go_to [OF owned w])
next
  case (AuthV w r)
  then obtain q where w: "watchers s w = Some (Authing q)" using step by (auto split: option.splits wphase.splits)
  then show ?thesis using AuthV w step by (auto split: sum.splits intro!: owned_go_to [OF owned w])
next
  case (CloseV w)
  then obtain q resp where w: "watchers s w = Some (TunClosing q resp)"
    using step by (auto split: option.splits wphase.splits)
  then show ?thesis using CloseV w step by (auto intro!: owned_go_to [OF owned w])
next
  case (CreateV w nm server created)
  then obtain q resp where w: "watchers s w = Some (TunCreating q resp)"
    using step by (auto split: option.splits wphase.splits)
  then show ?thesis using CreateV w step by (auto split: option.splits intro!: owned_go_to [OF owned w])
next
  case (DataV w x y)
  then obtain q where w: "watchers s w = Some (DataOpening q)" using step by (auto split: option.splits wphase.splits)
  then show ?thesis using DataV w step by (auto split: option.splits outcome.splits intro!: owned_go_to [OF owned w])
next
  case (EndV w x)
  then obtain q where w: "watchers s w = Some (Waiting q)" using step by (auto split: option.splits wphase.splits)
  then show ?thesis using EndV w step by (auto split: if_splits intro!: owned_go_to [OF owned w])
qed

text \<open>Watchers get numbers in the order of their start.\<close>

lemma fresh_go_to: "watchers s w = Some ph0 \<Longrightarrow> watchers (go_to w ph e s) w' = None \<longleftrightarrow> watchers s w' = None"
  by (simp add: go_to_def)

lemma client_step_watchers:
  assumes "client_step ce p6 e s = Some s'"
  shows "(\<exists>c. e = StartV \<and> Start (fst (engine s)) = Some c \<and> watchers s' = (watchers s)(started s \<mapsto> AtTop)
            \<and> dead s' = (dead s)(started s := False) \<and> started s' = Suc (started s))
       \<or> (dom (watchers s') = dom (watchers s) \<and> started s' = started s \<and> (\<forall>w. dead s w \<longrightarrow> dead s' w))"
  using assms
  by (cases e) (auto simp: go_to_def Let_def split_beta
      split: if_splits option.splits wphase.splits sum.splits outcome.splits)

definition client_ok :: "client_sys \<Rightarrow> bool" where
  "client_ok s \<longleftrightarrow> quic_owned s \<and> (\<forall>w \<in> dom (watchers s). w < started s)"

lemma client_ok_step:
  assumes "client_step ce p6 e s = Some s'" and "client_ok s"
  shows "client_ok s'"
proof -
  have "watchers s (started s) = None" using assms(2) by (auto simp: client_ok_def domIff)
  then have "quic_owned s'" using quic_owned_step [OF assms(1)] assms(2) by (simp add: client_ok_def)
  moreover have "\<forall>w \<in> dom (watchers s'). w < started s'"
    using client_step_watchers [OF assms(1)]
  proof
    assume "dom (watchers s') = dom (watchers s) \<and> started s' = started s \<and> (\<forall>w. dead s w \<longrightarrow> dead s' w)"
    then show ?thesis using assms(2) unfolding client_ok_def by simp
  next
    assume "\<exists>c. e = StartV \<and> Start (fst (engine s)) = Some c \<and> watchers s' = (watchers s)(started s \<mapsto> AtTop)
       \<and> dead s' = (dead s)(started s := False) \<and> started s' = Suc (started s)"
    then have "watchers s' = (watchers s)(started s \<mapsto> AtTop)" "started s' = Suc (started s)" by blast+
    then show ?thesis using assms(2) unfolding client_ok_def by (simp add: less_Suc_eq)
  qed
  ultimately show ?thesis by (simp add: client_ok_def)
qed

lemma client_ok_new: "client_ok (new_sys c)"
  by (simp add: client_ok_def quic_owned_def new_sys_def)

lemma reach_ok: "client_reach ce p6 c s \<Longrightarrow> client_ok s"
  by (induction rule: client_reach.induct) (auto intro: client_ok_new client_ok_step)

text \<open>
  C14: The control connections of a client never leak, however \<open>Start\<close>, \<open>Stop\<close> and the watchers
  interleave: in every reachable state each open QUIC connection is the one of a watcher that
  is still inside \<open>connectUDP\<close>, and when every watcher has ended none is open.
\<close>

theorem quic_connections_owned:
  assumes "client_reach ce p6 c s"
  shows "(\<forall>q. q \<in> set (quic_open (snd (engine s)))
            \<longrightarrow> (\<exists>w ph. watchers s w = Some ph \<and> quic_of ph = Some q))
     \<and> ((\<forall>w ph. watchers s w = Some ph \<longrightarrow> ph = Ended) \<longrightarrow> quic_open (snd (engine s)) = [])"
proof -
  have owned: "\<exists>w ph. watchers s w = Some ph \<and> quic_of ph = Some q" if "q \<in> set (quic_open (snd (engine s)))" for q
    using reach_ok [OF assms] that by (auto simp: client_ok_def quic_owned_def quic_owners_def)
  moreover have "quic_open (snd (engine s)) = []" if "\<forall>w ph. watchers s w = Some ph \<longrightarrow> ph = Ended"
    using owned that by (cases "quic_open (snd (engine s))") fastforce+
  ultimately show ?thesis by blast
qed

definition sample_ce :: crypto_env where
  "sample_ce = \<lparr>sha256_sum = id, new_cipher = (\<lambda>_. Some clear_aead)\<rparr>"

definition sample_start :: client_sys where
  "sample_start = new_sys (NewVPNClient ''vpn:443'' ''epn_1'' ''h1'' (replicate 32 1))"

lemmas sample_run_simps =
  sample_start_def new_sys_def NewVPNClient_def Start_def go_to_def keep_quic_def Let_def

lemma sample_reach: "client_run ce p6 es sample_start = Some s
  \<Longrightarrow> client_reach ce p6 (NewVPNClient ''vpn:443'' ''epn_1'' ''h1'' (replicate 32 1)) s"
  unfolding sample_start_def by (rule reach_run [OF reach_new])

theorem quic_connections_owned_witness:
  "\<exists>s. client_run sample_ce (\<lambda>_. None) [StartV, TopV 0, DialV 0 None] sample_start = Some s
     \<and> set (quic_open (snd (engine s))) = {0}
     \<and> {0} \<subseteq> {q. \<exists>w ph. watchers s w = Some ph \<and> quic_of ph = Some q}"
proof -
  obtain s where run: "client_run sample_ce (\<lambda>_. None) [StartV, TopV 0, DialV 0 None] sample_start = Some s"
    and q: "set (quic_open (snd (engine s))) = {0}"
    by (simp add: sample_run_simps)
  with quic_connections_owned [OF sample_reach [OF run]] show ?thesis by auto
qed

subsection \<open>A stopped watcher ends\<close>

fun watcher_of :: "client_event \<Rightarrow> nat option" where
  "watcher_of (TopV w) = Some w"
| "watcher_of (DialV w r) = Some w"
| "watcher_of (AuthV w r) = Some w"
| "watcher_of (CloseV w) = Some w"
| "watcher_of (CreateV w nm server created) = Some w"
| "watcher_of (DataV w r l) = Some w"
| "watcher_of (EndV w e) = Some w"
| "watcher_of _ = None"

text \<open>The steps a watcher whose context is cancelled may still make.\<close>

fun rank :: "wphase \<Rightarrow> nat" where
  "rank Ended = 0"
| "rank AtTop = 1"
| "rank (Waiting q) = 2"
| "rank (DataOpening q) = 3"
| "rank (TunCreating q resp) = 4"
| "rank (TunClosing q resp) = 5"
| "rank (Authing q) = 6"
| "rank Dialing = 7"

lemma rank_decreases:
  assumes "client_step ce p6 e s = Some s'" and "watcher_of e = Some w" and "dead s w"
  shows "\<exists>ph ph'. watchers s w = Some ph \<and> watchers s' w = Some ph' \<and> rank ph' < rank ph \<and> dead s' w"
  using assms
  by (cases e) (auto simp: go_to_def Let_def split_beta
      split: if_splits option.splits wphase.splits sum.splits outcome.splits)

lemma other_watcher_kept:
  assumes "client_step ce p6 e s = Some s'" and "watcher_of e \<noteq> Some w" and "dead s w"
    and "watchers s w = Some ph" and "client_ok s"
  shows "watchers s' w = Some ph \<and> dead s' w"
proof -
  have "w \<noteq> started s" using assms(4,5) by (auto simp: client_ok_def)
  with assms(1-4) show ?thesis
    by (cases e) (auto simp: go_to_def Let_def split_beta
        split: if_splits option.splits wphase.splits sum.splits outcome.splits)
qed

lemma watcher_not_stuck:
  "watchers s w = Some ph \<Longrightarrow> ph \<noteq> Ended \<Longrightarrow> dead s w
    \<Longrightarrow> \<exists>e. watcher_of e = Some w \<and> client_step ce p6 e s \<noteq> None"
proof (cases ph)
  case Dialing
  then show "watchers s w = Some ph \<Longrightarrow> ?thesis" by (intro exI [of _ "DialV w None"]) simp
next
  case (Authing q)
  then show "watchers s w = Some ph \<Longrightarrow> ?thesis" by (intro exI [of _ "AuthV w (NoReply [])"]) simp
next
  case (TunClosing q resp)
  then show "watchers s w = Some ph \<Longrightarrow> ?thesis" by (intro exI [of _ "CloseV w"]) simp
next
  case (TunCreating q resp)
  then show "watchers s w = Some ph \<Longrightarrow> ?thesis" by (intro exI [of _ "CreateV w [] [] (\<lambda>_. None)"]) simp
next
  case (DataOpening q)
  then show "watchers s w = Some ph \<Longrightarrow> ?thesis" by (intro exI [of _ "DataV w None None"]) simp
next
  case (Waiting q)
  then show "watchers s w = Some ph \<Longrightarrow> ?thesis" by (intro exI [of _ "EndV w ConnLost"]) simp
next
  case AtTop
  then show "watchers s w = Some ph \<Longrightarrow> ?thesis" by (intro exI [of _ "TopV w"]) simp
qed simp

lemma stopped_run:
  assumes "client_run ce p6 es s = Some s'" and "client_ok s" and "dead s w" and "watchers s w = Some ph"
  shows "\<exists>ph'. watchers s' w = Some ph' \<and> dead s' w
     \<and> length (filter (\<lambda>e. watcher_of e = Some w) es) + rank ph' \<le> rank ph"
  using assms
proof (induction es arbitrary: s ph)
  case (Cons e es)
  obtain s1 where s1: "client_step ce p6 e s = Some s1" and run: "client_run ce p6 es s1 = Some s'"
    using Cons.prems(1) by (auto split: option.splits)
  note ok = client_ok_step [OF s1 Cons.prems(2)]
  show ?case
  proof (cases "watcher_of e = Some w")
    case True
    then obtain ph1 where "watchers s1 w = Some ph1" "rank ph1 < rank ph" "dead s1 w"
      using rank_decreases [OF s1 True Cons.prems(3)] Cons.prems(4) by auto
    with Cons.IH [OF run ok] True show ?thesis by fastforce
  next
    case False
    then show ?thesis
      using Cons.IH [OF run ok] other_watcher_kept [OF s1 False Cons.prems(3,4,2)] by auto
  qed
qed simp



subsection \<open>An undisturbed round\<close>

text \<open>The events of one round of watcher \<open>w\<close> in which nothing else happens.\<close>

definition round_events :: "crypto_env \<Rightarrow> (string \<Rightarrow> bytes option) \<Rightarrow> bytes \<Rightarrow> nat \<Rightarrow> attempt \<Rightarrow> client_event list" where
  "round_events ce p6 k w a =
     [TopV w, DialV w (at_dial a)]
     @ (if at_dial a \<noteq> None then []
        else AuthV w (at_reply a)
          # (case authenticateClient (at_reply a) of
               Inl e \<Rightarrow> []
             | Inr resp \<Rightarrow>
                 [CloseV w, CreateV w (at_name a) (at_server a) (at_tun a)]
                 @ (if at_tun a (client_tun_config p6 (at_name a) (at_server a) resp) \<noteq> None then []
                    else DataV w (at_resolve a) (at_listen a)
                      # (if at_resolve a = None \<and> at_listen a = None \<and> ok_value (NewObfuscator ce k) \<noteq> None
                         then [EndV w (at_end a)] else []))))"

lemma stage_keeps [simp]:
  "dead (go_to w ph e s) = dead s" "watchers (go_to w ph e s) w = Some ph" "engine (go_to w ph e s) = e"
  "go_to w ph e (go_to w ph' e' s) = go_to w ph e s"
  "cl_psk (fst (open_device st)) = cl_psk (fst st)" "cl_psk (fst (close_device st)) = cl_psk (fst st)"
  "cl_psk (fst (keep_response resp st)) = cl_psk (fst st)" "cl_psk (fst (snd (keep_quic st))) = cl_psk (fst st)"
  by (simp_all add: go_to_def stage_defs split_beta Let_def)



subsection \<open>Stop during a connection\<close>

text \<open>
  \<open>Stop\<close> can leave the tunnel up. If it runs while the watcher is creating the TUN device,
  \<open>connectUDP\<close> goes on: it stores the device and opens the data socket after \<open>Stop\<close> has looked
  for them, and then the watcher ends. The client reports that it is not running, its device
  and socket stay open, and no step of a watcher is left that could close them.
\<close>

theorem stop_race_leaves_device:
  assumes "watchers s w = Some (TunCreating q resp)" and "current s = Some w"
    and "\<And>w' ph. watchers s w' = Some ph \<Longrightarrow> w' = w \<or> ph = Ended"
    and "created (client_tun_config p6 nm server resp) = None"
    and "ok_value (NewObfuscator ce (cl_psk (fst (engine s)))) \<noteq> None"
  shows "\<exists>s'. client_run ce p6 [StopV, CreateV w nm server created, DataV w None None, EndV w CtxDone, TopV w] s = Some s'
     \<and> \<not> is_running (fst (engine s')) \<and> watchers s' w = Some Ended
     \<and> (\<exists>t d. cl_tunDev (fst (engine s')) = Some t \<and> t \<in> set (tun_open (snd (engine s')))
           \<and> dataConn (fst (engine s')) = Some d \<and> d \<in> set (data_open (snd (engine s'))))
     \<and> (\<forall>e. watcher_of e \<noteq> None \<longrightarrow> client_step ce p6 e s' = None)"
proof -
  obtain c n where e: "engine s = (c, n)" by fastforce
  obtain obf where o: "NewObfuscator ce (cl_psk c) = Ok obf"
    using assms(5) e by (cases "NewObfuscator ce (cl_psk c)") auto
  let ?e = "show_tcp (drop_quic q (open_data (open_device (Stop (c, n)))))"
  let ?s = "s\<lparr>engine := ?e, watchers := (watchers s)(w \<mapsto> Ended), dead := (dead s)(w := True)\<rparr>"
  have psk: "cl_psk (fst (Stop (c, n))) = cl_psk c" by (simp add: Stop_def cleanup_def)
  have run: "client_run ce p6 [StopV, CreateV w nm server created, DataV w None None, EndV w CtxDone, TopV w] s = Some ?s"
    using assms(1,2,4) e o psk by (simp add: go_to_def)
  have "client_step ce p6 ev ?s = None" if "watcher_of ev = Some w'" for ev w'
  proof -
    have "watchers ?s w' = None \<or> watchers ?s w' = Some Ended" using assms(3) by (cases "watchers s w'") auto
    then show ?thesis using that by (cases ev) auto
  qed
  then have "\<forall>ev. watcher_of ev \<noteq> None \<longrightarrow> client_step ce p6 ev ?s = None" by blast
  moreover have "\<not> is_running (fst ?e)" "\<exists>t. cl_tunDev (fst ?e) = Some t \<and> t \<in> set (tun_open (snd ?e))"
    "\<exists>d. dataConn (fst ?e) = Some d \<and> d \<in> set (data_open (snd ?e))"
    by (simp_all add: show_tcp_def stage_defs Stop_def cleanup_def split_beta)
  ultimately show ?thesis using run by (intro exI [of _ ?s]) simp
qed

theorem stop_race_leaves_device_witness:
  "\<exists>s. client_run sample_ce (\<lambda>_. None)
       [StartV, TopV 0, DialV 0 None, AuthV 0 (Reply greeting), CloseV 0,
        StopV, CreateV 0 ''utun3'' [] (\<lambda>_. None), DataV 0 None None, EndV 0 CtxDone, TopV 0] sample_start = Some s
     \<and> \<not> is_running (fst (engine s)) \<and> tun_open (snd (engine s)) \<noteq> []"
proof -
  obtain s where pre: "client_run sample_ce (\<lambda>_. None)
      [StartV, TopV 0, DialV 0 None, AuthV 0 (Reply greeting), CloseV 0] sample_start = Some s"
    and w: "watchers s = [0 \<mapsto> TunCreating 0 greeting]" "current s = Some 0"
    and k: "ok_value (NewObfuscator sample_ce (cl_psk (fst (engine s)))) \<noteq> None"
    by (simp add: sample_run_simps stage_defs authenticateClient_def greeting_def sample_ce_def NewObfuscator_def)
  have only: "w' = 0 \<or> ph = Ended" if "watchers s w' = Some ph" for w' ph
    using that w(1) by (simp split: if_splits)
  from w(1) have "watchers s 0 = Some (TunCreating 0 greeting)" by simp
  from stop_race_leaves_device [OF this w(2) only _ k, of "\<lambda>_. None" "\<lambda>_. None" "''utun3''" "[]"]
  obtain s' t where "client_run sample_ce (\<lambda>_. None)
      [StopV, CreateV 0 ''utun3'' [] (\<lambda>_. None), DataV 0 None None, EndV 0 CtxDone, TopV 0] s = Some s'"
    "\<not> is_running (fst (engine s'))" and t: "t \<in> set (tun_open (snd (engine s')))"
    by blast
  moreover have "tun_open (snd (engine s')) \<noteq> []" using t by auto
  ultimately show ?thesis
    using client_run_append [of sample_ce "\<lambda>_. None"
        "[StartV, TopV 0, DialV 0 None, AuthV 0 (Reply greeting), CloseV 0]"
        "[StopV, CreateV 0 ''utun3'' [] (\<lambda>_. None), DataV 0 None None, EndV 0 CtxDone, TopV 0]" sample_start] pre
    by (simp only: append.simps option.case) blast
qed

end
