(* ===== verification/Client_Relay.thy ===== *)
theory Client_Relay
  imports Client_Machine
begin

section \<open>The relay loops of the client (client/go_core/client.go)\<close>

text \<open>
  \<open>connectUDP\<close> starts \<open>tunToUdpLoop\<close> and \<open>udpToTunLoop\<close>, which run beside the watcher, \<open>Stop\<close>
  and each other. They read the fields \<open>tunDev\<close> and \<open>dataConn\<close> anew at every use and without the
  mutex, so between a check and the use after it anything can happen. The model adds them to
  the machine of \<open>Client_Machine\<close>: a loop has the watcher whose context it was given and the
  point it has reached, and an event is one read of a field, one blocking call or its return.
  A method called on a nil field panics, and a panic in a goroutine ends the process: then
  nothing moves any more. The obfuscator of a connection is the one made from the key of the
  client, which never changes.
\<close>

datatype loop_phase =
    UpTop | UpCheck | UpRead | UpReading nat | UpSend bytes
  | DownTop | DownRecv | DownReceiving nat | DownCheck bytes | DownWrite bytes
  | Gone

record relay_sys =
  cl_sys :: client_sys
  loops :: "nat \<Rightarrow> (nat \<times> loop_phase) option"
  spawned :: nat
  crashed :: bool
  sent_log :: "(nat \<times> bytes \<times> addr) list"
  dev_log :: "(nat \<times> bytes) list"

datatype relay_event =
    Call client_event
  | LookCtx nat
  | LookDev nat
  | Enter nat
  | FromDevice nat tun_event
  | SendOut nat bytes "bytes option \<times> bytes" "string option" addr
  | FromSocket nat bytes "sock_event list"
  | ToDevice nat

definition new_relay :: "VPNClient \<Rightarrow> relay_sys" where
  "new_relay c = \<lparr>cl_sys = new_sys c, loops = (\<lambda>_. None), spawned = 0, crashed = False, sent_log = [], dev_log = []\<rparr>"

abbreviation cl_fields :: "relay_sys \<Rightarrow> VPNClient" where
  "cl_fields s \<equiv> fst (engine (cl_sys s))"

definition moves :: "nat \<Rightarrow> nat \<Rightarrow> loop_phase \<Rightarrow> relay_sys \<Rightarrow> relay_sys" where
  "moves l w ph s = s\<lparr>loops := (loops s)(l \<mapsto> (w, ph))\<rparr>"

text \<open>The two \<open>go\<close> statements at the end of \<open>connectUDP\<close>.\<close>

fun spawn :: "client_event \<Rightarrow> relay_sys \<Rightarrow> relay_sys" where
  "spawn (DataV w resolve listen) s =
     (case watchers (cl_sys s) w of
        Some (Waiting q) \<Rightarrow>
          s\<lparr>loops := (loops s)(spawned s \<mapsto> (w, UpTop), Suc (spawned s) \<mapsto> (w, DownTop)), spawned := spawned s + 2\<rparr>
      | _ \<Rightarrow> s)"
| "spawn _ s = s"

text \<open>Where \<open>tunToUdpLoop\<close> goes when \<open>Read\<close> returns.\<close>

definition after_read :: "tun_event \<Rightarrow> loop_phase" where
  "after_read ev =
     (case ev of
        TunError e \<Rightarrow> Gone
      | TunPacket p \<Rightarrow>
          let pkt = take data_buf_size p
          in if pkt \<noteq> [] \<and> drop_bit 4 (pkt ! 0) \<noteq> 4 then UpTop else UpSend pkt)"

text \<open>What a call of \<open>WriteTo\<close> may be given: a pooled buffer, and a draw of the random source.\<close>

definition possible_draw :: "bytes \<Rightarrow> bytes option \<times> bytes \<Rightarrow> bool" where
  "possible_draw obuf rnd \<longleftrightarrow>
     length obuf = udp_buf_size \<and> (fst rnd = None \<or> draw_ok rnd) \<and> length (snd rnd) < 64"

text \<open>
  The steps. \<open>FromSocket\<close> carries all the socket delivered while the loop was blocked: datagrams
  that do not open, and the one, or the error, that ends the call.
\<close>

inductive relay_step ::
  "crypto_env \<Rightarrow> (string \<Rightarrow> bytes option) \<Rightarrow> relay_event \<Rightarrow> relay_sys \<Rightarrow> relay_sys \<Rightarrow> bool" for ce p6 where
  call: "\<lbrakk>\<not> crashed s; \<forall>rx tx. e \<noteq> CountV rx tx; client_step ce p6 e (cl_sys s) = Some c'\<rbrakk>
    \<Longrightarrow> relay_step ce p6 (Call e) s (spawn e (s\<lparr>cl_sys := c'\<rparr>))"
| up_ctx: "\<lbrakk>\<not> crashed s; loops s l = Some (w, UpTop)\<rbrakk>
    \<Longrightarrow> relay_step ce p6 (LookCtx l) s (moves l w (if dead (cl_sys s) w then Gone else UpCheck) s)"
| up_dev: "\<lbrakk>\<not> crashed s; loops s l = Some (w, UpCheck)\<rbrakk>
    \<Longrightarrow> relay_step ce p6 (LookDev l) s (moves l w (if cl_tunDev (cl_fields s) = None then UpTop else UpRead) s)"
| up_read: "\<lbrakk>\<not> crashed s; loops s l = Some (w, UpRead); cl_tunDev (cl_fields s) = Some t\<rbrakk>
    \<Longrightarrow> relay_step ce p6 (Enter l) s (moves l w (UpReading t) s)"
| up_read_nil: "\<lbrakk>\<not> crashed s; loops s l = Some (w, UpRead); cl_tunDev (cl_fields s) = None\<rbrakk>
    \<Longrightarrow> relay_step ce p6 (Enter l) s (s\<lparr>crashed := True\<rparr>)"
| up_got: "\<lbrakk>\<not> crashed s; loops s l = Some (w, UpReading t)\<rbrakk>
    \<Longrightarrow> relay_step ce p6 (FromDevice l ev) s (moves l w (after_read ev) s)"
| up_send: "\<lbrakk>\<not> crashed s; loops s l = Some (w, UpSend pkt); dataConn (cl_fields s) = Some d; possible_draw obuf rnd;
      NewObfuscator ce (cl_psk (cl_fields s)) = Ok ob; WriteTo ob obuf rnd sock pkt server = (Ok n, out);
      client_step ce p6 (CountV 0 (length pkt)) (cl_sys s) = Some c'\<rbrakk>
    \<Longrightarrow> relay_step ce p6 (SendOut l obuf rnd sock server) s
          (moves l w UpTop (s\<lparr>cl_sys := c', sent_log := sent_log s @ map (Pair d) out\<rparr>))"
| up_send_err: "\<lbrakk>\<not> crashed s; loops s l = Some (w, UpSend pkt); dataConn (cl_fields s) = Some d; possible_draw obuf rnd;
      NewObfuscator ce (cl_psk (cl_fields s)) = Ok ob; WriteTo ob obuf rnd sock pkt server = (Err e, out)\<rbrakk>
    \<Longrightarrow> relay_step ce p6 (SendOut l obuf rnd sock server) s
          (moves l w Gone (s\<lparr>sent_log := sent_log s @ map (Pair d) out\<rparr>))"
| up_send_panic: "\<lbrakk>\<not> crashed s; loops s l = Some (w, UpSend pkt); dataConn (cl_fields s) = Some d; possible_draw obuf rnd;
      NewObfuscator ce (cl_psk (cl_fields s)) = Ok ob; WriteTo ob obuf rnd sock pkt server = (Panic, out)\<rbrakk>
    \<Longrightarrow> relay_step ce p6 (SendOut l obuf rnd sock server) s (s\<lparr>crashed := True\<rparr>)"
| up_send_nil: "\<lbrakk>\<not> crashed s; loops s l = Some (w, UpSend pkt); dataConn (cl_fields s) = None; possible_draw obuf rnd\<rbrakk>
    \<Longrightarrow> relay_step ce p6 (SendOut l obuf rnd sock server) s (s\<lparr>crashed := True\<rparr>)"
| down_ctx: "\<lbrakk>\<not> crashed s; loops s l = Some (w, DownTop)\<rbrakk>
    \<Longrightarrow> relay_step ce p6 (LookCtx l) s (moves l w (if dead (cl_sys s) w then Gone else DownRecv) s)"
| down_recv: "\<lbrakk>\<not> crashed s; loops s l = Some (w, DownRecv); dataConn (cl_fields s) = Some d\<rbrakk>
    \<Longrightarrow> relay_step ce p6 (Enter l) s (moves l w (DownReceiving d) s)"
| down_recv_nil: "\<lbrakk>\<not> crashed s; loops s l = Some (w, DownRecv); dataConn (cl_fields s) = None\<rbrakk>
    \<Longrightarrow> relay_step ce p6 (Enter l) s (s\<lparr>crashed := True\<rparr>)"
| down_got: "\<lbrakk>\<not> crashed s; loops s l = Some (w, DownReceiving d);
      NewObfuscator ce (cl_psk (cl_fields s)) = Ok ob; ReadFrom ob buf evs = Some (Ok (n, addr), buf', []);
      client_step ce p6 (CountV n 0) (cl_sys s) = Some c'\<rbrakk>
    \<Longrightarrow> relay_step ce p6 (FromSocket l buf evs) s (moves l w (DownCheck (take n buf')) (s\<lparr>cl_sys := c'\<rparr>))"
| down_got_err: "\<lbrakk>\<not> crashed s; loops s l = Some (w, DownReceiving d);
      NewObfuscator ce (cl_psk (cl_fields s)) = Ok ob; ReadFrom ob buf evs = Some (Err e, buf', [])\<rbrakk>
    \<Longrightarrow> relay_step ce p6 (FromSocket l buf evs) s (moves l w Gone s)"
| down_dev: "\<lbrakk>\<not> crashed s; loops s l = Some (w, DownCheck pkt)\<rbrakk>
    \<Longrightarrow> relay_step ce p6 (LookDev l) s (moves l w (if cl_tunDev (cl_fields s) = None then DownTop else DownWrite pkt) s)"
| down_write: "\<lbrakk>\<not> crashed s; loops s l = Some (w, DownWrite pkt); cl_tunDev (cl_fields s) = Some t\<rbrakk>
    \<Longrightarrow> relay_step ce p6 (ToDevice l) s (moves l w DownTop (s\<lparr>dev_log := dev_log s @ [(t, pkt)]\<rparr>))"
| down_write_nil: "\<lbrakk>\<not> crashed s; loops s l = Some (w, DownWrite pkt); cl_tunDev (cl_fields s) = None\<rbrakk>
    \<Longrightarrow> relay_step ce p6 (ToDevice l) s (s\<lparr>crashed := True\<rparr>)"

inductive relay_run ::
  "crypto_env \<Rightarrow> (string \<Rightarrow> bytes option) \<Rightarrow> relay_event list \<Rightarrow> relay_sys \<Rightarrow> relay_sys \<Rightarrow> bool" for ce p6 where
  run_nil: "relay_run ce p6 [] s s"
| run_cons: "relay_step ce p6 e s s1 \<Longrightarrow> relay_run ce p6 es s1 s2 \<Longrightarrow> relay_run ce p6 (e # es) s s2"

fun loop_of :: "relay_event \<Rightarrow> nat option" where
  "loop_of (Call e) = None"
| "loop_of (LookCtx l) = Some l"
| "loop_of (LookDev l) = Some l"
| "loop_of (Enter l) = Some l"
| "loop_of (FromDevice l ev) = Some l"
| "loop_of (SendOut l obuf rnd sock server) = Some l"
| "loop_of (FromSocket l buf evs) = Some l"
| "loop_of (ToDevice l) = Some l"

inductive_cases callE: "relay_step ce p6 (Call e) s s'"
inductive_cases relay_runE: "relay_run ce p6 es s s'"
inductive_simps run_nil_simp [simp]: "relay_run ce p6 [] s s'"
inductive_simps run_cons_simp: "relay_run ce p6 (e # es) s s'"

lemma moves_simps [simp]:
  "cl_sys (moves l w ph s) = cl_sys s" "loops (moves l w ph s) = (loops s)(l \<mapsto> (w, ph))"
  "spawned (moves l w ph s) = spawned s" "crashed (moves l w ph s) = crashed s"
  "sent_log (moves l w ph s) = sent_log s" "dev_log (moves l w ph s) = dev_log s"
  by (simp_all add: moves_def)

lemma spawn_simps [simp]:
  "cl_sys (spawn e s) = cl_sys s" "crashed (spawn e s) = crashed s"
  "sent_log (spawn e s) = sent_log s" "dev_log (spawn e s) = dev_log s"
  by (cases "(e, s)" rule: spawn.cases; simp split: option.split wphase.split)+

lemma CountV_keeps:
  assumes "client_step ce p6 (CountV rx tx) cs = Some cs'"
  shows "watchers cs' = watchers cs" "dead cs' = dead cs" "started cs' = started cs"
    "dataConn (fst (engine cs')) = dataConn (fst (engine cs))"
    "cl_tunDev (fst (engine cs')) = cl_tunDev (fst (engine cs))"
    "is_running (fst (engine cs')) = is_running (fst (engine cs))"
    "snd (engine cs') = snd (engine cs)"
    "rxBytes (fst (engine cs')) = rxBytes (fst (engine cs)) + word_of_nat rx"
    "txBytes (fst (engine cs')) = txBytes (fst (engine cs)) + word_of_nat tx"
  using assms by (auto split: prod.splits)

lemma no_step_after_crash: "crashed s \<Longrightarrow> \<not> relay_step ce p6 e s s'"
  by (auto elim: relay_step.cases)

text \<open>The relay machine is the machine of \<open>Client_Machine\<close> with its \<open>CountV\<close> events explained.\<close>

lemma relay_step_client:
  "relay_step ce p6 e s s' \<Longrightarrow> cl_sys s' = cl_sys s \<or> (\<exists>ce'. client_step ce p6 ce' (cl_sys s) = Some (cl_sys s'))"
  by (erule relay_step.cases) (auto simp del: client_step.simps)

lemma relay_run_client:
  "relay_run ce p6 es s s' \<Longrightarrow> client_reach ce p6 c (cl_sys s) \<Longrightarrow> client_reach ce p6 c (cl_sys s')"
proof (induction rule: relay_run.induct)
  case (run_cons e s s1 es s2)
  then show ?case using relay_step_client [OF run_cons.hyps(1)] by (metis reach_step)
qed

end
