(* ===== verification/Client_Relay_Correct.thy ===== *)
theory Client_Relay_Correct
  imports Client_Relay
begin

section \<open>What the relay loops of the client can and cannot do\<close>

text \<open>
  The relay machine against the models of \<open>Client_Machine\<close> and \<open>Client\<close> it refines; that no
  loop panics while the client is neither stopped nor reconnected, and that both of these can
  make one panic; that the loops of a cancelled context end; and what a reconnection leaves.
\<close>

subsection \<open>A connected client\<close>

fun is_count :: "client_event \<Rightarrow> bool" where
  "is_count (CountV rx tx) = True"
| "is_count _ = False"

text \<open>A client of the clear cipher whose watcher has connected once, with both its loops.\<close>

definition connect_calls :: "client_event list" where
  "connect_calls = [StartV, TopV 0, DialV 0 None, AuthV 0 (Reply greeting), CloseV 0, CreateV 0 ''utun3'' [] (\<lambda>_. None)]"

definition relay_start :: relay_sys where
  "relay_start = new_relay (NewVPNClient ''vpn:443'' ''epn_1'' ''h1'' (replicate 32 1))"

lemma calls_run:
  assumes "client_run ce p6 ces (cl_sys s) = Some cs" and "\<not> crashed s"
    and "\<forall>e \<in> set ces. \<not> is_count e \<and> (\<forall>w r l. e \<noteq> DataV w r l)"
  shows "relay_run ce p6 (map Call ces) s (s\<lparr>cl_sys := cs\<rparr>)"
  using assms
proof (induction ces arbitrary: s)
  case (Cons e ces)
  obtain c1 where c1: "client_step ce p6 e (cl_sys s) = Some c1" and run: "client_run ce p6 ces c1 = Some cs"
    using Cons.prems(1) by (auto split: option.splits)
  have "spawn e (s\<lparr>cl_sys := c1\<rparr>) = s\<lparr>cl_sys := c1\<rparr>" using Cons.prems(3) by (cases e) auto
  moreover have "\<forall>rx tx. e \<noteq> CountV rx tx" using Cons.prems(3) by auto
  ultimately have "relay_step ce p6 (Call e) s (s\<lparr>cl_sys := c1\<rparr>)"
    using relay_step.call [OF Cons.prems(2) _ c1] by metis
  moreover have "relay_run ce p6 (map Call ces) (s\<lparr>cl_sys := c1\<rparr>) (s\<lparr>cl_sys := cs\<rparr>)"
    using Cons.IH [of "s\<lparr>cl_sys := c1\<rparr>"] run Cons.prems(2,3) by simp
  ultimately show ?case by (simp add: run_cons)
qed simp

definition connected_relay :: relay_sys where
  "connected_relay =
     (let cs = the (client_run sample_ce (\<lambda>_. None) (connect_calls @ [DataV 0 None None]) sample_start)
      in relay_start\<lparr>cl_sys := cs, loops := [0 \<mapsto> (0, UpTop), 1 \<mapsto> (0, DownTop)], spawned := 2\<rparr>)"

lemma relay_run_one: "relay_step ce p6 e s s1 \<Longrightarrow> relay_run ce p6 [e] s s1"
  by (rule run_cons [OF _ run_nil])

lemma relay_run_append: "relay_run ce p6 xs s s1 \<Longrightarrow> relay_run ce p6 ys s1 s2 \<Longrightarrow> relay_run ce p6 (xs @ ys) s s2"
  by (induction rule: relay_run.induct) (auto intro: run_cons)

lemma sample_obfuscator: "NewObfuscator sample_ce (replicate 32 1) = Ok clear_aead"
  by (simp add: NewObfuscator_def sample_ce_def)

lemma connected_facts:
  "relay_run sample_ce (\<lambda>_. None) (map Call connect_calls @ [Call (DataV 0 None None)]) relay_start connected_relay"
  "\<not> crashed connected_relay" "loops connected_relay = [0 \<mapsto> (0, UpTop), 1 \<mapsto> (0, DownTop)]" "\<not> dead (cl_sys connected_relay) 0"
  "cl_tunDev (cl_fields connected_relay) = Some 1" "dataConn (cl_fields connected_relay) = Some 2"
  "cl_psk (cl_fields connected_relay) = replicate 32 1" "data_open (snd (engine (cl_sys connected_relay))) = [2]"
  "watchers (cl_sys connected_relay) = [0 \<mapsto> Waiting 0]" "current (cl_sys connected_relay) = Some 0"
  "next_id (snd (engine (cl_sys connected_relay))) = 3"
proof -
  note simps = connect_calls_def sample_run_simps stage_defs authenticateClient_def greeting_def sample_obfuscator
  obtain c1 where c1: "client_run sample_ce (\<lambda>_. None) connect_calls sample_start = Some c1"
    and w1: "watchers c1 = [0 \<mapsto> DataOpening 0]" "\<not> dead c1 0" "current c1 = Some 0"
    and e1: "cl_psk (fst (engine c1)) = replicate 32 1" "cl_tunDev (fst (engine c1)) = Some 1"
      "next_id (snd (engine c1)) = 2" "data_open (snd (engine c1)) = []"
    by (simp add: simps)
  obtain c2 where c2: "client_step sample_ce (\<lambda>_. None) (DataV 0 None None) c1 = Some c2"
    and w2: "watchers c2 = [0 \<mapsto> Waiting 0]" "\<not> dead c2 0" "engine c2 = open_data (engine c1)" "current c2 = Some 0"
    using w1 e1 sample_obfuscator by (simp add: go_to_def)
  have con: "connected_relay = relay_start\<lparr>cl_sys := c2, loops := [0 \<mapsto> (0, UpTop), 1 \<mapsto> (0, DownTop)], spawned := 2\<rparr>"
    by (simp add: connected_relay_def client_run_append c1 c2 del: client_step.simps)
  have "cl_sys relay_start = sample_start" by (simp add: relay_start_def new_relay_def sample_start_def)
  then have pre: "relay_run sample_ce (\<lambda>_. None) (map Call connect_calls) relay_start (relay_start\<lparr>cl_sys := c1\<rparr>)"
    using c1 by (intro calls_run) (simp_all add: relay_start_def new_relay_def connect_calls_def)
  have "relay_step sample_ce (\<lambda>_. None) (Call (DataV 0 None None)) (relay_start\<lparr>cl_sys := c1\<rparr>)
      (spawn (DataV 0 None None) (relay_start\<lparr>cl_sys := c1, cl_sys := c2\<rparr>))"
    using relay_step.call [of "relay_start\<lparr>cl_sys := c1\<rparr>" "DataV 0 None None" sample_ce "\<lambda>_. None" c2] c2
    by (simp add: relay_start_def new_relay_def del: client_step.simps spawn.simps)
  moreover have "spawn (DataV 0 None None) (relay_start\<lparr>cl_sys := c1, cl_sys := c2\<rparr>) = connected_relay"
    by (simp add: con w2 relay_start_def new_relay_def)
  ultimately show "relay_run sample_ce (\<lambda>_. None) (map Call connect_calls @ [Call (DataV 0 None None)]) relay_start connected_relay"
    using relay_run_append [OF pre relay_run_one] by simp
  show "\<not> crashed connected_relay" "loops connected_relay = [0 \<mapsto> (0, UpTop), 1 \<mapsto> (0, DownTop)]" "\<not> dead (cl_sys connected_relay) 0"
    "cl_tunDev (cl_fields connected_relay) = Some 1" "dataConn (cl_fields connected_relay) = Some 2"
    "cl_psk (cl_fields connected_relay) = replicate 32 1" "data_open (snd (engine (cl_sys connected_relay))) = [2]"
    "watchers (cl_sys connected_relay) = [0 \<mapsto> Waiting 0]" "current (cl_sys connected_relay) = Some 0"
    "next_id (snd (engine (cl_sys connected_relay))) = 3"
    using e1 w2 by (simp_all add: con relay_start_def new_relay_def open_data_def split_beta)
qed

subsection \<open>The relay machine and the models it refines\<close>

fun calls_of :: "relay_event list \<Rightarrow> client_event list" where
  "calls_of [] = []"
| "calls_of (Call e # es) = e # calls_of es"
| "calls_of (_ # es) = calls_of es"

lemma relay_step_events:
  assumes "relay_step ce p6 e s s'"
  shows "\<exists>ces. client_run ce p6 ces (cl_sys s) = Some (cl_sys s') \<and> filter (Not \<circ> is_count) ces = calls_of [e]"
  using assms
proof cases
  case (call e' c')
  then have "\<not> is_count e'" by (cases e') auto
  with call show ?thesis by (intro exI [of _ "[e']"]) (simp del: client_step.simps)
next
  case (up_send l w pkt d obuf rnd ob sock server n out c')
  then show ?thesis by (intro exI [of _ "[CountV 0 (length pkt)]"]) (simp del: client_step.simps)
next
  case (down_got l w d ob buf evs n addr buf' c')
  then show ?thesis by (intro exI [of _ "[CountV n 0]"]) (simp del: client_step.simps)
qed (rule exI [of _ "[]"], simp)+

lemma calls_of_Cons: "calls_of (e # es) = calls_of [e] @ calls_of es"
  by (cases e) simp_all

lemma relay_run_events:
  "relay_run ce p6 es s s' \<Longrightarrow>
    \<exists>ces. client_run ce p6 ces (cl_sys s) = Some (cl_sys s') \<and> filter (Not \<circ> is_count) ces = calls_of es"
proof (induction rule: relay_run.induct)
  case (run_cons e s s1 es s2)
  obtain xs ys where "client_run ce p6 xs (cl_sys s) = Some (cl_sys s1)" "filter (Not \<circ> is_count) xs = calls_of [e]"
    and "client_run ce p6 ys (cl_sys s1) = Some (cl_sys s2)" "filter (Not \<circ> is_count) ys = calls_of es"
    using relay_step_events [OF run_cons.hyps(1)] run_cons.IH by blast
  then show ?case
    by (intro exI [of _ "xs @ ys"]) (simp add: client_run_append calls_of_Cons [of e es] comp_def del: calls_of.simps)
qed (rule exI [of _ "[]"], simp)




text \<open>The events of an iteration of each loop that nothing interrupts, from its blocking call on.\<close>

definition up_events :: "nat \<Rightarrow> bytes \<Rightarrow> bytes option \<times> bytes \<Rightarrow> string option \<Rightarrow> addr \<Rightarrow> tun_event \<Rightarrow> relay_event list" where
  "up_events l obuf rnd sock server ev =
     FromDevice l ev # (case after_read ev of UpSend pkt \<Rightarrow> [SendOut l obuf rnd sock server] | _ \<Rightarrow> [])"

definition down_events :: "nat \<Rightarrow> bytes \<Rightarrow> bool \<Rightarrow> sock_event list \<Rightarrow> relay_event list" where
  "down_events l buf tun evs = [FromSocket l buf evs, LookDev l] @ (if tun then [ToDevice l] else [])"

lemma up_iteration:
  assumes "loops s l = Some (w, UpReading t)" and "\<not> crashed s" and "dataConn (cl_fields s) = Some d"
    and "NewObfuscator ce (cl_psk (cl_fields s)) = Ok ob" and "possible_draw obuf rnd"
    and "tun_to_udp_step ob obuf rnd sock server ev (txBytes (cl_fields s)) = GoesOn (tx, out)"
  shows "\<exists>s'. relay_run ce p6 (up_events l obuf rnd sock server ev) s s' \<and> loops s' = (loops s)(l \<mapsto> (w, UpTop))
     \<and> txBytes (cl_fields s') = tx \<and> sent_log s' = sent_log s @ map (Pair d) out \<and> \<not> crashed s'"
proof -
  let ?s1 = "moves l w (after_read ev) s"
  have got: "relay_step ce p6 (FromDevice l ev) s ?s1" by (rule up_got [OF assms(2,1)])
  obtain p where ev: "ev = TunPacket p"
    using assms(6) by (cases ev) (auto simp: tun_to_udp_step_def)
  let ?pkt = "take data_buf_size p"
  show ?thesis
  proof (cases "?pkt \<noteq> [] \<and> drop_bit 4 (?pkt ! 0) \<noteq> 4")
    case True
    then have "after_read ev = UpTop" "tx = txBytes (cl_fields s)" "out = []"
      using assms(6) by (auto simp: after_read_def tun_to_udp_step_def ev Let_def)
    then show ?thesis
      using relay_run_one [OF got] assms(2) by (intro exI [of _ ?s1]) (simp add: up_events_def)
  next
    case False
    then have a: "after_read ev = UpSend ?pkt" by (auto simp: after_read_def ev Let_def)
    obtain n where n: "WriteTo ob obuf rnd sock ?pkt server = (Ok n, out)"
      and tx: "tx = txBytes (cl_fields s) + word_of_nat (length ?pkt)"
      using assms(6) False
      by (auto simp: tun_to_udp_step_def ev Let_def split: prod.splits outcome.splits)
    obtain c' where c': "client_step ce p6 (CountV 0 (length ?pkt)) (cl_sys s) = Some c'" by simp
    let ?s2 = "moves l w UpTop (?s1\<lparr>cl_sys := c', sent_log := sent_log ?s1 @ map (Pair d) out\<rparr>)"
    have sent: "relay_step ce p6 (SendOut l obuf rnd sock server) ?s1 ?s2"
      by (rule up_send [OF _ _ _ assms(5) _ n]) (use assms(2-4) a c' in \<open>simp_all del: client_step.simps\<close>)
    from run_cons [OF got relay_run_one [OF sent]] CountV_keeps(9) [OF c'] tx a assms(2)
    show ?thesis by (intro exI [of _ ?s2]) (simp add: up_events_def del: client_step.simps)
  qed
qed

lemma down_iteration:
  assumes "loops s l = Some (w, DownReceiving d)" and "\<not> crashed s"
    and "NewObfuscator ce (cl_psk (cl_fields s)) = Ok ob"
    and "udp_to_tun_step ob buf (cl_tunDev (cl_fields s) \<noteq> None) evs (rxBytes (cl_fields s)) = GoesOn (rx, wr, [])"
  shows "\<exists>s'. relay_run ce p6 (down_events l buf (cl_tunDev (cl_fields s) \<noteq> None) evs) s s'
     \<and> loops s' = (loops s)(l \<mapsto> (w, DownTop)) \<and> rxBytes (cl_fields s') = rx
     \<and> dev_log s' = dev_log s @ (case (cl_tunDev (cl_fields s), wr) of (Some t, Some pkt) \<Rightarrow> [(t, pkt)] | _ \<Rightarrow> [])
     \<and> \<not> crashed s'"
proof -
  obtain n addr buf' where r: "ReadFrom ob buf evs = Some (Ok (n, addr), buf', [])"
    and rx: "rx = rxBytes (cl_fields s) + word_of_nat n"
    and wr: "wr = (if cl_tunDev (cl_fields s) \<noteq> None then Some (take n buf') else None)"
    using assms(4) by (auto simp: udp_to_tun_step_def split: option.splits prod.splits outcome.splits)
  obtain c' where c': "client_step ce p6 (CountV n 0) (cl_sys s) = Some c'" by simp
  let ?s1 = "moves l w (DownCheck (take n buf')) (s\<lparr>cl_sys := c'\<rparr>)"
  have got: "relay_step ce p6 (FromSocket l buf evs) s ?s1" by (rule down_got [OF assms(2,1,3) r c'])
  have tun: "cl_tunDev (fst (engine c')) = cl_tunDev (cl_fields s)" by (rule CountV_keeps(5) [OF c'])
  let ?s2 = "moves l w (if cl_tunDev (cl_fields s) = None then DownTop else DownWrite (take n buf')) ?s1"
  have look: "relay_step ce p6 (LookDev l) ?s1 ?s2"
    using down_dev [of ?s1 l w "take n buf'" ce p6] assms(2) tun by simp
  note rx' = CountV_keeps(8) [OF c']
  show ?thesis
  proof (cases "cl_tunDev (cl_fields s)")
    case None
    with run_cons [OF got relay_run_one [OF look]] rx rx' wr assms(2) show ?thesis
      by (intro exI [of _ ?s2]) (simp add: down_events_def)
  next
    case (Some t)
    let ?s3 = "moves l w DownTop (?s2\<lparr>dev_log := dev_log ?s2 @ [(t, take n buf')]\<rparr>)"
    have "relay_step ce p6 (ToDevice l) ?s2 ?s3"
      by (rule down_write) (use Some assms(2) tun in simp_all)
    from run_cons [OF got run_cons [OF look relay_run_one [OF this]]] Some rx rx' wr assms(2) show ?thesis
      by (intro exI [of _ ?s3]) (simp add: down_events_def)
  qed
qed

subsection \<open>Who may panic\<close>

fun closes_device :: "relay_event \<Rightarrow> bool" where
  "closes_device (Call (CloseV w)) = True"
| "closes_device _ = False"

text \<open>
  What holds while the client is not stopped and \<open>setupTUN\<close> has run at most once; \<open>b\<close> tells
  whether it has.
\<close>

fun fields_set :: "bool \<Rightarrow> VPNClient \<Rightarrow> wphase \<Rightarrow> bool" where
  "fields_set b c (TunCreating q resp) = b"
| "fields_set b c (DataOpening q) = (b \<and> cl_tunDev c \<noteq> None)"
| "fields_set b c (Waiting q) = (b \<and> cl_tunDev c \<noteq> None \<and> dataConn c \<noteq> None)"
| "fields_set b c _ = True"

fun fits_buffer :: "loop_phase \<Rightarrow> bool" where
  "fits_buffer (UpSend pkt) \<longleftrightarrow> length pkt \<le> data_buf_size"
| "fits_buffer _ \<longleftrightarrow> True"

definition single_watcher :: "bool \<Rightarrow> client_sys \<Rightarrow> bool" where
  "single_watcher b cs \<longleftrightarrow>
     (started cs = 0 \<and> watchers cs = Map.empty)
     \<or> (started cs = 1 \<and> is_running (fst (engine cs))
        \<and> (\<exists>ph. watchers cs = [0 \<mapsto> ph] \<and> fields_set b (fst (engine cs)) ph))"

definition undisturbed :: "bool \<Rightarrow> relay_sys \<Rightarrow> bool" where
  "undisturbed b s \<longleftrightarrow>
     \<not> crashed s \<and> single_watcher b (cl_sys s)
     \<and> (\<forall>l w ph. loops s l = Some (w, ph) \<longrightarrow>
          b \<and> cl_tunDev (cl_fields s) \<noteq> None \<and> dataConn (cl_fields s) \<noteq> None
          \<and> fits_buffer ph)"

lemma stage_fields [simp]:
  "fst (drop_quic q st) = fst st" "is_running (fst (show_tcp st)) = is_running (fst st)"
  "cl_tunDev (fst (show_tcp st)) = cl_tunDev (fst st)" "dataConn (fst (show_tcp st)) = dataConn (fst st)"
  "is_running (fst (snd (keep_quic st))) = is_running (fst st)"
  "cl_tunDev (fst (snd (keep_quic st))) = cl_tunDev (fst st)" "dataConn (fst (snd (keep_quic st))) = dataConn (fst st)"
  "is_running (fst (keep_response resp st)) = is_running (fst st)"
  "cl_tunDev (fst (keep_response resp st)) = cl_tunDev (fst st)" "dataConn (fst (keep_response resp st)) = dataConn (fst st)"
  "is_running (fst (close_device st)) = is_running (fst st)" "dataConn (fst (close_device st)) = dataConn (fst st)"
  "is_running (fst (open_device st)) = is_running (fst st)" "dataConn (fst (open_device st)) = dataConn (fst st)"
  "cl_tunDev (fst (open_device st)) = Some (next_id (snd st))"
  "is_running (fst (open_data st)) = is_running (fst st)" "cl_tunDev (fst (open_data st)) = cl_tunDev (fst st)"
  "dataConn (fst (open_data st)) = Some (next_id (snd st))"
  by (simp_all add: stage_defs show_tcp_def split_beta Let_def)

lemma fields_kept:
  assumes "client_step ce p6 e cs = Some cs'" and "e \<noteq> StopV"
  shows "dataConn (fst (engine cs)) \<noteq> None \<Longrightarrow> dataConn (fst (engine cs')) \<noteq> None"
    and "(\<And>w. e \<noteq> CloseV w) \<Longrightarrow> cl_tunDev (fst (engine cs)) \<noteq> None \<Longrightarrow> cl_tunDev (fst (engine cs')) \<noteq> None"
proof -
  show "dataConn (fst (engine cs)) \<noteq> None \<Longrightarrow> dataConn (fst (engine cs')) \<noteq> None"
    using assms
    by (cases e) (auto simp: go_to_def split_beta Start_def SetCustomTUN_def
        split: if_splits option.splits wphase.splits sum.splits outcome.splits)
  show "(\<And>w. e \<noteq> CloseV w) \<Longrightarrow> cl_tunDev (fst (engine cs)) \<noteq> None \<Longrightarrow> cl_tunDev (fst (engine cs')) \<noteq> None"
    using assms
    by (cases e) (auto simp: go_to_def split_beta Start_def SetCustomTUN_def
        split: if_splits option.splits wphase.splits sum.splits outcome.splits)
qed

lemma fields_set_cong:
  "cl_tunDev c = cl_tunDev c' \<Longrightarrow> dataConn c = dataConn c' \<Longrightarrow> fields_set b c ph = fields_set b c' ph"
  by (cases ph) auto

lemma single_watcher_step:
  assumes "client_step ce p6 e cs = Some cs'" and "single_watcher b cs" and "e \<noteq> StopV"
    and "\<And>w. e = CloseV w \<Longrightarrow> \<not> b"
  shows "single_watcher (b \<or> (\<exists>w. e = CloseV w)) cs'"
proof (cases "started cs = 0")
  case True
  with assms show ?thesis
    by (cases e) (auto simp: single_watcher_def Start_def split_beta split: if_splits)
next
  case False
  then obtain ph where cs: "watchers cs = [0 \<mapsto> ph]" "started cs = 1" "is_running (fst (engine cs))"
      "fields_set b (fst (engine cs)) ph"
    using assms(2) by (auto simp: single_watcher_def)
  have upd: "[0 \<mapsto> ph](0 \<mapsto> ph') = [0 \<mapsto> ph']" for ph' by simp
  from cs assms(1,3,4) show ?thesis
    by (cases e; cases ph; auto simp: single_watcher_def go_to_def split_beta Start_def SetCustomTUN_def
        split: if_splits option.splits sum.splits outcome.splits)
qed

text \<open>A packet from the device fits the pooled buffer, so \<open>WriteTo\<close> itself does not panic.\<close>

lemma WriteTo_not_panic:
  assumes c: "cipher_ok ob" and d: "possible_draw obuf rnd" and p: "length pkt \<le> data_buf_size"
  shows "fst (WriteTo ob obuf rnd sock pkt server) \<noteq> Panic"
proof (cases "fst rnd")
  case None
  then show ?thesis by (simp add: WriteTo_def ObfuscateTo_def)
next
  case (Some nonce)
  then have n: "length nonce = 24" and b: "length obuf = udp_buf_size" "length (snd rnd) < 64"
    using d by (auto simp: possible_draw_def draw_ok_def)
  have ok: "aead_ok ob" "Overhead ob = 16" using c by (auto simp: cipher_ok_def)
  show ?thesis
    using Some b p length_wire [OF ok(1) n, of "inner_plaintext pkt (snd rnd)"]
    by (simp add: WriteTo_def ObfuscateTo_cases [OF ok(1) n] Let_def header_size_def ok(2) udp_buf_size_def
        data_buf_size_def DefaultMTU_def split: option.split)
qed

lemma fits_after_read [simp]: "fits_buffer (after_read ev)"
  by (auto simp: after_read_def Let_def split: tun_event.splits if_splits)

lemma psk_kept: "client_step ce p6 e cs = Some cs' \<Longrightarrow> cl_psk (fst (engine cs')) = cl_psk (fst (engine cs))"
  by (cases e) (auto simp: go_to_def split_beta Start_def SetCustomTUN_def Stop_def cleanup_def stage_defs show_tcp_def Let_def
      split: if_splits option.splits wphase.splits sum.splits outcome.splits)

lemma undisturbed_call:
  assumes "undisturbed b s" and step: "client_step ce p6 e (cl_sys s) = Some c'" and "e \<noteq> StopV"
    and "\<And>w. e = CloseV w \<Longrightarrow> \<not> b"
  shows "undisturbed (b \<or> (\<exists>w. e = CloseV w)) (spawn e (s\<lparr>cl_sys := c'\<rparr>))"
proof -
  let ?b = "b \<or> (\<exists>w. e = CloseV w)"
  have sw: "single_watcher ?b c'"
    by (rule single_watcher_step [OF step _ assms(3,4)]) (use assms(1) in \<open>simp_all add: undisturbed_def\<close>)
  have old: "?b \<and> cl_tunDev (fst (engine c')) \<noteq> None \<and> dataConn (fst (engine c')) \<noteq> None
      \<and> fits_buffer ph" if "loops s l = Some (w, ph)" for l w ph
    using assms(1,4) that fields_kept [OF step assms(3)] unfolding undisturbed_def by blast
  have new: "?b \<and> cl_tunDev (fst (engine c')) \<noteq> None \<and> dataConn (fst (engine c')) \<noteq> None"
    if "watchers c' w = Some (Waiting q)" for w q
    using sw that by (auto simp: single_watcher_def split: if_splits)
  show ?thesis
  proof (cases "\<exists>w r l q. e = DataV w r l \<and> watchers c' w = Some (Waiting q)")
    case True
    then obtain w r l q where e: "e = DataV w r l" and w: "watchers c' w = Some (Waiting q)" by blast
    show ?thesis
      using assms(1) sw old new [OF w] unfolding undisturbed_def e by (auto simp: w split: if_splits)
  next
    case False
    then have "spawn e (s\<lparr>cl_sys := c'\<rparr>) = s\<lparr>cl_sys := c'\<rparr>"
      by (cases e) (auto split: option.split wphase.split)
    then show ?thesis using assms(1) sw old unfolding undisturbed_def by simp
  qed
qed

lemma undisturbed_counts:
  assumes "undisturbed b s" and "client_step ce p6 (CountV rx tx) (cl_sys s) = Some c'"
  shows "undisturbed b (s\<lparr>cl_sys := c', sent_log := xs\<rparr>)" "undisturbed b (s\<lparr>cl_sys := c'\<rparr>)"
  using assms CountV_keeps [OF assms(2)] fields_set_cong [OF CountV_keeps(5,4) [OF assms(2)]]
  by (simp_all add: undisturbed_def single_watcher_def del: client_step.simps)

lemma undisturbed_moves:
  assumes "undisturbed b s" and "loops s l = Some (w, ph0)"
    and "fits_buffer ph"
  shows "undisturbed b (moves l w ph s)"
  using assms unfolding undisturbed_def by (auto split: if_splits)

text \<open>A loop of an undisturbed client makes its steps without panic.\<close>

lemma undisturbed_step:
  assumes "relay_step ce p6 e s s'" and u: "undisturbed b s" and "e \<noteq> Call StopV"
    and "\<And>w. e = Call (CloseV w) \<Longrightarrow> \<not> b"
    and c: "\<And>ob. NewObfuscator ce (cl_psk (cl_fields s)) = Ok ob \<Longrightarrow> cipher_ok ob"
  shows "undisturbed (b \<or> (\<exists>w. e = Call (CloseV w))) s'"
proof -
  have set: "cl_tunDev (cl_fields s) \<noteq> None" "dataConn (cl_fields s) \<noteq> None" if "loops s l = Some (w, ph)" for l w ph
    using u that by (auto simp: undisturbed_def)
  have len: "length pkt \<le> data_buf_size" if "loops s l = Some (w, UpSend pkt)" for l w pkt
    using u that unfolding undisturbed_def by force
  from assms(1) show ?thesis
  proof cases
    case (call e' c')
    then show ?thesis using undisturbed_call [OF u call(5)] assms(3,4) by auto
  next
    case (up_got l w t ev)
    then show ?thesis
      using undisturbed_moves [OF u up_got(4), of "after_read ev"] by simp
  next
    case (up_send l w pkt d obuf rnd ob sock server n out c')
    then show ?thesis
      using undisturbed_moves [OF undisturbed_counts(1) [OF u up_send(9)], where l = l and w = w and ph = UpTop]
      by (simp add: moves_def del: client_step.simps)
  next
    case (up_send_err l w pkt d obuf rnd ob sock server er out)
    then show ?thesis
      using undisturbed_moves [OF u up_send_err(4), of Gone] by (simp add: undisturbed_def)
  next
    case (up_send_panic l w pkt d obuf rnd ob sock server out)
    then show ?thesis
      using WriteTo_not_panic [OF c [OF up_send_panic(7)] up_send_panic(6) len [OF up_send_panic(4)], of sock server] up_send_panic(8) by simp
  next
    case (down_got l w d ob buf evs n addr buf' c')
    then show ?thesis
      using undisturbed_moves [OF undisturbed_counts(2) [OF u down_got(7)], where l = l and w = w and ph = "DownCheck (take n buf')"]
      by (simp del: client_step.simps)
  next
    case (down_write l w pkt t)
    then show ?thesis
      using undisturbed_moves [OF u down_write(4), of DownTop] by (simp add: undisturbed_def)
  qed (use undisturbed_moves [OF u] set in \<open>auto split: if_split\<close>)
qed

lemma relay_psk: "relay_step ce p6 e s s' \<Longrightarrow> cl_psk (cl_fields s') = cl_psk (cl_fields s)"
  using relay_step_client psk_kept by metis

lemma undisturbed_run:
  assumes "relay_run ce p6 es s s'" and "undisturbed b s" and "Call StopV \<notin> set es"
    and "length (filter closes_device es) + (if b then 1 else 0) \<le> 1"
    and "\<And>ob. NewObfuscator ce (cl_psk (cl_fields s)) = Ok ob \<Longrightarrow> cipher_ok ob"
  shows "\<exists>b'. undisturbed b' s'"
  using assms
proof (induction arbitrary: b rule: relay_run.induct)
  case (run_cons e s s1 es s2)
  have "\<not> b" if "e = Call (CloseV w)" for w using run_cons.prems(3) that by (auto split: if_splits)
  then have u: "undisturbed (b \<or> (\<exists>w. e = Call (CloseV w))) s1"
    using undisturbed_step [OF run_cons.hyps(1) run_cons.prems(1)] run_cons.prems(2,4) by auto
  have cl: "closes_device e \<longleftrightarrow> (\<exists>w. e = Call (CloseV w))" by (cases e rule: closes_device.cases) auto
  show ?case
    by (rule run_cons.IH [OF u])
      (use run_cons.prems(2-4) cl relay_psk [OF run_cons.hyps(1)] in \<open>auto split: if_splits\<close>)
qed blast

lemma undisturbed_new: "undisturbed False (new_relay c)"
  by (simp add: undisturbed_def single_watcher_def new_relay_def new_sys_def)




subsection \<open>Stop while a packet is on its way\<close>

text \<open>A loop that has passed its check of the fields and is about to use them.\<close>

fun past_check :: "loop_phase \<Rightarrow> bool" where
  "past_check UpRead = True"
| "past_check (UpSend pkt) = True"
| "past_check DownRecv = True"
| "past_check (DownWrite pkt) = True"
| "past_check _ = False"

lemma past_check_crashes:
  assumes "relay_step ce p6 e s s'" and "loop_of e = Some l" and "loops s l = Some (w, ph)" and "past_check ph"
    and "cl_tunDev (cl_fields s) = None" "dataConn (cl_fields s) = None"
  shows "crashed s'"
  using assms by (cases rule: relay_step.cases) auto

lemma past_check_moves:
  assumes "loops s l = Some (w, ph)" and "past_check ph" and "\<not> crashed s"
    and "cl_tunDev (cl_fields s) = None" "dataConn (cl_fields s) = None"
  shows "\<exists>e s'. loop_of e = Some l \<and> relay_step ce p6 e s s'"
proof (cases ph)
  case (UpSend pkt)
  have "possible_draw (replicate udp_buf_size 0) (None, [])" by (simp add: possible_draw_def)
  with UpSend assms(1,3,5) show ?thesis
    by (intro exI [of _ "SendOut l (replicate udp_buf_size 0) (None, []) None ([], 0)"]) (auto intro: up_send_nil)
next
  case UpRead
  with assms show ?thesis by (intro exI [of _ "Enter l"]) (auto intro: up_read_nil)
next
  case DownRecv
  with assms show ?thesis by (intro exI [of _ "Enter l"]) (auto intro: down_recv_nil)
next
  case (DownWrite pkt)
  with assms show ?thesis by (intro exI [of _ "ToDevice l"]) (auto intro: down_write_nil)
qed (use assms(2) in simp_all)

text \<open>
  C16: \<open>Stop\<close> can bring the whole client down. It clears the fields while the relay loops use
  them without the mutex: when it runs between a loop's check and the use after it (a packet
  has been read from the device and is about to be sent, a datagram has been opened and is
  about to be written, a loop is about to call \<open>Read\<close> or \<open>ReadFrom\<close>), that loop has one next
  step, a call on nil, and after it nothing in the process moves any more.
\<close>

theorem stop_crashes_relay:
  assumes "loops s l = Some (w, ph)" and "past_check ph" and "\<not> crashed s"
  shows "\<exists>s1. relay_step ce p6 (Call StopV) s s1
     \<and> (\<exists>e s2. loop_of e = Some l \<and> relay_step ce p6 e s1 s2)
     \<and> (\<forall>e s2. loop_of e = Some l \<and> relay_step ce p6 e s1 s2 \<longrightarrow>
          crashed s2 \<and> (\<forall>e' s3. \<not> relay_step ce p6 e' s2 s3))"
proof -
  obtain c' where c': "client_step ce p6 StopV (cl_sys s) = Some c'" and e: "engine c' = Stop (engine (cl_sys s))"
    by simp
  have nil: "cl_tunDev (fst (engine c')) = None" "dataConn (fst (engine c')) = None"
    by (simp_all add: e Stop_def cleanup_def split_beta)
  let ?s1 = "s\<lparr>cl_sys := c'\<rparr>"
  have "relay_step ce p6 (Call StopV) s (spawn StopV ?s1)" by (rule call [OF assms(3) _ c']) simp
  then have "relay_step ce p6 (Call StopV) s ?s1" by simp
  moreover have "\<exists>e s2. loop_of e = Some l \<and> relay_step ce p6 e ?s1 s2"
    by (rule past_check_moves [of _ _ w ph]) (use assms nil in simp_all)
  moreover have "crashed s2" if "loop_of e = Some l" "relay_step ce p6 e ?s1 s2" for e s2
    by (rule past_check_crashes [OF that(2,1), of w ph]) (use assms nil in simp_all)
  ultimately show ?thesis using no_step_after_crash [of _ ce p6] by blast
qed

theorem stop_crashes_relay_witness:
  "\<exists>s s1 e s2. relay_run sample_ce (\<lambda>_. None)
       (map Call connect_calls @ [Call (DataV 0 None None)] @ [LookCtx 0, LookDev 0]) relay_start s
     \<and> relay_step sample_ce (\<lambda>_. None) (Call StopV) s s1
     \<and> relay_step sample_ce (\<lambda>_. None) e s1 s2 \<and> crashed s2"
proof -
  let ?s = "moves 0 0 UpRead (moves 0 0 UpCheck connected_relay)"
  have run: "relay_run sample_ce (\<lambda>_. None) [LookCtx 0, LookDev 0] connected_relay ?s"
    using up_ctx [of connected_relay 0 0 sample_ce "\<lambda>_. None"] up_dev [of "moves 0 0 UpCheck connected_relay" 0 0 sample_ce "\<lambda>_. None"]
      connected_facts(2-5) by (intro run_cons [OF _ relay_run_one]) simp_all
  have "loops ?s 0 = Some (0, UpRead)" "past_check UpRead" "\<not> crashed ?s" using connected_facts(2) by simp_all
  from stop_crashes_relay [OF this, of sample_ce "\<lambda>_. None"] obtain s1 e s2
    where "relay_step sample_ce (\<lambda>_. None) (Call StopV) ?s s1" "relay_step sample_ce (\<lambda>_. None) e s1 s2" "crashed s2"
    by blast
  moreover have "relay_run sample_ce (\<lambda>_. None) (map Call connect_calls @ [Call (DataV 0 None None)] @ [LookCtx 0, LookDev 0])
      relay_start ?s"
    using relay_run_append [OF connected_facts(1) run] by simp
  ultimately show ?thesis by blast
qed


subsection \<open>The loops end with their context\<close>

definition relay_ok :: "crypto_env \<Rightarrow> relay_sys \<Rightarrow> bool" where
  "relay_ok ce s \<longleftrightarrow>
     client_ok (cl_sys s)
     \<and> (\<forall>l w ph. loops s l = Some (w, ph) \<longrightarrow> l < spawned s \<and> w < started (cl_sys s)
          \<and> (\<exists>ob. NewObfuscator ce (cl_psk (cl_fields s)) = Ok ob))"

lemma started_mono: "client_step ce p6 e cs = Some cs' \<Longrightarrow> started cs \<le> started cs'"
  using client_step_watchers by fastforce

lemma data_opened:
  assumes "client_step ce p6 (DataV w r l) cs = Some cs'" and "watchers cs' w = Some (Waiting q)"
  shows "\<exists>ob. NewObfuscator ce (cl_psk (fst (engine cs))) = Ok ob" "dataConn (fst (engine cs')) = Some (next_id (snd (engine cs)))"
  using assms by (auto simp: go_to_def split: option.splits wphase.splits outcome.splits)

lemma spawn_cases:
  obtains "spawn e s = s"
  | w r l q where "e = DataV w r l" "watchers (cl_sys s) w = Some (Waiting q)"
      "loops (spawn e s) = (loops s)(spawned s \<mapsto> (w, UpTop), Suc (spawned s) \<mapsto> (w, DownTop))"
      "spawned (spawn e s) = spawned s + 2"
proof (cases "\<exists>w r l q. e = DataV w r l \<and> watchers (cl_sys s) w = Some (Waiting q)")
  case True
  then show ?thesis using that(2) by fastforce
next
  case False
  then have "spawn e s = s" by (cases e) (auto split: option.split wphase.split)
  then show ?thesis by (rule that(1))
qed

lemma relay_ok_call:
  assumes "relay_ok ce s" and step: "client_step ce p6 e (cl_sys s) = Some c'"
  shows "relay_ok ce (spawn e (s\<lparr>cl_sys := c'\<rparr>))"
proof -
  have ok: "client_ok c'" using client_ok_step [OF step] assms(1) by (simp add: relay_ok_def)
  have old: "l < spawned s \<and> w < started c' \<and> (\<exists>ob. NewObfuscator ce (cl_psk (fst (engine c'))) = Ok ob)"
    if "loops s l = Some (w, ph)" for l w ph
    using assms(1) that started_mono [OF step] psk_kept [OF step] unfolding relay_ok_def by force
  show ?thesis
  proof (cases rule: spawn_cases [of e "s\<lparr>cl_sys := c'\<rparr>"])
    case 1
    then show ?thesis using ok old by (simp add: relay_ok_def)
  next
    case (2 w r l q)
    have "w < started c'" using ok 2(2) by (auto simp: client_ok_def)
    moreover have "\<exists>ob. NewObfuscator ce (cl_psk (fst (engine c'))) = Ok ob"
      using data_opened(1) [OF step [unfolded 2(1)]] 2(2) psk_kept [OF step] by simp
    ultimately show ?thesis using ok old 2(3,4) unfolding relay_ok_def
      by (auto simp: less_Suc_eq split: if_splits)
  qed
qed

lemma client_ok_counts: "client_step ce p6 (CountV rx tx) cs = Some c' \<Longrightarrow> client_ok cs \<Longrightarrow> client_ok c'"
  by (rule client_ok_step)

lemma relay_ok_moves:
  assumes "relay_ok ce s" and "loops s l = Some (w, ph0)"
  shows "relay_ok ce (moves l w ph s)"
  using assms unfolding relay_ok_def by (auto split: if_splits)

lemma relay_ok_counts:
  assumes "relay_ok ce s" and "client_step ce p6 (CountV rx tx) (cl_sys s) = Some c'"
  shows "relay_ok ce (s\<lparr>cl_sys := c', sent_log := xs\<rparr>)" "relay_ok ce (s\<lparr>cl_sys := c'\<rparr>)"
  using assms client_ok_counts [OF assms(2)] CountV_keeps(3) [OF assms(2)] psk_kept [OF assms(2)]
  by (simp_all add: relay_ok_def del: client_step.simps)

lemma relay_ok_logs:
  "relay_ok ce (s\<lparr>crashed := x\<rparr>) = relay_ok ce s" "relay_ok ce (s\<lparr>sent_log := ys\<rparr>) = relay_ok ce s"
  "relay_ok ce (s\<lparr>dev_log := zs\<rparr>) = relay_ok ce s"
  by (simp_all add: relay_ok_def)

lemma relay_ok_step:
  assumes "relay_step ce p6 e s s'" and "relay_ok ce s"
  shows "relay_ok ce s'"
  using assms(1)
proof cases
  case (call e' c')
  then show ?thesis using relay_ok_call [OF assms(2) call(5)] by simp
next
  case (up_send l w pkt d obuf rnd ob sock server n out c')
  show ?thesis unfolding up_send(2)
    by (rule relay_ok_moves [OF relay_ok_counts(1) [OF assms(2) up_send(9)]]) (simp add: up_send(4))
next
  case (up_send_err l w pkt d obuf rnd ob sock server er out)
  show ?thesis unfolding up_send_err(2)
    by (rule relay_ok_moves) (simp_all add: relay_ok_logs assms(2) up_send_err(4))
next
  case (down_got l w d ob buf evs n addr buf' c')
  show ?thesis unfolding down_got(2)
    by (rule relay_ok_moves [OF relay_ok_counts(2) [OF assms(2) down_got(7)]]) (simp add: down_got(4))
next
  case (down_write l w pkt t)
  show ?thesis unfolding down_write(2)
    by (rule relay_ok_moves) (simp_all add: relay_ok_logs assms(2) down_write(4))
qed (use relay_ok_moves [OF assms(2)] relay_ok_logs assms(2) in auto)

lemma relay_ok_new: "relay_ok ce (new_relay c)"
  by (simp add: relay_ok_def new_relay_def client_ok_new)

lemma relay_ok_run: "relay_run ce p6 es s s' \<Longrightarrow> relay_ok ce s \<Longrightarrow> relay_ok ce s'"
  by (induction rule: relay_run.induct) (auto dest: relay_ok_step)

text \<open>The steps a loop may still make when its context is cancelled.\<close>

fun loop_rank :: "loop_phase \<Rightarrow> nat" where
  "loop_rank Gone = 0"
| "loop_rank UpTop = 1"
| "loop_rank (UpSend pkt) = 2"
| "loop_rank (UpReading t) = 3"
| "loop_rank UpRead = 4"
| "loop_rank UpCheck = 5"
| "loop_rank DownTop = 1"
| "loop_rank (DownWrite pkt) = 2"
| "loop_rank (DownCheck pkt) = 3"
| "loop_rank (DownReceiving d) = 4"
| "loop_rank DownRecv = 5"

lemma rank_after_read: "loop_rank (after_read ev) \<le> 2"
  by (auto simp: after_read_def Let_def split: tun_event.split)

lemma loop_rank_decreases:
  assumes "relay_step ce p6 e s s'" and "loop_of e = Some l" and "loops s l = Some (w, ph)" and "dead (cl_sys s) w"
  shows "(crashed s' \<and> loops s' l = Some (w, ph) \<and> 0 < loop_rank ph)
     \<or> (\<exists>ph'. loops s' l = Some (w, ph') \<and> loop_rank ph' < loop_rank ph)"
  using assms le_less_trans [OF rank_after_read, of 3]
  by (cases rule: relay_step.cases) auto

lemma other_loop_kept:
  assumes "relay_step ce p6 e s s'" and "loop_of e \<noteq> Some l" and "loops s l = Some x" and "relay_ok ce s"
  shows "loops s' l = Some x"
  using assms(1)
proof cases
  case (call e' c')
  have "l < spawned s" using assms(3,4) by (cases x) (auto simp: relay_ok_def)
  then show ?thesis
    using assms(3) call(2) by (cases rule: spawn_cases [of e' "s\<lparr>cl_sys := c'\<rparr>"]) auto
qed (use assms(2,3) in auto)

lemma dead_kept:
  assumes "relay_step ce p6 e s s'" and "dead (cl_sys s) w" and "w < started (cl_sys s)"
  shows "dead (cl_sys s') w"
  using relay_step_client [OF assms(1)]
proof
  assume "\<exists>ce'. client_step ce p6 ce' (cl_sys s) = Some (cl_sys s')"
  then show ?thesis using client_step_watchers [of ce p6] assms(2,3) by fastforce
qed (simp add: assms(2))

lemma stopped_loop_run:
  assumes "relay_run ce p6 es s s'" and "relay_ok ce s" and "dead (cl_sys s) w" and "loops s l = Some (w, ph)"
  shows "\<exists>ph'. loops s' l = Some (w, ph') \<and> dead (cl_sys s') w
     \<and> length (filter (\<lambda>e. loop_of e = Some l) es) \<le> loop_rank ph
     \<and> (crashed s' \<or> length (filter (\<lambda>e. loop_of e = Some l) es) + loop_rank ph' \<le> loop_rank ph)"
  using assms
proof (induction arbitrary: ph rule: relay_run.induct)
  case (run_cons e s s1 es s2)
  note ok = relay_ok_step [OF run_cons.hyps(1) run_cons.prems(1)]
  have "w < started (cl_sys s)" using run_cons.prems(1,3) unfolding relay_ok_def by blast
  then have dead: "dead (cl_sys s1) w" by (rule dead_kept [OF run_cons.hyps(1) run_cons.prems(2)])
  show ?case
  proof (cases "loop_of e = Some l")
    case False
    then show ?thesis
      using run_cons.IH [OF ok dead other_loop_kept [OF run_cons.hyps(1) False run_cons.prems(3,1)]] by simp
  next
    case True
    from loop_rank_decreases [OF run_cons.hyps(1) True run_cons.prems(3,2)] show ?thesis
    proof
      assume c: "crashed s1 \<and> loops s1 l = Some (w, ph) \<and> 0 < loop_rank ph"
      then have "es = []" "s2 = s1"
        using run_cons.hyps(2) no_step_after_crash by (auto elim: relay_run.cases)
      then show ?thesis using c dead True by auto
    next
      assume "\<exists>ph'. loops s1 l = Some (w, ph') \<and> loop_rank ph' < loop_rank ph"
      then obtain ph1 where ph1: "loops s1 l = Some (w, ph1)" "loop_rank ph1 < loop_rank ph" by blast
      from run_cons.IH [OF ok dead ph1(1)] ph1(2) True show ?thesis by fastforce
    qed
  qed
qed auto

text \<open>A loop that has not ended has a next step: its blocking calls return when they must.\<close>

lemma send_not_stuck:
  assumes "\<not> crashed s" and l: "loops s l = Some (w, UpSend pkt)" and ob: "NewObfuscator ce (cl_psk (cl_fields s)) = Ok ob"
  shows "\<exists>e s'. loop_of e = Some l \<and> relay_step ce p6 e s s'"
proof -
  have d: "possible_draw (replicate udp_buf_size 0) (None, [])" by (simp add: possible_draw_def)
  obtain er out where w: "WriteTo ob (replicate udp_buf_size 0) (None, []) None pkt ([], 0) = (Err er, out)"
    by (cases "udp_buf_size < header_size + length pkt + 2 + Overhead ob") (simp_all add: WriteTo_def ObfuscateTo_def)
  show ?thesis
  proof (cases "dataConn (cl_fields s)")
    case None
    then show ?thesis using up_send_nil [OF assms(1) l _ d] loop_of.simps(6) by blast
  next
    case (Some c)
    show ?thesis using up_send_err [OF assms(1) l Some d ob w] loop_of.simps(6) by blast
  qed
qed

lemma loop_not_stuck:
  assumes ok: "relay_ok ce s" and l: "loops s l = Some (w, ph)" and "\<not> crashed s" and "ph \<noteq> Gone"
  shows "\<exists>e s'. loop_of e = Some l \<and> relay_step ce p6 e s s'"
proof -
  obtain ob where ob: "NewObfuscator ce (cl_psk (cl_fields s)) = Ok ob" using ok l by (auto simp: relay_ok_def)
  show ?thesis
  proof (cases ph)
    case (UpSend pkt)
    then show ?thesis using send_not_stuck [OF assms(3) _ ob] l by simp
  next
    case (DownReceiving d)
    show ?thesis
      using down_got_err [OF assms(3) l [unfolded DownReceiving] ob, of "[]" "[RecvErr []]" "SockErr []" "[]"]
        loop_of.simps(7) by fastforce
  next
    case UpRead
    then show ?thesis using up_read [OF assms(3)] up_read_nil [OF assms(3)] l loop_of.simps(4) by (metis option.exhaust)
  next
    case DownRecv
    then show ?thesis using down_recv [OF assms(3)] down_recv_nil [OF assms(3)] l loop_of.simps(4) by (metis option.exhaust)
  next
    case (DownWrite pkt)
    then show ?thesis using down_write [OF assms(3)] down_write_nil [OF assms(3)] l loop_of.simps(8) by (metis option.exhaust)
  next
    case UpTop
    then show ?thesis using up_ctx [OF assms(3)] l loop_of.simps(2) by blast
  next
    case UpCheck
    then show ?thesis using up_dev [OF assms(3)] l loop_of.simps(3) by blast
  next
    case (UpReading t)
    then show ?thesis using up_got [OF assms(3)] l loop_of.simps(5) by blast
  next
    case DownTop
    then show ?thesis using down_ctx [OF assms(3)] l loop_of.simps(2) by blast
  next
    case (DownCheck pkt)
    then show ?thesis using down_dev [OF assms(3)] l loop_of.simps(3) by blast
  qed (use assms(4) in simp)
qed




subsection \<open>The receiver of an old connection\<close>

lemma data_open_kept:
  assumes "client_step ce p6 e cs = Some cs'" and "d \<in> set (data_open (snd (engine cs)))"
    and "dataConn (fst (engine cs)) \<noteq> Some d" and "d < next_id (snd (engine cs))"
  shows "d \<in> set (data_open (snd (engine cs'))) \<and> dataConn (fst (engine cs')) \<noteq> Some d
     \<and> d < next_id (snd (engine cs'))"
  using assms
  by (cases e) (auto simp: go_to_def split_beta Start_def SetCustomTUN_def Stop_def cleanup_def close_opt_def
      stage_defs show_tcp_def Let_def split: if_splits option.splits wphase.splits sum.splits outcome.splits)

lemma data_numbered_step:
  assumes "client_step ce p6 e cs = Some cs'" and "\<forall>d \<in> set (data_open (snd (engine cs))). d < next_id (snd (engine cs))"
  shows "\<forall>d \<in> set (data_open (snd (engine cs'))). d < next_id (snd (engine cs'))"
  using assms
  by (cases e) (auto simp: go_to_def split_beta Start_def SetCustomTUN_def Stop_def cleanup_def close_opt_def
      stage_defs show_tcp_def Let_def less_Suc_eq split: if_splits option.splits wphase.splits sum.splits outcome.splits)

lemma data_numbered: "client_reach ce p6 c cs \<Longrightarrow> \<forall>d \<in> set (data_open (snd (engine cs))). d < next_id (snd (engine cs))"
proof (induction rule: client_reach.induct)
  case (reach_step s e s')
  from data_numbered_step [OF reach_step.hyps(2) reach_step.IH] show ?case .
qed (simp add: new_sys_def)

lemma stranded_run:
  assumes "relay_run ce p6 es s s'" and "relay_ok ce s" and "loops s l = Some x"
    and "d \<in> set (data_open (snd (engine (cl_sys s))))" "dataConn (cl_fields s) \<noteq> Some d" "d < next_id (snd (engine (cl_sys s)))"
    and "\<forall>e \<in> set es. loop_of e \<noteq> Some l"
  shows "loops s' l = Some x \<and> d \<in> set (data_open (snd (engine (cl_sys s')))) \<and> dataConn (cl_fields s') \<noteq> Some d"
  using assms
proof (induction rule: relay_run.induct)
  case (run_cons e s s1 es s2)
  have "loop_of e \<noteq> Some l" using run_cons.prems(6) by simp
  note l = other_loop_kept [OF run_cons.hyps(1) this run_cons.prems(2,1)]
  have "d \<in> set (data_open (snd (engine (cl_sys s1)))) \<and> dataConn (cl_fields s1) \<noteq> Some d
      \<and> d < next_id (snd (engine (cl_sys s1)))"
    using relay_step_client [OF run_cons.hyps(1)] data_open_kept [OF _ run_cons.prems(3-5)] run_cons.prems(3-5) by fastforce
  with run_cons.IH [OF relay_ok_step [OF run_cons.hyps(1) run_cons.prems(1)] l] run_cons.prems(6) show ?case by simp
qed simp

text \<open>
  A reconnection strands the receiver of the connection before. When a watcher opens a new
  data socket while an \<open>udpToTunLoop\<close> waits on the socket of the client, that loop stays in its
  \<open>ReadFrom\<close> and its socket stays open: nothing the watchers, \<open>Start\<close>, \<open>Stop\<close>, \<open>SetCustomTUN\<close> or
  the other loops do ends the one or closes the other, only a datagram or an error on the old
  socket itself can.
\<close>

theorem reconnect_strands_receiver:
  assumes "relay_run ce p6 es0 (new_relay c) s" and "loops s l = Some (w, DownReceiving d)"
    and "dataConn (cl_fields s) = Some d" and "d \<in> set (data_open (snd (engine (cl_sys s))))"
    and "relay_step ce p6 (Call (DataV w' r li)) s s1" and "watchers (cl_sys s1) w' = Some (Waiting q)"
    and "relay_run ce p6 es s1 s2" and "\<forall>e \<in> set es. loop_of e \<noteq> Some l"
  shows "loops s2 l = Some (w, DownReceiving d) \<and> d \<in> set (data_open (snd (engine (cl_sys s2))))
     \<and> dataConn (cl_fields s2) \<noteq> Some d"
proof -
  have ok: "relay_ok ce s" by (rule relay_ok_run [OF assms(1) relay_ok_new])
  have "client_reach ce p6 c (cl_sys (new_relay c))" by (simp add: new_relay_def reach_new)
  note reach = relay_run_client [OF assms(1) this]
  have lt: "d < next_id (snd (engine (cl_sys s)))" using data_numbered [OF reach] assms(4) by blast
  obtain c' where step: "client_step ce p6 (DataV w' r li) (cl_sys s) = Some c'" and s1: "cl_sys s1 = c'"
    using assms(5) by (auto elim!: callE simp del: client_step.simps spawn.simps)
  have w': "watchers c' w' = Some (Waiting q)" using assms(6) s1 by simp
  have "engine c' = open_data (engine (cl_sys s))"
    using step w' by (auto simp: go_to_def split: option.splits wphase.splits outcome.splits)
  then have "d \<in> set (data_open (snd (engine c')))" "dataConn (fst (engine c')) \<noteq> Some d" "d < next_id (snd (engine c'))"
    using assms(4) lt by (auto simp: open_data_def split_beta)
  with stranded_run [OF assms(7) relay_ok_step [OF assms(5) ok] other_loop_kept [OF assms(5) _ assms(2) ok]] assms(8) s1
  show ?thesis by simp
qed

definition reconnect_calls :: "client_event list" where
  "reconnect_calls = [EndV 0 ConnLost, TopV 0, DialV 0 None, AuthV 0 (Reply greeting), CloseV 0, CreateV 0 ''utun3'' [] (\<lambda>_. None)]"

theorem reconnect_strands_receiver_witness:
  "\<exists>es s. relay_run sample_ce (\<lambda>_. None) es relay_start s \<and> Call StopV \<in> set es
     \<and> loops s 1 = Some (0, DownReceiving 2) \<and> 2 \<in> set (data_open (snd (engine (cl_sys s)))) \<and> dataConn (cl_fields s) \<noteq> Some 2"
proof -
  let ?r = "moves 1 0 (DownReceiving 2) (moves 1 0 DownRecv connected_relay)"
  have "relay_run sample_ce (\<lambda>_. None) [LookCtx 1, Enter 1] connected_relay ?r"
    using down_ctx [of connected_relay 1 0 sample_ce "\<lambda>_. None"] down_recv [of "moves 1 0 DownRecv connected_relay" 1 0 2 sample_ce "\<lambda>_. None"]
      connected_facts(2-6) by (intro run_cons [OF _ relay_run_one]) simp_all
  note run1 = relay_run_append [OF connected_facts(1) this]
  obtain c1 where c1: "client_run sample_ce (\<lambda>_. None) reconnect_calls (cl_sys ?r) = Some c1"
    and w1: "watchers c1 = [0 \<mapsto> DataOpening 3]" "data_open (snd (engine c1)) = [2]" "dataConn (fst (engine c1)) = Some 2"
      "cl_psk (fst (engine c1)) = replicate 32 1"
    using connected_facts(4-11)
    by (simp add: reconnect_calls_def sample_run_simps stage_defs authenticateClient_def greeting_def show_tcp_def split_beta)
  let ?r1 = "?r\<lparr>cl_sys := c1\<rparr>"
  have "relay_run sample_ce (\<lambda>_. None) (map Call reconnect_calls) ?r ?r1"
    by (rule calls_run [OF c1]) (simp_all add: reconnect_calls_def connected_facts(2))
  note run2 = relay_run_append [OF run1 this]
  obtain c2 where c2: "client_step sample_ce (\<lambda>_. None) (DataV 0 None None) (cl_sys ?r1) = Some c2"
    and w2: "watchers c2 0 = Some (Waiting 3)"
    using w1 sample_obfuscator by (simp add: go_to_def)
  define r2 where "r2 = spawn (DataV 0 None None) (?r1\<lparr>cl_sys := c2\<rparr>)"
  have data: "relay_step sample_ce (\<lambda>_. None) (Call (DataV 0 None None)) ?r1 r2"
    unfolding r2_def by (rule relay_step.call [OF _ _ c2]) (simp_all add: connected_facts(2))
  have r2: "cl_sys r2 = c2" "\<not> crashed r2" by (simp_all add: r2_def connected_facts(2) del: spawn.simps)
  obtain c3 where c3: "client_step sample_ce (\<lambda>_. None) StopV (cl_sys r2) = Some c3" by simp
  have stop: "relay_step sample_ce (\<lambda>_. None) (Call StopV) r2 (r2\<lparr>cl_sys := c3\<rparr>)"
    using relay_step.call [OF r2(2) _ c3] by simp
  have old: "loops ?r1 1 = Some (0, DownReceiving 2)" "dataConn (cl_fields ?r1) = Some 2"
    "2 \<in> set (data_open (snd (engine (cl_sys ?r1))))" using w1 by simp_all
  have "watchers (cl_sys r2) 0 = Some (Waiting 3)" using r2 w2 by simp
  from reconnect_strands_receiver [OF run2 [unfolded relay_start_def] old data this relay_run_one [OF stop]]
    relay_run_append [OF run2 run_cons [OF data relay_run_one [OF stop]]]
  show ?thesis by (intro exI) auto
qed


end
