(* ===== verification/Packet_Queue_Spec.thy ===== *)
theory Packet_Queue_Spec
  imports VPN_Prelude
begin

section \<open>The interface of a device fed from a packet queue\<close>

text \<open>
  Two TUN devices of the repository are not kernel devices: the one of the Apple extension and
  the one of the end-to-end test. Both hold the packets for the reader in a Go channel of fixed
  capacity. The locale states what their users rely on: an open device takes a packet while the
  channel has room, takes none when it is full, and a read takes the oldest one, cut to the
  reader's buffer. Shown once: any sequence of packets offered and of reads delivers the packets
  in their order, none twice, and none but those for which there was no room is lost.
\<close>

text \<open>Offering packets one after the other; what is not taken is gone.\<close>

fun offer :: "(bytes \<Rightarrow> 'q \<Rightarrow> 'q option) \<Rightarrow> bytes list \<Rightarrow> 'q \<Rightarrow> 'q" where
  "offer push_fn [] q = q"
| "offer push_fn (p # ps) q = offer push_fn ps (case push_fn p q of None \<Rightarrow> q | Some q' \<Rightarrow> q')"

text \<open>Reading with the given buffers: what the reads deliver, if none of them waits or fails.\<close>

fun drain :: "(bytes \<Rightarrow> 'q \<Rightarrow> ((nat \<times> bytes) \<times> 'q) option) \<Rightarrow> bytes list \<Rightarrow> 'q \<Rightarrow> (bytes list \<times> 'q) option" where
  "drain read_fn [] q = Some ([], q)"
| "drain read_fn (b # bs) q =
     (case read_fn b q of
        None \<Rightarrow> None
      | Some ((n, b'), q') \<Rightarrow>
          (case drain read_fn bs q' of None \<Rightarrow> None | Some (out, q'') \<Rightarrow> Some (take n b' # out, q'')))"

definition cut_to :: "bytes list \<Rightarrow> bytes list \<Rightarrow> bytes list" where
  "cut_to bufs ps = map2 (\<lambda>b. take (length b)) bufs ps"

lemma cut_to_take: "length bs \<le> k \<Longrightarrow> cut_to bs (take k ps) = cut_to bs ps"
proof (induction bs arbitrary: k ps)
  case (Cons b bs)
  then show ?case by (cases k; cases ps) (auto simp: cut_to_def)
qed (simp add: cut_to_def)

locale packet_queue =
  fixes push_fn :: "bytes \<Rightarrow> 'q \<Rightarrow> 'q option"
    and read_fn :: "bytes \<Rightarrow> 'q \<Rightarrow> ((nat \<times> bytes) \<times> 'q) option"
    and waiting_fn :: "'q \<Rightarrow> bytes list"
    and open_fn :: "'q \<Rightarrow> bool"
    and room :: nat
  assumes push_room: "open_fn q \<Longrightarrow> length (waiting_fn q) < room \<Longrightarrow>
      \<exists>q'. push_fn p q = Some q' \<and> waiting_fn q' = waiting_fn q @ [p] \<and> open_fn q'"
    and push_full: "open_fn q \<Longrightarrow> room \<le> length (waiting_fn q) \<Longrightarrow> push_fn p q = None"
    and read_next: "open_fn q \<Longrightarrow> waiting_fn q = p # ps \<Longrightarrow>
      \<exists>q'. read_fn b q = Some ((snd (copy_into b p), fst (copy_into b p)), q') \<and> waiting_fn q' = ps \<and> open_fn q'"
begin

lemma offer_waiting:
  "open_fn q \<Longrightarrow> open_fn (offer push_fn ps q)
     \<and> waiting_fn (offer push_fn ps q) = waiting_fn q @ take (room - length (waiting_fn q)) ps"
proof (induction ps arbitrary: q)
  case (Cons p ps)
  show ?case
  proof (cases "length (waiting_fn q) < room")
    case True
    then obtain q' where "push_fn p q = Some q'" "waiting_fn q' = waiting_fn q @ [p]" "open_fn q'"
      using push_room Cons.prems by blast
    with Cons.IH [of q'] True show ?thesis by (simp add: Suc_diff_Suc take_Cons')
  next
    case False
    with push_full Cons show ?thesis by simp
  qed
qed simp

lemma drain_waiting:
  "open_fn q \<Longrightarrow> length bs \<le> length (waiting_fn q) \<Longrightarrow>
     \<exists>q'. drain read_fn bs q = Some (cut_to bs (waiting_fn q), q')
       \<and> waiting_fn q' = drop (length bs) (waiting_fn q) \<and> open_fn q'"
proof (induction bs arbitrary: q)
  case (Cons b bs)
  then obtain p ps where w: "waiting_fn q = p # ps" by (cases "waiting_fn q") auto
  then obtain q' where "read_fn b q = Some ((snd (copy_into b p), fst (copy_into b p)), q')"
    "waiting_fn q' = ps" "open_fn q'"
    using read_next Cons.prems(1) by blast
  with Cons.IH [of q'] Cons.prems(2) w show ?case by (auto simp: cut_to_def take_copy_into)
qed (simp add: cut_to_def)

lemma fifo:
  assumes "open_fn q" and "waiting_fn q = []" and "length bs \<le> length ps" and "length bs \<le> room"
  shows "\<exists>q'. drain read_fn bs (offer push_fn ps q) = Some (cut_to bs ps, q') \<and> open_fn q'
     \<and> waiting_fn q' = drop (length bs) (take room ps)"
proof -
  have o: "open_fn (offer push_fn ps q)" "waiting_fn (offer push_fn ps q) = take room ps"
    using offer_waiting [OF assms(1), of ps] assms(2) by simp_all
  have "cut_to bs (take room ps) = cut_to bs ps"
    by (rule cut_to_take [OF assms(4)])
  with drain_waiting [OF o(1), of bs] o(2) assms(3,4) show ?thesis by auto
qed

end

end
