(* ===== verification/Soft_Tun.thy ===== *)
theory Soft_Tun
  imports Packet_Queue_Spec
begin

section \<open>TUN devices in user space (client/go_bridge/tun_apple.go, client/cmd/mock_test/main.go)\<close>

text \<open>
  The device of the Apple network extension and the device of the end-to-end test, both on Go
  channels: receiving from an empty open channel waits, sending on a full one waits, sending on
  or closing a closed one panics.
\<close>

text \<open>What a call does that may wait: its outcome is not there yet.\<close>

datatype ('e, 'a) call = Waits | Done "('e, 'a) outcome"

datatype tun_io_err = TunClosed | ReadChannelClosed

subsection \<open>AppExtTUN\<close>

record AppExtTUN =
  readChan :: "bytes list"
  ae_closed :: bool

definition NewAppExtTUN :: AppExtTUN where
  "NewAppExtTUN = \<lparr>readChan = [], ae_closed = False\<rparr>"

definition readChan_cap :: nat where
  "readChan_cap = 1024"

definition Read_app :: "bytes \<Rightarrow> AppExtTUN \<Rightarrow> (tun_io_err, nat \<times> bytes) call \<times> AppExtTUN" where
  "Read_app buf t =
     (if ae_closed t then (Done (Err TunClosed), t)
      else case readChan t of
        [] \<Rightarrow> (Waits, t)
      | packet # rest \<Rightarrow>
          (let (buf', copied) = copy_into buf packet
           in (Done (Ok (copied, buf')), t\<lparr>readChan := rest\<rparr>)))"

text \<open>
  A \<open>Read\<close> that found the device open and waits while it is closed: the channel is closed then
  and has no packet left.
\<close>

definition Read_app_woken :: "AppExtTUN \<Rightarrow> (tun_io_err, nat \<times> bytes) call" where
  "Read_app_woken t = (if ae_closed t \<and> readChan t = [] then Done (Err ReadChannelClosed) else Waits)"

text \<open>
  \<open>Write\<close> takes the address of the first byte, which panics for an empty buffer. The packet the
  Swift callback receives is the second component; there is none without a callback.
\<close>

definition Write_app :: "bool \<Rightarrow> bytes \<Rightarrow> AppExtTUN \<Rightarrow> (tun_io_err, nat) outcome \<times> bytes option" where
  "Write_app callback buf t =
     (if ae_closed t then (Err TunClosed, None)
      else if buf = [] then (Panic, None)
      else (Ok (length buf), if callback then Some buf else None))"

definition Close_app :: "AppExtTUN \<Rightarrow> (tun_io_err, unit) outcome \<times> AppExtTUN" where
  "Close_app t = (if ae_closed t then (Panic, t) else (Ok (), t\<lparr>ae_closed := True\<rparr>))"

definition Name_app :: string where
  "Name_app = ''app_ext_tun0''"

definition PushPacketFromSwift :: "bytes \<Rightarrow> AppExtTUN \<Rightarrow> AppExtTUN" where
  "PushPacketFromSwift data t =
     (if ae_closed t then t
      else if length (readChan t) < readChan_cap then t\<lparr>readChan := readChan t @ [data]\<rparr>
      else t)"

subsection \<open>mockTUN\<close>

record mockTUN =
  readCh :: "bytes list"
  writeCh :: "bytes list"
  mt_name :: string
  mt_closed :: bool

definition newMockTUN :: "string \<Rightarrow> mockTUN" where
  "newMockTUN nm = \<lparr>readCh = [], writeCh = [], mt_name = nm, mt_closed = False\<rparr>"

definition mock_cap :: nat where
  "mock_cap = 64"

text \<open>A closed channel still delivers what it holds.\<close>

definition Read_mock :: "bytes \<Rightarrow> mockTUN \<Rightarrow> (tun_io_err, nat \<times> bytes) call \<times> mockTUN" where
  "Read_mock buf m =
     (case readCh m of
        [] \<Rightarrow> (if mt_closed m then Done (Err TunClosed) else Waits, m)
      | pkt # rest \<Rightarrow>
          (let (buf', n) = copy_into buf pkt in (Done (Ok (n, buf')), m\<lparr>readCh := rest\<rparr>)))"

text \<open>\<open>Write\<close> waits on a full channel with the mutex of the device held, so that \<open>Close\<close> waits too.\<close>

definition Write_mock :: "bytes \<Rightarrow> mockTUN \<Rightarrow> (tun_io_err, nat) call \<times> mockTUN" where
  "Write_mock buf m =
     (if mt_closed m then (Done (Err TunClosed), m)
      else if length (writeCh m) < mock_cap
      then (Done (Ok (length buf)), m\<lparr>writeCh := writeCh m @ [fst (copy_into (replicate (length buf) 0) buf)]\<rparr>)
      else (Waits, m))"

definition Close_mock :: "mockTUN \<Rightarrow> mockTUN" where
  "Close_mock m = (if mt_closed m then m else m\<lparr>mt_closed := True\<rparr>)"

definition Name_mock :: "mockTUN \<Rightarrow> string" where
  "Name_mock m = mt_name m"

text \<open>The test's send on the channel of the device.\<close>

definition inject_mock :: "bytes \<Rightarrow> mockTUN \<Rightarrow> (tun_io_err, unit) call \<times> mockTUN" where
  "inject_mock pkt m =
     (if mt_closed m then (Done Panic, m)
      else if length (readCh m) < mock_cap then (Done (Ok ()), m\<lparr>readCh := readCh m @ [pkt]\<rparr>)
      else (Waits, m))"

subsection \<open>Both are packet queues\<close>

definition taken :: "('e, 'a) call \<times> 'q \<Rightarrow> ('a \<times> 'q) option" where
  "taken r = (case r of (Done (Ok a), q) \<Rightarrow> Some (a, q) | _ \<Rightarrow> None)"

definition push_app :: "bytes \<Rightarrow> AppExtTUN \<Rightarrow> AppExtTUN option" where
  "push_app p t = (if PushPacketFromSwift p t = t then None else Some (PushPacketFromSwift p t))"

definition push_mock :: "bytes \<Rightarrow> mockTUN \<Rightarrow> mockTUN option" where
  "push_mock p m = map_option snd (taken (inject_mock p m))"

lemma push_room_app: "\<not> ae_closed t \<Longrightarrow> length (readChan t) < readChan_cap
  \<Longrightarrow> push_app p t = Some (t\<lparr>readChan := readChan t @ [p]\<rparr>)"
  by (cases t) (simp add: push_app_def PushPacketFromSwift_def)

lemma app_snoc_neq [simp]: "t\<lparr>readChan := readChan t @ [p]\<rparr> \<noteq> (t :: AppExtTUN)"
  by (cases t) simp

interpretation app: packet_queue push_app "\<lambda>b t. taken (Read_app b t)" readChan "\<lambda>t. \<not> ae_closed t" readChan_cap
  by unfold_locales
     (auto simp: push_room_app push_app_def PushPacketFromSwift_def taken_def Read_app_def split_beta)

interpretation mock: packet_queue push_mock "\<lambda>b t. taken (Read_mock b t)" readCh "\<lambda>t. \<not> mt_closed t" mock_cap
  by unfold_locales (auto simp: push_mock_def inject_mock_def taken_def Read_mock_def split_beta)

lemma offer_app: "offer push_app ps t = fold PushPacketFromSwift ps t"
  by (induction ps arbitrary: t) (auto simp: push_app_def)

text \<open>
  The packets the Apple extension pushes come out of \<open>Read\<close> in their order, each cut to the
  reader's buffer, none twice: on a new device the first 1024 packets pushed are the ones the
  next reads deliver, the rest of a burst is dropped, and after the last one a \<open>Read\<close> waits;
  once the device is closed, pushing changes nothing and every \<open>Read\<close> and \<open>Write\<close> fails.
\<close>

theorem app_ext_fifo:
  assumes "length bufs \<le> length ps" and "length bufs \<le> 1024"
  shows "\<exists>t. drain (\<lambda>b t. taken (Read_app b t)) bufs (fold PushPacketFromSwift ps NewAppExtTUN)
              = Some (cut_to bufs ps, t)
     \<and> readChan t = drop (length bufs) (take 1024 ps)
     \<and> (length bufs = length ps \<longrightarrow> fst (Read_app b t) = Waits)
     \<and> (let c = snd (Close_app t)
        in fst (Close_app t) = Ok () \<and> PushPacketFromSwift p c = c
           \<and> fst (Read_app b c) = Done (Err TunClosed) \<and> fst (Write_app cb b c) = Err TunClosed)"
proof -
  obtain t where t: "drain (\<lambda>b t. taken (Read_app b t)) bufs (fold PushPacketFromSwift ps NewAppExtTUN)
        = Some (cut_to bufs ps, t)" "\<not> ae_closed t" "readChan t = drop (length bufs) (take 1024 ps)"
    using app.fifo [of NewAppExtTUN bufs ps] assms
    by (auto simp: NewAppExtTUN_def readChan_cap_def offer_app)
  then show ?thesis
    by (intro exI [of _ t])
       (auto simp: Read_app_def Write_app_def Close_app_def PushPacketFromSwift_def Let_def)
qed

theorem app_ext_fifo_witness:
  "\<exists>t. drain (\<lambda>b t. taken (Read_app b t)) [[0, 0, 0], [0]]
          (fold PushPacketFromSwift [[1, 2], [3, 4], [5]] NewAppExtTUN) = Some ([[1, 2], [3]], t)
     \<and> readChan t = [[5]]"
proof -
  have "length [[0, 0, 0], [0 :: byte]] \<le> length [[1, 2], [3, 4], [5 :: byte]]" "length [[0, 0, 0], [0 :: byte]] \<le> 1024"
    by simp_all
  from app_ext_fifo [OF this, of "[]" "[]" False] show ?thesis by (auto simp only:) (auto simp: cut_to_def)
qed

end
