(* ===== verification/Client_Apps.thy ===== *)
theory Client_Apps
  imports Client_Machine Soft_Tun
begin

section \<open>The programs around the client engine (client/cmd/main.go, client/go_bridge/api_export.go)\<close>

text \<open>
  The local daemon drives the engine by three HTTP handlers, the Apple extension by exported C
  functions. Both keep the engine in a global variable and forget it on disconnect, while its
  goroutines may still run: the model keeps every engine that was created and lets all of them
  step; \<open>globalClient\<close> is the index of the one the variable points to.
\<close>

record client_app =
  clients :: "client_sys list"
  globalClient :: "nat option"

definition no_clients :: client_app where
  "no_clients = \<lparr>clients = [], globalClient = None\<rparr>"

definition running_at :: "client_app \<Rightarrow> nat \<Rightarrow> bool" where
  "running_at a i \<longleftrightarrow> IsRunning (fst (engine (clients a ! i)))"

definition client_running :: "client_app \<Rightarrow> bool" where
  "client_running a = (case globalClient a of None \<Rightarrow> False | Some i \<Rightarrow> running_at a i)"

text \<open>A call of the engine \<open>i\<close>; the calls themselves cannot fail.\<close>

definition call_client :: "crypto_env \<Rightarrow> (string \<Rightarrow> bytes option) \<Rightarrow> nat \<Rightarrow> client_event \<Rightarrow> client_app \<Rightarrow> client_app" where
  "call_client ce p6 i e a =
     (case client_step ce p6 e (clients a ! i) of
        None \<Rightarrow> a
      | Some s \<Rightarrow> a\<lparr>clients := (clients a)[i := s]\<rparr>)"

definition new_client :: "VPNClient \<Rightarrow> client_app \<Rightarrow> client_app" where
  "new_client c a = a\<lparr>clients := clients a @ [new_sys c], globalClient := Some (length (clients a))\<rparr>"

subsection \<open>The local daemon\<close>

record ConnectRequest =
  req_serverAddr :: string
  req_accessKey :: string
  req_hwid :: string
  req_pskHex :: string

record StatusResponse =
  st_running :: bool
  st_activeMode :: string
  st_rxBytes :: u64
  st_txBytes :: u64
  st_apiKey :: string

definition handleConnect ::
  "crypto_env \<Rightarrow> (string \<Rightarrow> bytes option) \<Rightarrow> string \<Rightarrow> ConnectRequest option \<Rightarrow> client_app
     \<Rightarrow> (nat \<times> string) \<times> client_app" where
  "handleConnect ce p6 meth body a =
     (if meth \<noteq> ''POST'' then ((405, ''Method not allowed''), a)
      else case body of
        None \<Rightarrow> ((400, ''Invalid JSON payload''), a)
      | Some req \<Rightarrow>
          (case hex_decode (req_pskHex req) of
             None \<Rightarrow> ((400, ''Invalid PSK hex or not 32 bytes''), a)
           | Some k \<Rightarrow>
               if length k \<noteq> 32 then ((400, ''Invalid PSK hex or not 32 bytes''), a)
               else if client_running a then ((409, ''VPN is already running''), a)
               else
                 let a = new_client (NewVPNClient (req_serverAddr req) (req_accessKey req) (req_hwid req) k) a;
                     i = length (clients a) - 1
                 in if running_at a i then ((500, ''Failed to start VPN: client is already running''), a)
                    else ((200, ''connected''), call_client ce p6 i StartV a)))"

definition stopVPN :: "crypto_env \<Rightarrow> (string \<Rightarrow> bytes option) \<Rightarrow> client_app \<Rightarrow> client_app" where
  "stopVPN ce p6 a =
     (case globalClient a of
        None \<Rightarrow> a
      | Some i \<Rightarrow> (call_client ce p6 i StopV a)\<lparr>globalClient := None\<rparr>)"

definition handleDisconnect ::
  "crypto_env \<Rightarrow> (string \<Rightarrow> bytes option) \<Rightarrow> string \<Rightarrow> client_app \<Rightarrow> (nat \<times> string) \<times> client_app" where
  "handleDisconnect ce p6 meth a =
     (if meth \<noteq> ''POST'' then ((405, ''Method not allowed''), a)
      else ((200, ''disconnected''), stopVPN ce p6 a))"

definition handleStatus :: "string \<Rightarrow> client_app \<Rightarrow> nat \<times> StatusResponse option" where
  "handleStatus meth a =
     (if meth \<noteq> ''GET'' then (405, None)
      else (200, Some (case globalClient a of
          None \<Rightarrow> \<lparr>st_running = False, st_activeMode = [], st_rxBytes = 0, st_txBytes = 0, st_apiKey = []\<rparr>
        | Some i \<Rightarrow>
            if running_at a i
            then let c = fst (engine (clients a ! i))
                 in \<lparr>st_running = True, st_activeMode = GetActiveMode c, st_rxBytes = GetRxBytes c,
                     st_txBytes = GetTxBytes c, st_apiKey = GetAPIKey c\<rparr>
            else \<lparr>st_running = False, st_activeMode = [], st_rxBytes = 0, st_txBytes = 0, st_apiKey = []\<rparr>)))"

text \<open>\<open>pidWatchdog\<close>: the number of the probe that finds the parent gone, if one does.\<close>

fun pidWatchdog :: "bool list \<Rightarrow> nat option" where
  "pidWatchdog [] = None"
| "pidWatchdog (alive # probes) = (if alive then map_option Suc (pidWatchdog probes) else Some 0)"

text \<open>A request, or a step of the goroutines of an engine.\<close>

datatype app_event =
    ConnectEv string "ConnectRequest option"
  | DisconnectEv string
  | EngineEv nat client_event

definition engine_event :: "client_event \<Rightarrow> bool" where
  "engine_event e \<longleftrightarrow> (case e of StartV \<Rightarrow> False | StopV \<Rightarrow> False | SetTunV \<Rightarrow> False | _ \<Rightarrow> True)"

fun app_step ::
  "crypto_env \<Rightarrow> (string \<Rightarrow> bytes option) \<Rightarrow> app_event \<Rightarrow> client_app \<Rightarrow> client_app option" where
  "app_step ce p6 (ConnectEv m r) a = Some (snd (handleConnect ce p6 m r a))"
| "app_step ce p6 (DisconnectEv m) a = Some (snd (handleDisconnect ce p6 m a))"
| "app_step ce p6 (EngineEv i e) a =
     (if i < length (clients a) \<and> engine_event e \<and> client_step ce p6 e (clients a ! i) \<noteq> None
      then Some (call_client ce p6 i e a) else None)"

inductive app_reach :: "crypto_env \<Rightarrow> (string \<Rightarrow> bytes option) \<Rightarrow> client_app \<Rightarrow> bool" for ce p6 where
  app_new: "app_reach ce p6 no_clients"
| app_step: "app_reach ce p6 a \<Longrightarrow> app_step ce p6 e a = Some a' \<Longrightarrow> app_reach ce p6 a'"

subsection \<open>The Apple extension\<close>

text \<open>
  \<open>StartVPN\<close> creates the device of the extension and sets it in the new client, where it gets the
  number 0; \<open>app_tuns\<close> holds the device of every client. A call or step that closes the device
  of a client closes this one when it is the client's.
\<close>

record bridge =
  base :: client_app
  app_tuns :: "AppExtTUN list"

definition bridge_call ::
  "crypto_env \<Rightarrow> (string \<Rightarrow> bytes option) \<Rightarrow> nat \<Rightarrow> client_event \<Rightarrow> bridge \<Rightarrow> bridge" where
  "bridge_call ce p6 i e b =
     (let a' = call_client ce p6 i e (base b);
          was = 0 \<in> set (tun_open (snd (engine (clients (base b) ! i))));
          now_open = 0 \<in> set (tun_open (snd (engine (clients a' ! i))))
      in b\<lparr>base := a',
           app_tuns := (if was \<and> \<not> now_open then (app_tuns b)[i := snd (Close_app (app_tuns b ! i))] else app_tuns b)\<rparr>)"

definition StartVPN ::
  "crypto_env \<Rightarrow> (string \<Rightarrow> bytes option) \<Rightarrow> string \<Rightarrow> string \<Rightarrow> string \<Rightarrow> string \<Rightarrow> bridge \<Rightarrow> int \<times> bridge" where
  "StartVPN ce p6 addr key h pskHex b =
     (if client_running (base b) then (-1, b)
      else case hex_decode pskHex of
        None \<Rightarrow> (-2, b)
      | Some k \<Rightarrow>
          let i = length (clients (base b));
              b = b\<lparr>base := new_client (NewVPNClient addr key h k) (base b), app_tuns := app_tuns b @ [NewAppExtTUN]\<rparr>;
              b = bridge_call ce p6 i SetTunV b
          in if running_at (base b) i then (-3, b) else (0, bridge_call ce p6 i StartV b))"

definition StopVPN :: "crypto_env \<Rightarrow> (string \<Rightarrow> bytes option) \<Rightarrow> bridge \<Rightarrow> bridge" where
  "StopVPN ce p6 b =
     (case globalClient (base b) of
        None \<Rightarrow> b
      | Some i \<Rightarrow> (let b = bridge_call ce p6 i StopV b in b\<lparr>base := (base b)\<lparr>globalClient := None\<rparr>\<rparr>))"

definition PushPacketToGo :: "bytes \<Rightarrow> bridge \<Rightarrow> bridge" where
  "PushPacketToGo data b =
     (case globalClient (base b) of
        None \<Rightarrow> b
      | Some i \<Rightarrow>
          if running_at (base b) i \<and> cl_tunDev (fst (engine (clients (base b) ! i))) = Some 0
          then b\<lparr>app_tuns := (app_tuns b)[i := PushPacketFromSwift data (app_tuns b ! i)]\<rparr>
          else b)"

subsection \<open>One client at a time\<close>

lemma is_running_stages [simp]:
  "is_running (fst (drop_quic q st)) = is_running (fst st)" "is_running (fst (show_tcp st)) = is_running (fst st)"
  "is_running (fst (keep_response resp st)) = is_running (fst st)"
  "is_running (fst (close_device st)) = is_running (fst st)" "is_running (fst (open_device st)) = is_running (fst st)"
  "is_running (fst (open_data st)) = is_running (fst st)" "is_running (fst (snd (keep_quic st))) = is_running (fst st)"
  "\<not> is_running (fst (Stop st))"
  by (simp_all add: stage_defs show_tcp_def Stop_def cleanup_def split_beta Let_def)

lemma engine_event_running:
  assumes "client_step ce p6 e s = Some s'" and "engine_event e"
  shows "is_running (fst (engine s')) = is_running (fst (engine s))"
  using assms
  by (cases e) (auto simp: engine_event_def Let_def split_beta
      split: if_splits option.splits wphase.splits sum.splits outcome.splits)

definition one_running :: "client_app \<Rightarrow> bool" where
  "one_running a \<longleftrightarrow> (\<forall>i. i < length (clients a) \<longrightarrow> running_at a i \<longleftrightarrow> globalClient a = Some i)
     \<and> (\<forall>i. globalClient a = Some i \<longrightarrow> i < length (clients a))"

lemma client_running_iff: "one_running a \<Longrightarrow> client_running a \<longleftrightarrow> globalClient a \<noteq> None"
  by (auto simp: one_running_def client_running_def split: option.split)

lemma one_running_new:
  assumes "one_running a" and "globalClient a = None"
  shows "one_running (call_client ce p6 (length (clients a)) StartV (new_client (NewVPNClient addr key h k) a))"
  using assms
  by (auto simp: one_running_def running_at_def call_client_def new_client_def new_sys_def Start_def NewVPNClient_def
      nth_append)

lemma one_running_stop: "one_running a \<Longrightarrow> one_running (stopVPN ce p6 a)"
  by (auto simp: one_running_def running_at_def stopVPN_def call_client_def nth_list_update split: option.splits)

lemma one_running_engine:
  assumes "one_running a" and "client_step ce p6 e (clients a ! i) = Some s'" and "engine_event e" and "i < length (clients a)"
  shows "one_running (call_client ce p6 i e a)"
  using assms(1,2,4) engine_event_running [OF assms(2,3)]
  by (auto simp: one_running_def running_at_def call_client_def nth_list_update)

lemma new_not_running: "\<not> running_at (new_client (NewVPNClient addr key h k) a) (length (clients a))"
  by (simp add: running_at_def new_client_def new_sys_def NewVPNClient_def)

lemma handleConnect_accepts:
  assumes "hex_decode (req_pskHex r) = Some k" and "length k = 32" and "\<not> client_running a"
  shows "handleConnect ce p6 ''POST'' (Some r) a = ((200, ''connected''),
     call_client ce p6 (length (clients a)) StartV
       (new_client (NewVPNClient (req_serverAddr r) (req_accessKey r) (req_hwid r) k) a))"
proof -
  have "length (clients (new_client c a)) - 1 = length (clients a)" for c by (simp add: new_client_def)
  then show ?thesis using assms new_not_running by (simp add: handleConnect_def Let_def)
qed

lemma handleConnect_cases:
  obtains (refused) code msg where "handleConnect ce p6 m r a = ((code, msg), a)" and "code \<noteq> 200"
  | (accepted) q k where "m = ''POST''" and "r = Some q" and "hex_decode (req_pskHex q) = Some k" and "length k = 32"
      and "\<not> client_running a"
proof (cases "m = ''POST'' \<and> (\<exists>q k. r = Some q \<and> hex_decode (req_pskHex q) = Some k \<and> length k = 32 \<and> \<not> client_running a)")
  case False
  then show thesis
    by (intro refused [of "fst (fst (handleConnect ce p6 m r a))" "snd (fst (handleConnect ce p6 m r a))"])
       (auto simp: handleConnect_def split: option.split)
qed (use accepted in blast)

lemma one_running_reach: "app_reach ce p6 a \<Longrightarrow> one_running a"
proof (induction rule: app_reach.induct)
  case app_new
  then show ?case by (simp add: one_running_def no_clients_def)
next
  case (app_step a e a')
  show ?case
  proof (cases e)
    case (ConnectEv m r)
    show ?thesis
    proof (cases rule: handleConnect_cases [of ce p6 m r a])
      case refused
      with app_step ConnectEv show ?thesis by simp
    next
      case (accepted q k)
      let ?a = "call_client ce p6 (length (clients a)) StartV
        (new_client (NewVPNClient (req_serverAddr q) (req_accessKey q) (req_hwid q) k) a)"
      have "a' = ?a"
        using app_step ConnectEv accepted(1,2) handleConnect_accepts [OF accepted(3-5), of ce p6] by simp
      moreover have "one_running ?a"
        by (rule one_running_new [OF app_step.IH]) (use client_running_iff [OF app_step.IH] accepted(5) in simp)
      ultimately show ?thesis by (simp only:)
    qed
  next
    case (DisconnectEv m)
    with app_step one_running_stop [of a ce p6] show ?thesis by (auto simp: handleDisconnect_def)
  next
    case (EngineEv i ev)
    with app_step one_running_engine [OF app_step.IH, of ce p6 ev i] show ?thesis by (auto split: if_splits)
  qed
qed

text \<open>
  The local daemon runs one client at a time. In every reachable state at most one engine
  says it is running, and it is the one the global variable points to, so the status endpoint
  tells exactly whether one runs. A connect request is answered 200 exactly when it is a POST
  with a decodable body and a key of 32 bytes while no client runs, and 409 when only the last
  of these fails; every other answer changes nothing, and a disconnect leaves none running.
\<close>

theorem one_client_runs:
  assumes "app_reach ce p6 a"
  shows "(\<forall>i j. i < length (clients a) \<and> j < length (clients a) \<and> running_at a i \<and> running_at a j \<longrightarrow> i = j)
     \<and> (\<exists>st. handleStatus ''GET'' a = (200, Some st) \<and> st_running st = (\<exists>i < length (clients a). running_at a i))
     \<and> (fst (fst (handleConnect ce p6 m r a)) = 200 \<longleftrightarrow> m = ''POST'' \<and> (\<exists>q k. r = Some q
            \<and> hex_decode (req_pskHex q) = Some k \<and> length k = 32) \<and> globalClient a = None)
     \<and> (fst (fst (handleConnect ce p6 m r a)) = 409 \<longleftrightarrow> m = ''POST'' \<and> (\<exists>q k. r = Some q
            \<and> hex_decode (req_pskHex q) = Some k \<and> length k = 32) \<and> globalClient a \<noteq> None)
     \<and> (fst (fst (handleConnect ce p6 m r a)) \<noteq> 200 \<longrightarrow> snd (handleConnect ce p6 m r a) = a)
     \<and> (\<forall>i < length (clients a). \<not> running_at (snd (handleDisconnect ce p6 ''POST'' a)) i)"
proof -
  note inv = one_running_reach [OF assms]
  have run: "client_running a \<longleftrightarrow> globalClient a \<noteq> None" by (rule client_running_iff [OF inv])
  have accept: "fst (fst (handleConnect ce p6 m r a)) = 200 \<longleftrightarrow> m = ''POST'' \<and> (\<exists>q k. r = Some q
            \<and> hex_decode (req_pskHex q) = Some k \<and> length k = 32) \<and> globalClient a = None"
    using handleConnect_accepts [of _ _ a ce p6] run
    by (cases rule: handleConnect_cases [of ce p6 m r a])
       (auto simp: handleConnect_def Let_def new_not_running split: if_splits option.splits)
  have conflict: "fst (fst (handleConnect ce p6 m r a)) = 409 \<longleftrightarrow> m = ''POST'' \<and> (\<exists>q k. r = Some q
            \<and> hex_decode (req_pskHex q) = Some k \<and> length k = 32) \<and> globalClient a \<noteq> None"
    using run by (auto simp: handleConnect_def Let_def split: if_splits option.splits)
  have same: "fst (fst (handleConnect ce p6 m r a)) \<noteq> 200 \<longrightarrow> snd (handleConnect ce p6 m r a) = a"
    using handleConnect_accepts [of _ _ a ce p6] by (cases rule: handleConnect_cases [of ce p6 m r a]) auto
  have status: "\<exists>st. handleStatus ''GET'' a = (200, Some st) \<and> st_running st = (\<exists>i < length (clients a). running_at a i)"
    using inv by (auto simp: handleStatus_def one_running_def Let_def split: option.split)
  have one: "\<forall>i j. i < length (clients a) \<and> j < length (clients a) \<and> running_at a i \<and> running_at a j \<longrightarrow> i = j"
    using inv by (auto simp: one_running_def)
  have len: "length (clients (snd (handleDisconnect ce p6 ''POST'' a))) = length (clients a)"
    by (auto simp: handleDisconnect_def stopVPN_def call_client_def split: option.split)
  have "one_running (snd (handleDisconnect ce p6 ''POST'' a))" "globalClient (snd (handleDisconnect ce p6 ''POST'' a)) = None"
    using one_running_stop [OF inv] by (simp_all add: handleDisconnect_def stopVPN_def split: option.split)
  then have "\<forall>i < length (clients a). \<not> running_at (snd (handleDisconnect ce p6 ''POST'' a)) i"
    using len by (auto simp: one_running_def)
  with one status accept conflict same show ?thesis by blast
qed

definition sample_connect :: ConnectRequest where
  "sample_connect = \<lparr>req_serverAddr = ''vpn:443'', req_accessKey = ''epn_1'', req_hwid = ''h1'',
     req_pskHex = hex_encode (replicate 32 1)\<rparr>"

theorem one_client_runs_witness:
  "fst (fst (handleConnect sample_ce (\<lambda>_. None) ''POST'' (Some sample_connect)
       (snd (handleConnect sample_ce (\<lambda>_. None) ''POST'' (Some sample_connect) no_clients)))) = 409"
proof -
  let ?a = "snd (handleConnect sample_ce (\<lambda>_. None) ''POST'' (Some sample_connect) no_clients)"
  have k: "hex_decode (req_pskHex sample_connect) = Some (replicate 32 1)" by (simp add: sample_connect_def)
  have "app_reach sample_ce (\<lambda>_. None) ?a"
    by (rule app_reach.app_step [OF app_new, where e = "ConnectEv ''POST'' (Some sample_connect)"]) simp
  moreover have "globalClient ?a = Some 0"
    using handleConnect_accepts [OF k, of no_clients]
    by (simp add: client_running_def no_clients_def call_client_def new_client_def split: option.split)
  ultimately show ?thesis
    using one_client_runs [of sample_ce "\<lambda>_. None" ?a "''POST''" "Some sample_connect"] k by simp
qed

subsection \<open>The device of the extension\<close>

text \<open>Numbers only grow, so the number 0 does not come back to a client that has lost its first device.\<close>

definition lost_first :: "client_sys \<Rightarrow> bool" where
  "lost_first s \<longleftrightarrow> 0 < next_id (snd (engine s)) \<and> cl_tunDev (fst (engine s)) \<noteq> Some 0"

lemma lost_first_stages [simp]:
  "cl_tunDev (fst (drop_quic q st)) = cl_tunDev (fst st)" "next_id (snd (drop_quic q st)) = next_id (snd st)"
  "cl_tunDev (fst (show_tcp st)) = cl_tunDev (fst st)" "next_id (snd (show_tcp st)) = next_id (snd st)"
  "cl_tunDev (fst (keep_response resp st)) = cl_tunDev (fst st)" "next_id (snd (keep_response resp st)) = next_id (snd st)"
  "cl_tunDev (fst (close_device st)) = None" "next_id (snd (close_device st)) = next_id (snd st)"
  "cl_tunDev (fst (open_device st)) = Some (next_id (snd st))" "next_id (snd (open_device st)) = Suc (next_id (snd st))"
  "cl_tunDev (fst (open_data st)) = cl_tunDev (fst st)" "next_id (snd (open_data st)) = Suc (next_id (snd st))"
  "cl_tunDev (fst (snd (keep_quic st))) = cl_tunDev (fst st)" "next_id (snd (snd (keep_quic st))) = Suc (next_id (snd st))"
  "cl_tunDev (fst (Stop st)) = None" "next_id (snd (Stop st)) = next_id (snd st)"
  by (simp_all add: stage_defs show_tcp_def Stop_def cleanup_def split_beta Let_def)

lemma lost_first_step:
  assumes "client_step ce p6 e s = Some s'" and "lost_first s"
  shows "lost_first s'"
  using assms
  by (cases e) (auto simp: lost_first_def Let_def split_beta Start_def SetCustomTUN_def
      split: if_splits option.splits wphase.splits sum.splits outcome.splits)

datatype bridge_event = BStop | BPush bytes | BEngine nat client_event

fun bridge_step :: "crypto_env \<Rightarrow> (string \<Rightarrow> bytes option) \<Rightarrow> bridge_event \<Rightarrow> bridge \<Rightarrow> bridge" where
  "bridge_step ce p6 BStop b = StopVPN ce p6 b"
| "bridge_step ce p6 (BPush data) b = PushPacketToGo data b"
| "bridge_step ce p6 (BEngine i e) b =
     (if i < length (clients (base b)) \<and> engine_event e then bridge_call ce p6 i e b else b)"

lemma bridge_call_keeps:
  assumes "lost_first (clients (base b) ! i)" and "i < length (clients (base b))" and "i < length (app_tuns b)"
  shows "lost_first (clients (base (bridge_call ce p6 j e b)) ! i)"
    and "length (clients (base (bridge_call ce p6 j e b))) = length (clients (base b))"
    and "length (app_tuns (bridge_call ce p6 j e b)) = length (app_tuns b)"
    and "readChan (app_tuns (bridge_call ce p6 j e b) ! i) = readChan (app_tuns b ! i)"
  using assms lost_first_step
  by (cases "j = i"; auto simp: bridge_call_def call_client_def Close_app_def Let_def split: option.split)+

lemma bridge_step_keeps:
  assumes "lost_first (clients (base b) ! i)" and "i < length (clients (base b))" and "i < length (app_tuns b)"
    and "globalClient (base b) = Some i \<or> globalClient (base b) = None"
  shows "lost_first (clients (base (bridge_step ce p6 e b)) ! i)
    \<and> length (clients (base (bridge_step ce p6 e b))) = length (clients (base b))
    \<and> length (app_tuns (bridge_step ce p6 e b)) = length (app_tuns b)
    \<and> readChan (app_tuns (bridge_step ce p6 e b) ! i) = readChan (app_tuns b ! i)
    \<and> (globalClient (base (bridge_step ce p6 e b)) = Some i \<or> globalClient (base (bridge_step ce p6 e b)) = None)"
proof -
  have g: "globalClient (base (bridge_call ce p6 j ev b)) = globalClient (base b)" for j ev
    by (simp add: bridge_call_def call_client_def Let_def split: option.split)
  note keeps = bridge_call_keeps [OF assms(1-3)]
  show ?thesis
  proof (cases e)
    case BStop
    then show ?thesis using keeps assms(4) g assms(1) by (auto simp: StopVPN_def Let_def)
  next
    case (BPush data)
    then show ?thesis using assms by (auto simp: PushPacketToGo_def lost_first_def)
  next
    case (BEngine j ev)
    then show ?thesis using keeps assms g by auto
  qed
qed

lemma lost_first_forever:
  assumes "lost_first (clients (base b) ! i)" and "i < length (clients (base b))" and "i < length (app_tuns b)"
    and "globalClient (base b) = Some i \<or> globalClient (base b) = None"
  shows "readChan (app_tuns (fold (bridge_step ce p6) es b) ! i) = readChan (app_tuns b ! i)"
  using assms
proof (induction es arbitrary: b)
  case (Cons e es)
  then show ?case
    using bridge_step_keeps [OF Cons.prems, of ce p6 e] Cons.IH [of "bridge_step ce p6 e b"] by simp
qed simp

definition empty_bridge :: bridge where
  "empty_bridge = \<lparr>base = no_clients, app_tuns = []\<rparr>"

text \<open>What an accepted \<open>StartVPN\<close> leaves, and the steps of the engine up to the end of the first half of \<open>setupTUN\<close>.\<close>

definition first_steps :: "AuthResponse \<Rightarrow> bridge_event list" where
  "first_steps resp = map (BEngine 0) [TopV 0, DialV 0 None, AuthV 0 (Reply resp), CloseV 0]"

lemmas bridge_simps =
  empty_bridge_def no_clients_def bridge_call_def call_client_def new_client_def new_sys_def NewVPNClient_def
  Start_def SetCustomTUN_def running_at_def client_running_def Let_def

lemma StartVPN_first:
  assumes "hex_decode pskHex = Some k"
  obtains b c where "StartVPN ce p6 addr key h pskHex empty_bridge = (0, b)"
    and "clients (base b) = [c]" and "globalClient (base b) = Some 0" and "app_tuns b = [NewAppExtTUN]"
    and "cl_tunDev (fst (engine c)) = Some 0" and "is_running (fst (engine c))" and "tun_open (snd (engine c)) = [0]"
    and "next_id (snd (engine c)) = 1" and "watchers c 0 = Some AtTop" and "\<not> dead c 0"
  using assms by (simp add: StartVPN_def bridge_simps)

lemma first_steps_lose:
  assumes "clients (base b) = [c]" and "app_tuns b = [NewAppExtTUN]" and "cl_tunDev (fst (engine c)) = Some 0"
    and "tun_open (snd (engine c)) = [0]" and "next_id (snd (engine c)) = 1"
    and "watchers c 0 = Some AtTop" and "\<not> dead c 0" and "Status resp = ''success''"
  obtains b' c' where "fold (bridge_step ce p6) (first_steps resp) b = b'" and "clients (base b') = [c']"
    and "globalClient (base b') = globalClient (base b)" and "app_tuns b' = [NewAppExtTUN\<lparr>ae_closed := True\<rparr>]"
    and "lost_first c'"
proof -
  define b' where "b' = fold (bridge_step ce p6) (first_steps resp) b"
  obtain v n where e: "engine c = (v, n)" by fastforce
  have "\<exists>c'. clients (base b') = [c'] \<and> globalClient (base b') = globalClient (base b)
      \<and> app_tuns b' = [NewAppExtTUN\<lparr>ae_closed := True\<rparr>] \<and> lost_first c'"
    using assms e
    by (simp add: b'_def first_steps_def engine_event_def bridge_call_def call_client_def Let_def go_to_def stage_defs
        authenticateClient_def close_opt_def lost_first_def NewAppExtTUN_def Close_app_def)
  then show thesis using that b'_def by blast
qed

text \<open>
  The device of the Apple extension carries nothing. \<open>StartVPN\<close> accepts a key of any length
  and gives the new client the extension's device, and until the client has authenticated a
  packet that Swift pushes is queued there. The first connection closes this device in
  \<open>setupTUN\<close>: from then on, whatever the engine does and however often packets are pushed or
  the VPN is stopped, no packet reaches the queue again.
\<close>

theorem extension_device_lost:
  assumes "hex_decode pskHex = Some k" and "Status resp = ''success''"
  shows "case StartVPN ce p6 addr key h pskHex empty_bridge of (code, b) \<Rightarrow>
       code = 0 \<and> readChan (app_tuns (PushPacketToGo p b) ! 0) = [p]
     \<and> (let b' = fold (bridge_step ce p6) (first_steps resp) b
        in ae_closed (app_tuns b' ! 0)
           \<and> readChan (app_tuns (fold (bridge_step ce p6) es b') ! 0) = [])"
proof -
  obtain b c where b: "StartVPN ce p6 addr key h pskHex empty_bridge = (0, b)"
    and c: "clients (base b) = [c]" "globalClient (base b) = Some 0" "app_tuns b = [NewAppExtTUN]"
      "cl_tunDev (fst (engine c)) = Some 0" "is_running (fst (engine c))" "tun_open (snd (engine c)) = [0]"
      "next_id (snd (engine c)) = 1" "watchers c 0 = Some AtTop" "\<not> dead c 0"
    by (rule StartVPN_first [OF assms(1)])
  obtain b' c' where b': "fold (bridge_step ce p6) (first_steps resp) b = b'" "clients (base b') = [c']"
    "globalClient (base b') = globalClient (base b)" "app_tuns b' = [NewAppExtTUN\<lparr>ae_closed := True\<rparr>]" "lost_first c'"
    by (rule first_steps_lose [OF c(1,3,4,6-9) assms(2)])
  have "readChan (app_tuns (fold (bridge_step ce p6) es b') ! 0) = []"
    using lost_first_forever [of b' 0 ce p6 es] b' c(2) by (simp add: NewAppExtTUN_def)
  then show ?thesis using b b' c
    by (simp add: Let_def PushPacketToGo_def running_at_def PushPacketFromSwift_def NewAppExtTUN_def readChan_cap_def)
qed

theorem extension_device_lost_witness:
  "case StartVPN sample_ce (\<lambda>_. None) ''vpn:443'' ''epn_1'' ''h1'' ''a1'' empty_bridge of (code, b) \<Rightarrow>
     code = 0 \<and> readChan (app_tuns (fold (bridge_step sample_ce (\<lambda>_. None)) [BPush [1], BPush [2]]
        (fold (bridge_step sample_ce (\<lambda>_. None)) (first_steps greeting) b)) ! 0) = []"
proof -
  have k: "hex_decode ''a1'' = Some [0xa1]" by code_simp
  have r: "Status greeting = ''success''" by (simp add: greeting_def)
  show ?thesis
    using extension_device_lost [OF k r, where ce = sample_ce and ?p6.0 = "\<lambda>_. None" and addr = "''vpn:443''"
        and key = "''epn_1''" and h = "''h1''" and p = "[]" and es = "[BPush [1], BPush [2]]"]
    unfolding Let_def by (simp only: split_beta)
qed

end
