(* ===== verification/Client_Process.thy ===== *)
theory Client_Process
  imports Client_Apps Tun "HOL-Library.Sublist"
begin

section \<open>The process of the local daemon on macOS (client/cmd/main.go, shared/tun_darwin.go)\<close>

text \<open>
  \<open>main\<close> starts the watchdog of the parent process, the HTTP server and waits for a signal. The
  process ends in three ways: \<open>main\<close> after the signal, the watchdog, and \<open>log.Fatalf\<close> when the
  HTTP server fails; only the first stops the client. On macOS what the process leaves behind is
  the name resolution of the machine: creating a device overrides it and closing a device
  restores it, through the process-wide variable \<open>globalPrimaryService\<close>, whichever client the
  device belongs to. Between \<open>stopVPN\<close> and \<open>os.Exit\<close> the other goroutines go on, so these are two
  steps of \<open>main\<close>.
\<close>

datatype process_phase = Serving | Stopped | Exited nat

record client_process =
  app :: client_app
  globalPrimaryService :: string
  dns_log :: "string list"
  parentPid :: int
  phase :: process_phase

definition new_process :: "int \<Rightarrow> client_process" where
  "new_process pid =
     \<lparr>app = no_clients, globalPrimaryService = [], dns_log = [], parentPid = pid, phase = Serving\<rparr>"

subsection \<open>What a step of a client does to the name resolution\<close>

text \<open>
  \<open>cleanup\<close> and the first half of \<open>setupTUN\<close> close the device the client has; the second half
  creates one, which installs routes and the override when it was given the server's address.
  \<open>out\<close> is the answer to the query of \<open>scutil\<close>.
\<close>

fun closes_device :: "client_event \<Rightarrow> client_sys \<Rightarrow> bool" where
  "closes_device StopV s = (cl_tunDev (fst (engine s)) \<noteq> None)"
| "closes_device (CloseV w) s =
     (case watchers s w of Some (TunClosing q resp) \<Rightarrow> cl_tunDev (fst (engine s)) \<noteq> None | _ \<Rightarrow> False)"
| "closes_device _ s = False"

fun installs_routes :: "(string \<Rightarrow> bytes option) \<Rightarrow> client_event \<Rightarrow> client_sys \<Rightarrow> bool" where
  "installs_routes p6 (CreateV w nm server created) s =
     (case watchers s w of
        Some (TunCreating q resp) \<Rightarrow>
          created (client_tun_config p6 nm server resp) = None
          \<and> RouteServer (client_tun_config p6 nm server resp) \<noteq> []
      | _ \<Rightarrow> False)"
| "installs_routes p6 _ s = False"

definition dns_of_client ::
  "(string \<Rightarrow> bytes option) \<Rightarrow> string option \<Rightarrow> client_event \<Rightarrow> client_sys \<Rightarrow> string \<Rightarrow> string \<times> string list" where
  "dns_of_client p6 out e s global =
     (if closes_device e s then restoreDNS global
      else if installs_routes p6 e s then applyDNSOverride out global
      else (global, []))"

definition dns_of_stopVPN :: "client_app \<Rightarrow> string \<Rightarrow> string \<times> string list" where
  "dns_of_stopVPN a global =
     (case globalClient a of
        None \<Rightarrow> (global, [])
      | Some i \<Rightarrow> dns_of_client (\<lambda>_. None) None StopV (clients a ! i) global)"

fun dns_of_app ::
  "(string \<Rightarrow> bytes option) \<Rightarrow> string option \<Rightarrow> app_event \<Rightarrow> client_app \<Rightarrow> string \<Rightarrow> string \<times> string list" where
  "dns_of_app p6 out (ConnectEv m r) a global = (global, [])"
| "dns_of_app p6 out (DisconnectEv m) a global = (if m = ''POST'' then dns_of_stopVPN a global else (global, []))"
| "dns_of_app p6 out (EngineEv i e) a global = dns_of_client p6 out e (clients a ! i) global"

subsection \<open>The process\<close>

datatype process_event =
    AppEv app_event "string option"
  | TermSignal
  | ExitNow
  | ParentGone "bool list"
  | ApiServerFails

definition set_dns :: "string \<times> string list \<Rightarrow> client_process \<Rightarrow> client_process" where
  "set_dns d p = p\<lparr>globalPrimaryService := fst d, dns_log := dns_log p @ snd d\<rparr>"

definition exited :: "client_process \<Rightarrow> bool" where
  "exited p \<longleftrightarrow> (case phase p of Exited c \<Rightarrow> True | _ \<Rightarrow> False)"

fun process_step ::
  "crypto_env \<Rightarrow> (string \<Rightarrow> bytes option) \<Rightarrow> process_event \<Rightarrow> client_process \<Rightarrow> client_process option" where
  "process_step ce p6 (AppEv e out) p =
     (if exited p then None
      else case app_step ce p6 e (app p) of
        None \<Rightarrow> None
      | Some a \<Rightarrow> Some (set_dns (dns_of_app p6 out e (app p) (globalPrimaryService p)) (p\<lparr>app := a\<rparr>)))"
| "process_step ce p6 TermSignal p =
     (if phase p = Serving
      then Some (set_dns (dns_of_stopVPN (app p) (globalPrimaryService p))
                  (p\<lparr>app := stopVPN ce p6 (app p), phase := Stopped\<rparr>))
      else None)"
| "process_step ce p6 ExitNow p = (if phase p = Stopped then Some (p\<lparr>phase := Exited 0\<rparr>) else None)"
| "process_step ce p6 (ParentGone probes) p =
     (if \<not> exited p \<and> 0 < parentPid p \<and> pidWatchdog probes \<noteq> None then Some (p\<lparr>phase := Exited 0\<rparr>) else None)"
| "process_step ce p6 ApiServerFails p = (if exited p then None else Some (p\<lparr>phase := Exited 1\<rparr>))"

fun process_run ::
  "crypto_env \<Rightarrow> (string \<Rightarrow> bytes option) \<Rightarrow> process_event list \<Rightarrow> client_process \<Rightarrow> client_process option" where
  "process_run ce p6 [] p = Some p"
| "process_run ce p6 (e # es) p =
     (case process_step ce p6 e p of None \<Rightarrow> None | Some p' \<Rightarrow> process_run ce p6 es p')"

inductive process_reach :: "crypto_env \<Rightarrow> (string \<Rightarrow> bytes option) \<Rightarrow> int \<Rightarrow> client_process \<Rightarrow> bool"
  for ce p6 pid where
  process_new: "process_reach ce p6 pid (new_process pid)"
| process_next: "process_reach ce p6 pid p \<Longrightarrow> process_step ce p6 e p = Some p' \<Longrightarrow> process_reach ce p6 pid p'"

text \<open>
  The machine resolves names through the servers of the override when the last script that was
  run set them.
\<close>

definition is_override :: "string \<Rightarrow> bool" where
  "is_override script \<longleftrightarrow>
     prefix (''d.init'' @ [CHR 0x0A] @ ''d.add ServerAddresses * 8.8.8.8 8.8.4.4'' @ [CHR 0x0A]) script"

definition dns_overridden :: "client_process \<Rightarrow> bool" where
  "dns_overridden p \<longleftrightarrow> dns_log p \<noteq> [] \<and> is_override (last (dns_log p))"

subsection \<open>The variable tells whether the override is in force\<close>

lemma is_override_script [simp]:
  "is_override (dns_script ''8.8.8.8 8.8.4.4'' ps)" "\<not> is_override (dns_script ''empty'' ps)"
  by (simp_all add: is_override_def dns_script_def)

definition dns_effect :: "string \<Rightarrow> string \<times> string list \<Rightarrow> bool" where
  "dns_effect global d \<longleftrightarrow>
     (if snd d = [] then fst d = global else is_override (last (snd d)) \<longleftrightarrow> fst d \<noteq> [])"

lemma dns_effect_none [simp]: "dns_effect global (global, [])"
  by (simp add: dns_effect_def)

lemma primary_service_nonempty: "primary_service ls = Some ps \<Longrightarrow> ps \<noteq> []"
  by (induction ls) (auto simp: Let_def split: if_splits list.splits)

lemma dns_effect_ops [simp]:
  "dns_effect global (restoreDNS global)" "dns_effect global (applyDNSOverride out global)"
  using primary_service_nonempty
  by (auto simp: restoreDNS_def applyDNSOverride_def dns_effect_def split: option.split)

lemma dns_effect_client [simp]: "dns_effect global (dns_of_client p6 out e s global)"
  by (simp add: dns_of_client_def)

lemma dns_effect_stop [simp]: "dns_effect global (dns_of_stopVPN a global)"
  by (simp add: dns_of_stopVPN_def split: option.split)

lemma dns_effect_app [simp]: "dns_effect global (dns_of_app p6 out e a global)"
  by (cases e) simp_all

lemma overridden_set_dns:
  assumes "dns_overridden p \<longleftrightarrow> globalPrimaryService p \<noteq> []" and "dns_effect (globalPrimaryService p) d"
    and "dns_log q = dns_log p"
  shows "dns_overridden (set_dns d q) \<longleftrightarrow> globalPrimaryService (set_dns d q) \<noteq> []"
  using assms by (auto simp: set_dns_def dns_overridden_def dns_effect_def split: if_splits)

lemma overridden_iff:
  assumes "process_reach ce p6 pid p"
  shows "dns_overridden p \<longleftrightarrow> globalPrimaryService p \<noteq> []" and "parentPid p = pid"
proof -
  have "(dns_overridden p \<longleftrightarrow> globalPrimaryService p \<noteq> []) \<and> parentPid p = pid"
    using assms
  proof (induction rule: process_reach.induct)
    case process_new
    then show ?case by (simp add: new_process_def dns_overridden_def)
  next
    case (process_next p e p')
    have ok: "dns_overridden p \<longleftrightarrow> globalPrimaryService p \<noteq> []" and pid: "parentPid p = pid"
      using process_next.IH by simp_all
    show ?case
    proof (cases e)
      case (AppEv ev out)
      then obtain a where "p' = set_dns (dns_of_app p6 out ev (app p) (globalPrimaryService p)) (p\<lparr>app := a\<rparr>)"
        using process_next.hyps by (auto split: if_splits option.splits)
      then show ?thesis using overridden_set_dns [OF ok dns_effect_app] pid by (simp add: set_dns_def)
    next
      case TermSignal
      then have "p' = set_dns (dns_of_stopVPN (app p) (globalPrimaryService p))
          (p\<lparr>app := stopVPN ce p6 (app p), phase := Stopped\<rparr>)"
        using process_next.hyps by (auto split: if_splits)
      then show ?thesis using overridden_set_dns [OF ok dns_effect_stop] pid by (simp add: set_dns_def)
    qed (use process_next.hyps ok pid in \<open>auto simp: dns_overridden_def split: if_splits\<close>)
  qed
  then show "dns_overridden p \<longleftrightarrow> globalPrimaryService p \<noteq> []" and "parentPid p = pid" by simp_all
qed

lemma process_reach_run:
  "process_reach ce p6 pid p \<Longrightarrow> process_run ce p6 es p = Some p' \<Longrightarrow> process_reach ce p6 pid p'"
  by (induction es arbitrary: p) (auto split: option.splits intro: process_next)


text \<open>A daemon that serves a client whose first connection has created its device.\<close>

definition sample_events :: "process_event list" where
  "sample_events =
     AppEv (ConnectEv ''POST'' (Some sample_connect)) None
     # map (\<lambda>e. AppEv (EngineEv 0 e) (Some ''PrimaryService : S1''))
         [TopV 0, DialV 0 None, AuthV 0 (Reply greeting), CloseV 0, CreateV 0 ''utun4'' [1, 2, 3, 4] (\<lambda>_. None)]"

lemma sample_answer: "applyDNSOverride (Some ''PrimaryService : S1'') [] = (''S1'', [dns_script ''8.8.8.8 8.8.4.4'' ''S1''])"
  by code_simp

lemma route_server [simp]: "RouteServer (client_tun_config p6 nm server resp) = server"
  by (simp add: client_tun_config_def)

lemma first_connection:
  assumes "clients (app p) = [c]" and "engine c = (v, n)" and "cl_tunDev v = None" and "watchers c 0 = Some AtTop"
    and "\<not> dead c 0" and "phase p = Serving" and "globalPrimaryService p = []" and "Status resp = ''success''"
    and "applyDNSOverride out [] = (ps, scripts)"
  shows "\<exists>p'. process_run ce p6 (map (\<lambda>e. AppEv (EngineEv 0 e) out)
         [TopV 0, DialV 0 None, AuthV 0 (Reply resp), CloseV 0, CreateV 0 nm (b # server) (\<lambda>_. None)]) p = Some p'
     \<and> phase p' = Serving \<and> globalClient (app p') = globalClient (app p)
     \<and> cl_tunDev (fst (engine (clients (app p') ! 0))) \<noteq> None \<and> globalPrimaryService p' = ps"
  using assms
  by (simp add: exited_def set_dns_def call_client_def engine_event_def go_to_def stage_defs authenticateClient_def
      close_opt_def dns_of_client_def Let_def)

lemma sample_run:
  "\<exists>p. process_run sample_ce (\<lambda>_. None) sample_events (new_process 7) = Some p \<and> phase p = Serving
     \<and> globalClient (app p) = Some 0 \<and> cl_tunDev (fst (engine (clients (app p) ! 0))) \<noteq> None
     \<and> globalPrimaryService p = ''S1''"
proof -
  let ?v = "NewVPNClient ''vpn:443'' ''epn_1'' ''h1'' (replicate 32 1)"
  have k: "hex_decode (req_pskHex sample_connect) = Some (replicate 32 1)" by (simp add: sample_connect_def)
  have r: "Status greeting = ''success''" by (simp add: greeting_def)
  obtain p where p: "process_step sample_ce (\<lambda>_. None) (AppEv (ConnectEv ''POST'' (Some sample_connect)) None)
      (new_process 7) = Some p"
    and a: "app p = call_client sample_ce (\<lambda>_. None) 0 StartV (new_client ?v no_clients)"
    and s: "phase p = Serving" "globalPrimaryService p = []"
    using handleConnect_accepts [OF k, of no_clients]
    by (simp add: client_running_def no_clients_def new_process_def exited_def set_dns_def sample_connect_def)
  obtain c v n where c: "clients (app p) = [c]" "engine c = (v, n)" "cl_tunDev v = None" "watchers c 0 = Some AtTop"
    "\<not> dead c 0" and g: "globalClient (app p) = Some 0"
    by (simp add: a bridge_simps)
  show ?thesis
    using first_connection [OF c s r sample_answer] p g by (simp add: sample_events_def)
qed


end
