(* ===== verification/Server_Boot.thy ===== *)
theory Server_Boot
  imports Daemon_Correct Nat_Rules Api_Correct
begin

section \<open>Starting and stopping the server (server/cmd/main.go, server/daemon/daemon.go)\<close>

text \<open>
  How \<open>main\<close> reads its configuration, provisions the first account and creates the daemon, and
  what \<open>NewVPNServer\<close> and \<open>Close\<close> do with the TUN device and the filter rules. The environment
  is a function from names to values; \<open>create_tun\<close> stands for the platform's \<open>CreateTUN\<close>: it
  returns the device's name or fails. The effects on the machine are a record: the state of
  the packet filter and which devices are open.
\<close>

subsection \<open>Configuration\<close>

definition getEnv :: "(string \<Rightarrow> string option) \<Rightarrow> string \<Rightarrow> string \<Rightarrow> string" where
  "getEnv lookup key defaultVal = (case lookup key of Some v \<Rightarrow> v | None \<Rightarrow> defaultVal)"

definition getEnvBool :: "(string \<Rightarrow> string option) \<Rightarrow> string \<Rightarrow> bool \<Rightarrow> bool" where
  "getEnvBool lookup key defaultVal =
     (case lookup key of
        None \<Rightarrow> defaultVal
      | Some v \<Rightarrow> v = ''true'' \<or> v = ''1'' \<or> v = ''yes'')"

record main_config =
  vpnAddr :: string
  mc_dataPort :: int
  apiAddr :: string
  adminKey :: string
  psk :: bytes
  dbPath :: string
  tunNameCfg :: string
  subnetCfg :: string
  outIface :: string
  enableNAT :: bool
  maxClients :: int

text \<open>The configuration \<open>main\<close> goes on with, or \<open>None\<close> when it stops on the pre-shared key.\<close>

definition read_config :: "(string \<Rightarrow> string option) \<Rightarrow> main_config option" where
  "read_config lookup =
     (let pskHex = getEnv lookup ''VPN_PSK''
            ''43484f4f53455f415f5345435552455f50534b5f4b45595f544f5f5553455f38''
      in case hex_decode pskHex of
           None \<Rightarrow> None
         | Some k \<Rightarrow>
             if length k \<noteq> 32 then None
             else Some
               \<lparr>vpnAddr = getEnv lookup ''VPN_ADDR'' ''0.0.0.0:51820'',
                mc_dataPort = (case ParseInt64 (getEnv lookup ''VPN_DATA_PORT'' ''51821'') of
                                 None \<Rightarrow> 51821 | Some n \<Rightarrow> n),
                apiAddr = getEnv lookup ''API_ADDR'' ''0.0.0.0:8080'',
                adminKey = getEnv lookup ''API_KEY'' ''vpn8_admin_default_token_9988'',
                psk = k,
                dbPath = getEnv lookup ''DB_PATH'' ''vpn8.db'',
                tunNameCfg = getEnv lookup ''TUN_NAME'' ''vpn8-tun0'',
                subnetCfg = getEnv lookup ''VPN_SUBNET'' ''10.8.0.0/16'',
                outIface = getEnv lookup ''OUT_IFACE'' [],
                enableNAT = getEnvBool lookup ''ENABLE_NAT'' True,
                maxClients = (case ParseInt64 (getEnv lookup ''MAX_CLIENTS'' ''0'') of
                                None \<Rightarrow> 0 | Some n \<Rightarrow> n)\<rparr>)"

text \<open>
  The auto-provisioned owner: only when the listing succeeds and is empty, and a failure is
  only logged.
\<close>

definition provision_owner ::
  "db_err option \<Rightarrow> row_end \<Rightarrow> db_err option \<Rightarrow> int \<Rightarrow> string \<Rightarrow> db \<Rightarrow> db" where
  "provision_owner lfault re cfault now apikey d =
     (case ListUsers lfault re d of
        Inr [] \<Rightarrow>
          snd (CreateUser cfault now ''default_owner'' ''epn_owner_key_default'' apikey ''owner'' 5 0 d)
      | _ \<Rightarrow> d)"

subsection \<open>NewVPNServer\<close>

record ServerConfig =
  cfg_Store :: db
  PSK :: bytes
  TUNName :: string
  SubnetText :: string
  MaxClients :: int
  EnableNAT :: bool
  OutIface :: string
  cfg_DataPort :: int

datatype server_err = ObfuscatorFailed obf_err | PoolFailed new_pool_err | TUNFailed string | NATFailed nat_err

record 'w machine =
  filter_state :: 'w
  open_tuns :: "string list"

definition close_tun :: "string \<Rightarrow> 'w machine \<Rightarrow> 'w machine" where
  "close_tun nm m = m\<lparr>open_tuns := remove1 nm (open_tuns m)\<rparr>"

record 'w platform =
  crypto :: crypto_env
  parse6 :: "string \<Rightarrow> bytes option"
  numCPU :: int
  meminfo :: "string option"
  exec_cmd :: "'w exec"
  ip_route :: "string option"
  create_tun :: "TUNConfig \<Rightarrow> string + string"

text \<open>The server with its obfuscator, device and interface; an error leaves the machine changed.\<close>

record vpn_server =
  state :: VPNServer
  obfuscator :: aead
  tunDev :: string
  natEnabled :: bool
  natIface :: string

definition NewVPNServer ::
  "'w platform \<Rightarrow> ServerConfig \<Rightarrow> 'w machine \<Rightarrow> (server_err, vpn_server) outcome \<times> 'w machine" where
  "NewVPNServer pf cfg m =
     (case NewObfuscator (crypto pf) (PSK cfg) of
        Panic \<Rightarrow> (Panic, m)
      | Err e \<Rightarrow> (Err (ObfuscatorFailed e), m)
      | Ok obf \<Rightarrow>
          let subnet = (if SubnetText cfg = [] then ''10.8.0.0/16'' else SubnetText cfg) in
          (case NewIPPool (parse6 pf) (numCPU pf) (meminfo pf) subnet (MaxClients cfg) of
             Panic \<Rightarrow> (Panic, m)
           | Err e \<Rightarrow> (Err (PoolFailed e), m)
           | Ok pool \<Rightarrow>
               let tunName = (if TUNName cfg = [] then ''vpn8-tun0'' else TUNName cfg);
                   (ones, _) = mask_size (net_mask (subnetNet pool))
               in (case create_tun pf \<lparr>DevName = tunName, Address = IP_Pool.ServerIP pool, CIDR = int ones,
                                       tc_MTU = DefaultMTU, RouteServer = []\<rparr> of
                     Inl e \<Rightarrow> (Err (TUNFailed e), m)
                   | Inr dev \<Rightarrow>
                       let m = m\<lparr>open_tuns := dev # open_tuns m\<rparr>;
                           srv = \<lparr>state = fresh_server (cfg_Store cfg) pool (cfg_DataPort cfg), obfuscator = obf,
                                  tunDev = dev, natEnabled = EnableNAT cfg, natIface = OutIface cfg\<rparr>
                       in if \<not> EnableNAT cfg then (Ok srv, m)
                          else (case setupNAT (exec_cmd pf) (ip_route pf) (OutIface cfg) (SubnetCIDR pool) dev
                                       (filter_state m) of
                                  (Some e, _, w) \<Rightarrow>
                                    (Err (NATFailed e), close_tun dev (m\<lparr>filter_state := w\<rparr>))
                                | (None, iface, w) \<Rightarrow>
                                    (Ok (srv\<lparr>natIface := iface\<rparr>), m\<lparr>filter_state := w\<rparr>)))))"

text \<open>
  \<open>Close\<close>, called with no connection open: the rules are removed and the device is closed, in
  this order. \<open>main\<close> calls it at the end and once more in its deferred call.
\<close>

definition CloseServer :: "'w platform \<Rightarrow> vpn_server \<Rightarrow> 'w machine \<Rightarrow> 'w machine" where
  "CloseServer pf srv m =
     close_tun (tunDev srv)
       (if natEnabled srv
        then m\<lparr>filter_state := cleanupNAT (exec_cmd pf) (natIface srv) (SubnetCIDR (ipPool (state srv)))
                 (tunDev srv) (filter_state m)\<rparr>
        else m)"

subsection \<open>Properties\<close>

lemma NewIPPool_not_panic: "NewIPPool p6 n mem cidr mc \<noteq> Panic"
proof
  assume pn: "NewIPPool p6 n mem cidr mc = Panic"
  obtain ip nt ones where pc: "ParseCIDR p6 cidr = Some (ip, nt)" and ms: "mask_size (net_mask nt) = (ones, 32)"
    using pn by (auto simp: NewIPPool_def Let_def split: option.splits prod.splits if_splits)
  obtain b where "net_ip nt = put_u32 b" using ParseCIDR_v4 [OF pc ms] by metis
  then show False
    using pn pc ms by (auto simp: NewIPPool_def Let_def ipToUint32_def be_simps split: option.splits if_splits)
qed

lemma NewObfuscator_psk: "NewObfuscator env k = Ok a \<Longrightarrow> length k = 32"
  by (simp add: NewObfuscator_def split: if_splits)

lemma NewObfuscator_not_panic: "NewObfuscator env k \<noteq> Panic"
  by (simp add: NewObfuscator_def split: option.split)

lemma setupNAT_no_rules:
  "setupNAT ex route iface subnet dev w = (Some e, i, w') \<Longrightarrow> (\<forall>c. e \<noteq> CmdFailed c) \<Longrightarrow> w' = w"
proof -
  have "run_cmds ex cs w = (Some e, w') \<Longrightarrow> \<exists>c. e = CmdFailed c" for cs w'
    by (induction cs arbitrary: w) (auto split: prod.splits bool.splits)
  then show "setupNAT ex route iface subnet dev w = (Some e, i, w') \<Longrightarrow> (\<forall>c. e \<noteq> CmdFailed c) \<Longrightarrow> w' = w"
    by (auto simp: setupNAT_def split: sum.splits prod.splits)
qed

text \<open>The two ways \<open>NewVPNServer\<close> returns.\<close>

lemma NewVPNServer_Ok:
  assumes "NewVPNServer pf cfg m = (Ok srv, m')"
  obtains obf pool where "NewObfuscator (crypto pf) (PSK cfg) = Ok obf"
    and "NewIPPool (parse6 pf) (numCPU pf) (meminfo pf)
           (if SubnetText cfg = [] then ''10.8.0.0/16'' else SubnetText cfg) (MaxClients cfg) = Ok pool"
    and "state srv = fresh_server (cfg_Store cfg) pool (cfg_DataPort cfg)" and "natEnabled srv = EnableNAT cfg"
    and "open_tuns m' = tunDev srv # open_tuns m"
    and "if EnableNAT cfg
         then setupNAT (exec_cmd pf) (ip_route pf) (OutIface cfg) (SubnetCIDR pool) (tunDev srv) (filter_state m)
                = (None, natIface srv, filter_state m')
         else filter_state m' = filter_state m"
  using assms
  by (auto simp: NewVPNServer_def Let_def split: outcome.splits sum.splits prod.splits option.splits if_splits)

lemma NewVPNServer_Err:
  assumes "NewVPNServer pf cfg m = (Err e, m')"
  shows "open_tuns m' = open_tuns m \<and> (filter_state m' = filter_state m \<or> (\<exists>c. e = NATFailed (CmdFailed c)))"
proof -
  have nat: "w' = w \<or> (\<exists>c. e' = CmdFailed c)"
    if "setupNAT ex route iface subnet dev w = (Some e', i, w')" for ex route iface subnet dev i e' and w w' :: 'a
    using setupNAT_no_rules [OF that] by blast
  show ?thesis using assms
    by (auto simp: NewVPNServer_def Let_def close_tun_def dest: nat
        split: outcome.splits sum.splits prod.splits option.splits if_splits)
qed

lemma NewVPNServer_not_panic: "NewVPNServer pf cfg m \<noteq> (Panic, m')"
  using NewObfuscator_not_panic NewIPPool_not_panic
  by (auto simp: NewVPNServer_def Let_def split: outcome.splits sum.splits prod.splits option.splits if_splits)

text \<open>
  C22: \<open>NewVPNServer\<close> never panics. When it succeeds the pre-shared key has 32 bytes, exactly one
  TUN device was opened, and unless the subnet has no prefix at all the server starts with the
  invariant under which no address is ever held twice. When it fails no device stays open;
  the filter is untouched unless a command of the NAT setup failed: then what that setup had
  done stays.
\<close>

theorem NewVPNServer_outcome:
  "case NewVPNServer pf cfg m of
     (Ok srv, m') \<Rightarrow> length (PSK cfg) = 32 \<and> open_tuns m' = tunDev srv # open_tuns m
        \<and> sessions (state srv) = fmempty \<and> held (ipPool (state srv)) = {}
        \<and> (maxClient (ipPool (state srv)) < 2 ^ 31 \<longrightarrow> ok_state (state srv))
        \<and> (natEnabled srv \<or> filter_state m' = filter_state m)
   | (Err e, m') \<Rightarrow> open_tuns m' = open_tuns m
        \<and> (filter_state m' = filter_state m \<or> (\<exists>c. e = NATFailed (CmdFailed c)))
   | (Panic, m') \<Rightarrow> False"
proof -
  obtain r m' where run: "NewVPNServer pf cfg m = (r, m')" by fastforce
  show ?thesis
  proof (cases r)
    case (Ok srv)
    obtain obf pool where o: "NewObfuscator (crypto pf) (PSK cfg) = Ok obf"
      and p: "NewIPPool (parse6 pf) (numCPU pf) (meminfo pf)
           (if SubnetText cfg = [] then ''10.8.0.0/16'' else SubnetText cfg) (MaxClients cfg) = Ok pool"
      and s: "state srv = fresh_server (cfg_Store cfg) pool (cfg_DataPort cfg)" "natEnabled srv = EnableNAT cfg"
        "open_tuns m' = tunDev srv # open_tuns m" "EnableNAT cfg \<or> filter_state m' = filter_state m"
      by (rule NewVPNServer_Ok [OF run [unfolded Ok]]) (auto split: if_splits)
    have "held pool = {}" "maxClient pool < 2 ^ 31 \<longrightarrow> pool_wf pool" using NewIPPool_facts [OF p] by auto
    then show ?thesis
      using run Ok s NewObfuscator_psk [OF o] ok_fresh by (auto simp: fresh_server_def)
  next
    case (Err e)
    then show ?thesis using run NewVPNServer_Err [of pf cfg m e m'] by auto
  next
    case Panic
    then show ?thesis using run NewVPNServer_not_panic by metis
  qed
qed

definition sample_crypto :: crypto_env where
  "sample_crypto = \<lparr>sha256_sum = id, new_cipher = (\<lambda>_. Some clear_aead)\<rparr>"

definition sample_platform :: "command multiset platform" where
  "sample_platform = \<lparr>crypto = sample_crypto, parse6 = (\<lambda>_. None), numCPU = 4, meminfo = None,
     exec_cmd = sample_exec, ip_route = None, create_tun = (\<lambda>c. Inr (DevName c))\<rparr>"

definition sample_config :: ServerConfig where
  "sample_config = \<lparr>cfg_Store = empty_db, PSK = replicate 32 1, TUNName = [], SubnetText = [], MaxClients = 3,
     EnableNAT = True, OutIface = ''eth0'', cfg_DataPort = 51821\<rparr>"

theorem NewVPNServer_outcome_witness:
  "\<exists>srv m. NewVPNServer sample_platform sample_config \<lparr>filter_state = {#}, open_tuns = []\<rparr> = (Ok srv, m)
     \<and> open_tuns m = [''vpn8-tun0''] \<and> ok_state (state srv) \<and> size (filter_state m) = 3"
proof -
  let ?r = "NewVPNServer sample_platform sample_config \<lparr>filter_state = {#}, open_tuns = []\<rparr>"
  have pool: "NewIPPool (\<lambda>_. None) 4 None ''10.8.0.0/16'' 3 = Ok sample_pool" by code_simp
  obtain ones bits where ms: "mask_size (net_mask (subnetNet sample_pool)) = (ones, bits)" by fastforce
  have ob: "NewObfuscator sample_crypto (replicate 32 1) = Ok clear_aead"
    by (simp add: NewObfuscator_def sample_crypto_def)
  obtain srv m where r: "?r = (Ok srv, m)" and t: "tunDev srv = ''vpn8-tun0''"
    and p: "ipPool (state srv) = sample_pool" and f: "size (filter_state m) = 3"
    by (simp add: NewVPNServer_def sample_platform_def sample_config_def ob pool Let_def ms setupNAT_def
        setup_cmds_def sample_exec_def fresh_server_def)
  have "maxClient sample_pool < 2 ^ 31" by (simp add: sample_pool_def)
  with NewVPNServer_outcome [where pf = sample_platform and cfg = sample_config
      and m = "\<lparr>filter_state = {#}, open_tuns = []\<rparr>"] r t p f
  show ?thesis by auto
qed

lemma first_owner_authenticates:
  assumes ok: "store_ok d" and r: "users d' = [r]" "uid r = users_seq d + 1" "access_key r = key" "effective_limit r = 5"
    and dv: "devices d' = devices d" and ok': "store_ok d'" and "key \<noteq> []" "h \<noteq> []"
  shows "\<exists>x d2. Authenticate None [] (\<lambda>_. None) now key h d' = (Inr x, d2)"
proof -
  have "device_count (users_seq d + 1) d = 0"
    using ok by (intro device_count_unused) (auto simp: store_ok_def)
  then have "\<not> 5 \<le> device_count (uid r) d'" by (simp add: device_count_def dv r(2))
  moreover have "limit_of d' (uid r) = Some 5" using r(1,4) by (simp add: limit_of_def)
  ultimately show ?thesis
    using Authenticate_no_fault [OF assms(8,9) _ r(3) ok', of "[]" "\<lambda>_. None" now] r(1)
    by (auto simp: db_run_def RegisterDevice_no_fault)
qed

text \<open>
  First start. On an empty database provisioning creates one owner with the fixed access key
  and the configured API key, which a client can authenticate with and which opens the
  administrative API; on any other database, or when the listing fails, it changes nothing.
\<close>

theorem provision_owner_spec:
  assumes ok: "store_ok d" and key: "k \<noteq> []"
  shows "(users d \<noteq> [] \<longrightarrow> provision_owner None AllRows None now k d = d)
     \<and> provision_owner (Some e) re cf now k d = d
     \<and> (users d = [] \<longrightarrow> (\<exists>u d'. provision_owner None AllRows None now k d = d' \<and> store_ok d'
          \<and> ListUsers None AllRows d' = Inr [u] \<and> Role u = ''owner'' \<and> APIKey u = k
          \<and> (h \<noteq> [] \<longrightarrow> (\<exists>x d2. Authenticate None [] (\<lambda>_. None) now ''epn_owner_key_default'' h d' = (Inr x, d2)))
          \<and> serve env \<lparr>apiKey = k\<rparr> rq d' = (if XAPIKey rq = k then mux env \<lparr>apiKey = k\<rparr> rq ''owner'' d'
               else ((401, ErrorBody ''Unauthorized''), d'))))"
proof (intro conjI impI)
  show "users d \<noteq> [] \<Longrightarrow> provision_owner None AllRows None now k d = d"
    by (cases "users d") (simp_all add: provision_owner_def ListUsers_def store_simps)
  show "provision_owner (Some e) re cf now k d = d"
    by (simp add: provision_owner_def ListUsers_def store_simps)
  assume empty: "users d = []"
  let ?row = "\<lparr>uid = users_seq d + 1, username = ''default_owner'', access_key = ''epn_owner_key_default'',
    api_key = Some k, role = ''owner'', device_limit = 5, rate_limit = 0, created_at = now\<rparr>"
  let ?d = "d\<lparr>users := [?row], users_seq := users_seq d + 1\<rparr>"
  have d': "provision_owner None AllRows None now k d = ?d"
    using empty by (simp add: provision_owner_def ListUsers_def store_simps CreateUser_def valid_role_def Let_def)
  have ok': "store_ok ?d"
    using store_ok_CreateUser [OF ok, of None now "''default_owner''" "''epn_owner_key_default''" k "''owner''" 5 0]
      empty by (simp add: CreateUser_def valid_role_def Let_def)
  have auth: "\<exists>x d2. Authenticate None [] (\<lambda>_. None) now ''epn_owner_key_default'' h ?d = (Inr x, d2)" if "h \<noteq> []"
    by (rule first_owner_authenticates [OF ok _ _ _ _ _ ok', of ?row]) (use that in \<open>simp_all add: effective_limit_def\<close>)
  have srv: "serve env \<lparr>apiKey = k\<rparr> rq ?d = (if XAPIKey rq = k then mux env \<lparr>apiKey = k\<rparr> rq ''owner'' ?d
               else ((401, ErrorBody ''Unauthorized''), ?d))"
    using key by (auto simp: serve_def authMiddleware_def GetUserByAPIKey_def stmt_def split: option.split)
  show "\<exists>u d'. provision_owner None AllRows None now k d = d' \<and> store_ok d'
          \<and> ListUsers None AllRows d' = Inr [u] \<and> Role u = ''owner'' \<and> APIKey u = k
          \<and> (h \<noteq> [] \<longrightarrow> (\<exists>x d2. Authenticate None [] (\<lambda>_. None) now ''epn_owner_key_default'' h d' = (Inr x, d2)))
          \<and> serve env \<lparr>apiKey = k\<rparr> rq d' = (if XAPIKey rq = k then mux env \<lparr>apiKey = k\<rparr> rq ''owner'' d'
               else ((401, ErrorBody ''Unauthorized''), d'))"
    by (intro exI [of _ "scan_user ?row"] exI [of _ ?d] conjI d' ok' srv impI auth)
       (simp_all add: ListUsers_def store_simps)
qed

theorem provision_owner_spec_witness:
  "\<exists>u d'. provision_owner None AllRows None 7 ''tok'' empty_db = d' \<and> ListUsers None AllRows d' = Inr [u]
     \<and> (\<exists>x d2. Authenticate None [] (\<lambda>_. None) 7 ''epn_owner_key_default'' ''dev1'' d' = (Inr x, d2))"
  using provision_owner_spec [OF store_ok_empty, where k = "''tok''" and h = "''dev1''" and now = 7
      and e = "Driver []" and re = AllRows and cf = None and env = sample_env and rq = "wipe_rq ''tok''"]
  by (auto simp: empty_db_def)

end
