(* ===== verification/Server_Lifecycle.thy ===== *)
theory Server_Lifecycle
  imports Server_Boot
begin

section \<open>The life of the server process (server/cmd/main.go, server/daemon/daemon.go)\<close>

text \<open>
  \<open>Start\<close> binds the sockets of the control and the data plane and starts the loops, \<open>Close\<close>
  gives everything back, and \<open>main\<close> puts the components together. What the kernel and QUIC
  answer is in a record. A host is the set of open sockets and listeners of the process;
  \<open>log.Fatalf\<close> leaves \<open>main\<close> without its deferred calls.
\<close>

subsection \<open>Start, Addr and Close\<close>

record host =
  sockets :: "nat list"
  listeners :: "nat list"
  next_sock :: nat

record server_conns =
  raw_conn :: "nat option"
  quic_listener :: "nat option"
  data_conn :: "nat option"

definition no_conns :: server_conns where
  "no_conns = \<lparr>raw_conn = None, quic_listener = None, data_conn = None\<rparr>"

datatype start_err =
    ResolveFailed string | ListenFailed string | QuicFailed string | DataResolveFailed string | DataListenFailed string

datatype server_loop = AcceptLoop | DataReadLoop | TunReadLoop

record start_env =
  se_resolve :: "string option"
  se_listen :: "string option"
  se_quic :: "string option"
  se_data_resolve :: "string option"
  se_data_listen :: "string + int"

definition open_socket :: "host \<Rightarrow> nat \<times> host" where
  "open_socket h = (next_sock h, h\<lparr>sockets := next_sock h # sockets h, next_sock := Suc (next_sock h)\<rparr>)"

definition open_listener :: "host \<Rightarrow> nat \<times> host" where
  "open_listener h = (next_sock h, h\<lparr>listeners := next_sock h # listeners h, next_sock := Suc (next_sock h)\<rparr>)"

definition close_socket :: "nat \<Rightarrow> host \<Rightarrow> host" where
  "close_socket i h = h\<lparr>sockets := removeAll i (sockets h)\<rparr>"

definition close_listener :: "nat \<Rightarrow> host \<Rightarrow> host" where
  "close_listener i h = h\<lparr>listeners := removeAll i (listeners h)\<rparr>"

text \<open>
  The result of \<open>Start\<close> (the loops it started), the connections and the data port in the
  server's fields, and the host. A failed QUIC listener closes the socket and leaves it in the
  field; the failures after it close nothing.
\<close>

definition StartServer ::
  "start_env \<Rightarrow> bool \<Rightarrow> server_conns \<Rightarrow> int \<Rightarrow> host \<Rightarrow> (start_err + server_loop list) \<times> server_conns \<times> int \<times> host" where
  "StartServer ev has_tun cs port h =
     (case se_resolve ev of
        Some e \<Rightarrow> (Inl (ResolveFailed e), cs, port, h)
      | None \<Rightarrow>
          (case se_listen ev of
             Some e \<Rightarrow> (Inl (ListenFailed e), cs, port, h)
           | None \<Rightarrow>
               let (raw, h) = open_socket h; cs = cs\<lparr>raw_conn := Some raw\<rparr> in
               (case se_quic ev of
                  Some e \<Rightarrow> (Inl (QuicFailed e), cs, port, close_socket raw h)
                | None \<Rightarrow>
                    let (l, h) = open_listener h; cs = cs\<lparr>quic_listener := Some l\<rparr> in
                    (case se_data_resolve ev of
                       Some e \<Rightarrow> (Inl (DataResolveFailed e), cs, port, h)
                     | None \<Rightarrow>
                         (case se_data_listen ev of
                            Inl e \<Rightarrow> (Inl (DataListenFailed e), cs, port, h)
                          | Inr p \<Rightarrow>
                              let (d, h) = open_socket h
                              in (Inr ([AcceptLoop, DataReadLoop] @ (if has_tun then [TunReadLoop] else [])),
                                  cs\<lparr>data_conn := Some d\<rparr>, p, h))))))"

definition Addr :: "(nat \<Rightarrow> string) \<Rightarrow> server_conns \<Rightarrow> string option" where
  "Addr local_addr cs = map_option local_addr (raw_conn cs)"

text \<open>What the four \<open>Close\<close> calls return; the first error is the result.\<close>

record close_env =
  ce_tun :: "string option"
  ce_listener :: "string option"
  ce_data :: "string option"
  ce_raw :: "string option"

definition first_err :: "string option \<Rightarrow> string option \<Rightarrow> string option" where
  "first_err firstErr err = (if firstErr = None then err else firstErr)"

definition close_present :: "nat option \<Rightarrow> (nat \<Rightarrow> host \<Rightarrow> host) \<Rightarrow> string option \<Rightarrow> string option \<times> host \<Rightarrow> string option \<times> host" where
  "close_present r close_fn err st =
     (case r of None \<Rightarrow> st | Some i \<Rightarrow> (first_err (fst st) err, close_fn i (snd st)))"

definition CloseConns :: "close_env \<Rightarrow> bool \<Rightarrow> server_conns \<Rightarrow> host \<Rightarrow> string option \<times> host" where
  "CloseConns ev has_tun cs h =
     close_present (raw_conn cs) close_socket (ce_raw ev)
       (close_present (data_conn cs) close_socket (ce_data ev)
         (close_present (quic_listener cs) close_listener (ce_listener ev)
           (if has_tun then ce_tun ev else None, h)))"

text \<open>\<open>NewVPNServerForTest\<close>: no device, no rules, data port 0; \<open>SetTUN\<close> injects a device.\<close>

definition NewVPNServerForTest :: "'w platform \<Rightarrow> db \<Rightarrow> bytes \<Rightarrow> (server_err, VPNServer \<times> aead) outcome" where
  "NewVPNServerForTest pf store k =
     (case NewObfuscator (crypto pf) k of
        Panic \<Rightarrow> Panic
      | Err e \<Rightarrow> Err (ObfuscatorFailed e)
      | Ok obf \<Rightarrow>
          (case NewIPPool (parse6 pf) (numCPU pf) (meminfo pf) ''10.8.0.0/16'' 0 of
             Panic \<Rightarrow> Panic
           | Err e \<Rightarrow> Err (PoolFailed e)
           | Ok pool \<Rightarrow> Ok (fresh_server store pool 0, obf)))"

subsection \<open>main\<close>

record 'w main_env =
  me_lookup :: "string \<Rightarrow> string option"
  me_store_fault :: "nat \<Rightarrow> db_err option"
  me_file :: "db option"
  me_list_fault :: "db_err option"
  me_rows :: row_end
  me_create_fault :: "db_err option"
  me_now :: int
  me_cert_err :: "string option"
  me_platform :: "'w platform"
  me_start :: start_env
  me_api_crash :: "string option"
  me_close :: close_env

datatype main_end =
    BadPSK | StoreFailed db_err | CertFailed string | DaemonFailed server_err | DaemonPanicked
  | StartFailed start_err | ApiCrashed string | Terminated

definition daemon_config :: "main_config \<Rightarrow> db \<Rightarrow> ServerConfig" where
  "daemon_config mc d =
     \<lparr>cfg_Store = d, PSK = psk mc, TUNName = tunNameCfg mc, SubnetText = subnetCfg mc, MaxClients = maxClients mc,
      EnableNAT = enableNAT mc, OutIface = outIface mc, cfg_DataPort = mc_dataPort mc\<rparr>"

text \<open>
  How the process ends, the machine, the host and, if the daemon was created, the server. With
  \<open>me_api_crash\<close> the API server ends before a signal comes. On a signal \<open>Close\<close> runs once in
  \<open>main\<close> and once more as a deferred call.
\<close>

definition server_main ::
  "'w main_env \<Rightarrow> 'w machine \<Rightarrow> host \<Rightarrow> main_end \<times> 'w machine \<times> host \<times> vpn_server option" where
  "server_main ev m h =
     (case read_config (me_lookup ev) of
        None \<Rightarrow> (BadPSK, m, h, None)
      | Some mc \<Rightarrow>
          (case NewStore (me_store_fault ev) (me_file ev) of
             Inl e \<Rightarrow> (StoreFailed e, m, h, None)
           | Inr d \<Rightarrow>
               let d = provision_owner (me_list_fault ev) (me_rows ev) (me_create_fault ev) (me_now ev) (adminKey mc) d in
               (case me_cert_err ev of
                  Some e \<Rightarrow> (CertFailed e, m, h, None)
                | None \<Rightarrow>
                    (case NewVPNServer (me_platform ev) (daemon_config mc d) m of
                       (Panic, m) \<Rightarrow> (DaemonPanicked, m, h, None)
                     | (Err e, m) \<Rightarrow> (DaemonFailed e, m, h, None)
                     | (Ok srv, m) \<Rightarrow>
                         let (r, cs, port, h) = StartServer (me_start ev) True no_conns (cfg_DataPort (daemon_config mc d)) h in
                         (case r of
                            Inl e \<Rightarrow> (StartFailed e, m, h, Some srv)
                          | Inr loops \<Rightarrow>
                              (case me_api_crash ev of
                                 Some e \<Rightarrow> (ApiCrashed e, m, h, Some srv)
                               | None \<Rightarrow>
                                   let m = CloseServer (me_platform ev) srv m;
                                       h = snd (CloseConns (me_close ev) True cs h);
                                       m = CloseServer (me_platform ev) srv m;
                                       h = snd (CloseConns (me_close ev) True cs h)
                                   in (Terminated, m, h, Some srv)))))))"

subsection \<open>What Start opens Close closes\<close>

definition host_ok :: "host \<Rightarrow> bool" where
  "host_ok h \<longleftrightarrow> (\<forall>i \<in> set (sockets h) \<union> set (listeners h). i < next_sock h)"

lemma host_ok_fresh:
  assumes "host_ok h" and "next_sock h \<le> i"
  shows "i \<notin> set (sockets h)" and "i \<notin> set (listeners h)"
  using assms unfolding host_ok_def by (meson UnI1 UnI2 leD)+

lemmas conn_simps =
  StartServer_def open_socket_def open_listener_def close_socket_def close_listener_def no_conns_def Let_def

lemma CloseConns_host:
  "sockets (snd (CloseConns ce t cs h))
     = filter (\<lambda>i. raw_conn cs \<noteq> Some i \<and> data_conn cs \<noteq> Some i) (sockets h)"
  "listeners (snd (CloseConns ce t cs h)) = filter (\<lambda>i. quic_listener cs \<noteq> Some i) (listeners h)"
  by (cases "raw_conn cs"; cases "data_conn cs"; cases "quic_listener cs";
      auto simp: CloseConns_def close_present_def close_socket_def close_listener_def removeAll_filter_not_eq
        intro!: filter_cong)+

text \<open>
  C24: \<open>Start\<close> and \<open>Close\<close> balance. A successful \<open>Start\<close> opens two sockets and one listener, takes
  the data port it was given by the kernel and starts the three loops, the device's only if
  there is a device; a failed one starts none. If the control plane cannot be set up nothing
  stays open; if the data plane cannot, the socket and the listener of the control plane stay
  open until \<open>Close\<close>. After \<open>Close\<close>, called once or more often and whatever it returns, the host
  has exactly what was open before \<open>Start\<close>.
\<close>

theorem start_close_balanced:
  assumes h: "host_ok h" and run: "StartServer ev t no_conns port h = (r, cs, port', h')"
  shows "(case r of
        Inr loops \<Rightarrow> length (sockets h') = length (sockets h) + 2 \<and> length (listeners h') = length (listeners h) + 1
          \<and> se_data_listen ev = Inr port' \<and> set loops = {AcceptLoop, DataReadLoop} \<union> (if t then {TunReadLoop} else {})
      | Inl e \<Rightarrow> port' = port \<and> (if \<exists>m. e = DataResolveFailed m \<or> e = DataListenFailed m
          then length (sockets h') = length (sockets h) + 1 \<and> length (listeners h') = length (listeners h) + 1
          else sockets h' = sockets h \<and> listeners h' = listeners h))
     \<and> (let h1 = snd (CloseConns ce t cs h'); h2 = snd (CloseConns ce' t cs h1)
        in sockets h1 = sockets h \<and> listeners h1 = listeners h \<and> sockets h2 = sockets h \<and> listeners h2 = listeners h)"
  using run host_ok_fresh [OF h]
  by (auto simp: conn_simps CloseConns_host Let_def removeAll_filter_not_eq filter_id_conv
      split: option.splits sum.splits)

theorem start_close_balanced_witness:
  "\<exists>cs h. StartServer \<lparr>se_resolve = None, se_listen = None, se_quic = None, se_data_resolve = None,
        se_data_listen = Inl ''address already in use''\<rparr> True no_conns 51821 \<lparr>sockets = [3], listeners = [], next_sock = 4\<rparr>
        = (Inl (DataListenFailed ''address already in use''), cs, 51821, h)
     \<and> length (sockets h) = 2
     \<and> sockets (snd (CloseConns \<lparr>ce_tun = None, ce_listener = None, ce_data = None, ce_raw = None\<rparr> True cs h)) = [3]"
proof -
  let ?ev = "\<lparr>se_resolve = None, se_listen = None, se_quic = None, se_data_resolve = None,
        se_data_listen = Inl ''address already in use''\<rparr>"
  let ?ce = "\<lparr>ce_tun = None, ce_listener = None, ce_data = None, ce_raw = None\<rparr>"
  obtain cs h where run: "StartServer ?ev True no_conns 51821 \<lparr>sockets = [3], listeners = [], next_sock = 4\<rparr>
      = (Inl (DataListenFailed ''address already in use''), cs, 51821, h)"
    by (simp add: conn_simps)
  have "host_ok \<lparr>sockets = [3], listeners = [], next_sock = 4\<rparr>" by (simp add: host_ok_def)
  from start_close_balanced [OF this run, of ?ce ?ce] run show ?thesis by (auto simp: Let_def)
qed

subsection \<open>The rules the process leaves\<close>

lemma CloseServer_rules:
  assumes "natEnabled srv" and "SubnetCIDR (ipPool (state srv)) \<noteq> ''-A''" and "natIface srv \<noteq> ''-A''"
    and "tunDev srv \<noteq> ''-A''"
    and "iptables_ok (exec_cmd pf) rules (tl (setup_cmds (SubnetCIDR (ipPool (state srv))) (natIface srv) (tunDev srv)))"
  shows "rules (filter_state (CloseServer pf srv m)) = rules (filter_state m)
      - mset (tl (setup_cmds (SubnetCIDR (ipPool (state srv))) (natIface srv) (tunDev srv)))"
    and "open_tuns (CloseServer pf srv m) = remove1 (tunDev srv) (open_tuns m)"
  using cleanup_removes [OF assms(2-5)] assms(1) by (simp_all add: CloseServer_def close_tun_def)

lemma NewVPNServer_rules:
  assumes "NewVPNServer pf cfg m = (Ok srv, m')" and "natEnabled srv"
    and "iptables_ok (exec_cmd pf) rules (tl (setup_cmds (SubnetCIDR (ipPool (state srv))) (natIface srv) (tunDev srv)))"
  shows "rules (filter_state m') = rules (filter_state m)
      + mset (tl (setup_cmds (SubnetCIDR (ipPool (state srv))) (natIface srv) (tunDev srv)))"
    and "open_tuns m' = tunDev srv # open_tuns m"
proof -
  obtain pool where s: "state srv = fresh_server (cfg_Store cfg) pool (cfg_DataPort cfg)"
    and nat: "setupNAT (exec_cmd pf) (ip_route pf) (OutIface cfg) (SubnetCIDR pool) (tunDev srv) (filter_state m)
                = (None, natIface srv, filter_state m')"
    and t: "open_tuns m' = tunDev srv # open_tuns m"
    by (rule NewVPNServer_Ok [OF assms(1)]) (use assms(2) in auto)
  then have "ipPool (state srv) = pool" by (simp add: fresh_server_def)
  with setup_success_adds [OF nat] assms(3) t
  show "rules (filter_state m') = rules (filter_state m)
      + mset (tl (setup_cmds (SubnetCIDR (ipPool (state srv))) (natIface srv) (tunDev srv)))"
    and "open_tuns m' = tunDev srv # open_tuns m" by simp_all
qed

text \<open>How the process ends once it has a server: only a signal runs \<open>Close\<close>, and runs it twice.\<close>

lemma server_main_ends:
  assumes "server_main ev m h = (e, m', h', Some srv)"
  obtains cfg m1 where "NewVPNServer (me_platform ev) cfg m = (Ok srv, m1)"
    and "if e = Terminated then m' = CloseServer (me_platform ev) srv (CloseServer (me_platform ev) srv m1)
         else m' = m1 \<and> ((\<exists>x. e = StartFailed x) \<or> (\<exists>x. e = ApiCrashed x))"
  using assms
  by (auto simp: server_main_def Let_def split: option.splits sum.splits prod.splits outcome.splits)

text \<open>
  C23: What a run of the server leaves in the packet filter. A run that gets as far as creating the
  daemon with NAT adds its three rules. If it then ends by \<open>log.Fatalf\<close>, because \<open>Start\<close> fails or
  the API server crashes, no deferred \<open>Close\<close> runs and the rules stay. If it ends by a signal,
  \<open>Close\<close> runs twice and the device is closed; the second cleanup deletes one more copy of each
  rule, so a rule of the same text that was in force before the start is gone as well.
\<close>

theorem server_main_rules:
  assumes run: "server_main ev m h = (e, m', h', Some srv)" and nat: "natEnabled srv"
    and names: "SubnetCIDR (ipPool (state srv)) \<noteq> ''-A''" "natIface srv \<noteq> ''-A''" "tunDev srv \<noteq> ''-A''"
    and ipt: "iptables_ok (exec_cmd (me_platform ev)) rules
        (tl (setup_cmds (SubnetCIDR (ipPool (state srv))) (natIface srv) (tunDev srv)))"
    and new: "tunDev srv \<notin> set (open_tuns m)"
  shows "let adds = mset (tl (setup_cmds (SubnetCIDR (ipPool (state srv))) (natIface srv) (tunDev srv)))
     in (if e = Terminated then rules (filter_state m') = rules (filter_state m) - adds \<and> open_tuns m' = open_tuns m
         else rules (filter_state m') = rules (filter_state m) + adds
            \<and> ((\<exists>x. e = StartFailed x) \<or> (\<exists>x. e = ApiCrashed x)))
        \<and> size adds = 3"
proof -
  obtain cfg m1 where mk: "NewVPNServer (me_platform ev) cfg m = (Ok srv, m1)"
    and en: "if e = Terminated then m' = CloseServer (me_platform ev) srv (CloseServer (me_platform ev) srv m1)
         else m' = m1 \<and> ((\<exists>x. e = StartFailed x) \<or> (\<exists>x. e = ApiCrashed x))"
    by (rule server_main_ends [OF run])
  note close = CloseServer_rules [OF nat names ipt]
  have "size (mset (tl (setup_cmds (SubnetCIDR (ipPool (state srv))) (natIface srv) (tunDev srv)))) = 3"
    by (simp add: setup_cmds_def)
  moreover have "remove1 (tunDev srv) (open_tuns m) = open_tuns m" by (rule remove1_idem [OF new])
  ultimately show ?thesis
    using en NewVPNServer_rules [OF mk nat ipt] close by (auto simp: Let_def)
qed

definition sample_lookup :: "string \<Rightarrow> string option" where
  "sample_lookup k = (if k = ''OUT_IFACE'' then Some ''eth0'' else if k = ''MAX_CLIENTS'' then Some ''3''
     else if k = ''VPN_DATA_PORT'' then Some ''auto'' else None)"

definition sample_main :: "command multiset main_env" where
  "sample_main = \<lparr>me_lookup = sample_lookup, me_store_fault = (\<lambda>_. None), me_file = None, me_list_fault = None,
     me_rows = AllRows, me_create_fault = None, me_now = 7, me_cert_err = None, me_platform = sample_platform,
     me_start = \<lparr>se_resolve = None, se_listen = None, se_quic = None, se_data_resolve = None,
       se_data_listen = Inl ''address already in use''\<rparr>,
     me_api_crash = None, me_close = \<lparr>ce_tun = None, ce_listener = None, ce_data = None, ce_raw = None\<rparr>\<rparr>"

lemma sample_read_config:
  "\<exists>mc. read_config sample_lookup = Some mc \<and> length (psk mc) = 32 \<and> tunNameCfg mc = ''vpn8-tun0''
     \<and> subnetCfg mc = ''10.8.0.0/16'' \<and> outIface mc = ''eth0'' \<and> enableNAT mc \<and> maxClients mc = 3"
proof -
  have "hex_decode ''43484f4f53455f415f5345435552455f50534b5f4b45595f544f5f5553455f38''
      = Some [0x43, 0x48, 0x4f, 0x4f, 0x53, 0x45, 0x5f, 0x41, 0x5f, 0x53, 0x45, 0x43, 0x55, 0x52, 0x45, 0x5f,
              0x50, 0x53, 0x4b, 0x5f, 0x4b, 0x45, 0x59, 0x5f, 0x54, 0x4f, 0x5f, 0x55, 0x53, 0x45, 0x5f, 0x38]"
    by code_simp
  moreover have "ParseInt64 ''3'' = Some 3" "ParseInt64 ''auto'' = None" by code_simp+
  ultimately show ?thesis
    by (simp add: read_config_def getEnv_def getEnvBool_def sample_lookup_def del: hex_decode.simps)
qed

lemma sample_main_run:
  "\<exists>m' h' srv. server_main sample_main \<lparr>filter_state = {#}, open_tuns = []\<rparr> \<lparr>sockets = [], listeners = [], next_sock = 0\<rparr>
      = (StartFailed (DataListenFailed ''address already in use''), m', h', Some srv)
    \<and> natEnabled srv \<and> SubnetCIDR (ipPool (state srv)) = ''10.8.0.0/16'' \<and> natIface srv = ''eth0''
    \<and> tunDev srv = ''vpn8-tun0''"
proof -
  obtain mc where mc: "read_config sample_lookup = Some mc" "length (psk mc) = 32" "tunNameCfg mc = ''vpn8-tun0''"
    "subnetCfg mc = ''10.8.0.0/16''" "outIface mc = ''eth0''" "enableNAT mc" "maxClients mc = 3"
    using sample_read_config by blast
  have pool: "NewIPPool (\<lambda>_. None) 4 None ''10.8.0.0/16'' 3 = Ok sample_pool" by code_simp
  have cidr: "SubnetCIDR sample_pool = ''10.8.0.0/16''" by code_simp
  obtain ones bits where ms: "mask_size (net_mask (subnetNet sample_pool)) = (ones, bits)" by fastforce
  have ob: "NewObfuscator sample_crypto (psk mc) = Ok clear_aead"
    using mc(2) by (simp add: NewObfuscator_def sample_crypto_def)
  show ?thesis
    by (simp add: server_main_def sample_main_def mc daemon_config_def NewVPNServer_def sample_platform_def ob pool Let_def
        ms setupNAT_def setup_cmds_def sample_exec_def fresh_server_def conn_simps NewStore_def stmt_def cidr)
qed

theorem server_main_rules_witness:
  "\<exists>m' h' srv. server_main sample_main \<lparr>filter_state = {#}, open_tuns = []\<rparr> \<lparr>sockets = [], listeners = [], next_sock = 0\<rparr>
      = (StartFailed (DataListenFailed ''address already in use''), m', h', Some srv)
    \<and> size (filter_state m') = 3"
proof -
  obtain m' h' srv where run: "server_main sample_main \<lparr>filter_state = {#}, open_tuns = []\<rparr>
        \<lparr>sockets = [], listeners = [], next_sock = 0\<rparr>
      = (StartFailed (DataListenFailed ''address already in use''), m', h', Some srv)"
    and s: "natEnabled srv" "SubnetCIDR (ipPool (state srv)) = ''10.8.0.0/16''" "natIface srv = ''eth0''"
      "tunDev srv = ''vpn8-tun0''"
    using sample_main_run by blast
  have ipt: "iptables_ok (exec_cmd (me_platform sample_main)) id
      (tl (setup_cmds (SubnetCIDR (ipPool (state srv))) (natIface srv) (tunDev srv)))"
    by (simp add: s sample_main_def sample_platform_def iptables_ok_def sample_exec_def setup_cmds_def deletion_def)
  from server_main_rules [OF run s(1) _ _ _ ipt] s run show ?thesis by (auto simp: Let_def)
qed

end
