(* ===== verification/E2E_Test.thy ===== *)
theory E2E_Test
  imports Client_Apps Server_Lifecycle
begin

section \<open>The end-to-end test program (client/cmd/mock_test/main.go)\<close>

text \<open>
  The program of the repository that runs the whole system in one process: a store with one
  account, a server with a mock device, a client with another, a packet pushed into the
  client's device and awaited at the server's. During the second it waits, the goroutines of
  the client make any of their steps. A packet of the client's mock device can travel only if a
  relay loop reads that device, which needs a data socket and the device in the client's field.
\<close>

datatype mock_result =
    NoStore db_err | NoUser db_err | NoServer server_err | ServerPanicked | NoListen start_err
  | NoSecond | WrongMode string | InjectPanicked | InjectWaits | NotReceived | WrongLength nat | Succeeded

definition mock_psk :: bytes where
  "mock_psk = map of_char ''secret_key_client_test_psk_12345''"

definition testPkt :: bytes where
  "testPkt = [0x45, 0, 0, 0x20, 0, 0, 0, 0, 0x40, 0x11, 0, 0, 0x0a, 8, 0, 2, 8, 8, 8, 8]
     @ replicate 12 0"

text \<open>The client with the mock device, which gets the number 0, before it is started.\<close>

definition mock_client :: "crypto_env \<Rightarrow> (string \<Rightarrow> bytes option) \<Rightarrow> string \<Rightarrow> client_sys" where
  "mock_client ce p6 srvAddr =
     the (client_step ce p6 SetTunV (new_sys (NewVPNClient srvAddr ''test_client_secret_key'' ''mock_device_id'' mock_psk)))"

definition relay_reads :: "client_sys \<Rightarrow> bool" where
  "relay_reads s \<longleftrightarrow> dataConn (fst (engine s)) \<noteq> None \<and> cl_tunDev (fst (engine s)) = Some 0"

text \<open>
  \<open>es\<close> are the client's steps during the second of waiting; the rest of the second it is
  given for delivery, the packet travels through \<open>path\<close>, what the two relay loops and the
  network make of it.
\<close>

definition mock_main ::
  "'w platform \<Rightarrow> (nat \<Rightarrow> db_err option) \<Rightarrow> db_err option \<Rightarrow> int \<Rightarrow> start_env \<Rightarrow> string \<Rightarrow> client_event list
     \<Rightarrow> (bytes \<Rightarrow> bytes option) \<Rightarrow> mock_result" where
  "mock_main pf sfault cfault now start srvAddr es path =
     (case NewStore sfault None of
        Inl e \<Rightarrow> NoStore e
      | Inr d \<Rightarrow>
          (case CreateUser cfault now ''test_client_user'' ''test_client_secret_key'' ''api_key_for_test'' ''user'' 2 0 d of
             (Inl e, d) \<Rightarrow> NoUser e
           | (Inr u, d) \<Rightarrow>
               (case NewVPNServerForTest pf d mock_psk of
                  Panic \<Rightarrow> ServerPanicked
                | Err e \<Rightarrow> NoServer e
                | Ok srv \<Rightarrow>
                    (case StartServer start True no_conns 0 \<lparr>sockets = [], listeners = [], next_sock = 0\<rparr> of
                       (Inl e, _) \<Rightarrow> NoListen e
                     | (Inr loops, _) \<Rightarrow>
                         (case client_run (crypto pf) (parse6 pf) (StartV # es)
                                 (mock_client (crypto pf) (parse6 pf) srvAddr) of
                            None \<Rightarrow> NoSecond
                          | Some s \<Rightarrow>
                              if activeMode (fst (engine s)) \<noteq> ''UDP'' then WrongMode (activeMode (fst (engine s)))
                              else
                                let clientTun = newMockTUN ''vpn-client-tun'';
                                    clientTun = (if 0 \<in> set (tun_open (snd (engine s))) then clientTun
                                                 else Close_mock clientTun)
                                in (case inject_mock testPkt clientTun of
                                      (Done (Ok _), clientTun) \<Rightarrow>
                                        (case (if relay_reads s then path testPkt else None) of
                                           None \<Rightarrow> NotReceived
                                         | Some received \<Rightarrow>
                                             if length received = length testPkt then Succeeded
                                             else WrongLength (length received))
                                    | (Done _, _) \<Rightarrow> InjectPanicked
                                    | (Waits, _) \<Rightarrow> InjectWaits))))))"

subsection \<open>The injected device is never read\<close>

text \<open>Before its first device is closed a client has no data socket, and no watcher beyond \<open>setupTUN\<close>'s first half.\<close>

fun before_close :: "wphase \<Rightarrow> bool" where
  "before_close (TunCreating q resp) = False"
| "before_close (DataOpening q) = False"
| "before_close (Waiting q) = False"
| "before_close _ = True"

definition first_unread :: "client_sys \<Rightarrow> bool" where
  "first_unread s \<longleftrightarrow> 0 < next_id (snd (engine s)) \<and> (cl_tunDev (fst (engine s)) \<noteq> Some 0
     \<or> dataConn (fst (engine s)) = None \<and> (\<forall>w ph. watchers s w = Some ph \<longrightarrow> before_close ph))"

lemma dataConn_stages [simp]:
  "dataConn (fst (drop_quic q st)) = dataConn (fst st)" "dataConn (fst (show_tcp st)) = dataConn (fst st)"
  "dataConn (fst (keep_response resp st)) = dataConn (fst st)" "dataConn (fst (close_device st)) = dataConn (fst st)"
  "dataConn (fst (open_device st)) = dataConn (fst st)" "dataConn (fst (snd (keep_quic st))) = dataConn (fst st)"
  "dataConn (fst (Stop st)) = None"
  by (simp_all add: stage_defs show_tcp_def Stop_def cleanup_def split_beta Let_def)

lemma first_unread_step:
  assumes "client_step ce p6 e s = Some s'" and "first_unread s" and "e \<noteq> SetTunV"
  shows "first_unread s'"
proof (cases "cl_tunDev (fst (engine s)) = Some 0")
  case False
  then have "lost_first s" using assms(2) by (simp add: lost_first_def first_unread_def)
  from lost_first_step [OF assms(1) this] show ?thesis by (simp add: lost_first_def first_unread_def)
next
  case True
  then have d: "dataConn (fst (engine s)) = None" and w: "\<And>w ph. watchers s w = Some ph \<Longrightarrow> before_close ph"
    and n: "0 < next_id (snd (engine s))"
    using assms(2) by (auto simp: first_unread_def)
  have none: "watchers s w \<noteq> Some (TunCreating q resp)" "watchers s w \<noteq> Some (DataOpening q)"
    "watchers s w \<noteq> Some (Waiting q)" for w q resp
    using w by fastforce+
  show ?thesis
    using assms(1,3) d n none w
    by (cases e) (auto simp: first_unread_def go_to_def Let_def split_beta Start_def
        split: if_splits option.splits wphase.splits sum.splits)
qed

lemma first_unread_run:
  "client_run ce p6 es s = Some s' \<Longrightarrow> first_unread s \<Longrightarrow> SetTunV \<notin> set es \<Longrightarrow> first_unread s'"
  by (induction es arbitrary: s) (auto split: option.splits dest: first_unread_step)

lemma mock_client_unread: "first_unread (mock_client ce p6 addr)"
  by (simp add: mock_client_def first_unread_def new_sys_def NewVPNClient_def SetCustomTUN_def)

text \<open>
  The end-to-end test of the repository cannot succeed. Whatever the store, the kernel, the
  network and the steps of the client during the wait, even with a handshake that works and a
  path that delivers every packet, the packet pushed into the client's mock device does not
  arrive: before the client has connected nobody reads that device, and connecting closes it.
\<close>

theorem e2e_test_fails:
  assumes "SetTunV \<notin> set es"
  shows "mock_main pf sfault cfault now start addr es path \<noteq> Succeeded"
proof -
  have "\<not> relay_reads s"
    if "client_run (crypto pf) (parse6 pf) (StartV # es) (mock_client (crypto pf) (parse6 pf) addr) = Some s" for s
    using first_unread_run [OF that mock_client_unread] assms by (auto simp: relay_reads_def first_unread_def)
  then show ?thesis
    by (auto simp: mock_main_def Let_def simp del: client_run.simps
        split: sum.splits prod.splits outcome.splits option.splits if_splits call.splits)
qed

theorem e2e_test_fails_witness:
  "mock_main sample_platform (\<lambda>_. None) None 7
     \<lparr>se_resolve = None, se_listen = None, se_quic = None, se_data_resolve = None, se_data_listen = Inr 40000\<rparr>
     ''127.0.0.1:40001'' [TopV 0, DialV 0 None] Some \<noteq> Succeeded"
  by (rule e2e_test_fails) simp

end
