(* ===== verification/Tls_Helpers.thy ===== *)
theory Tls_Helpers
  imports VPN_Prelude
begin

section \<open>Certificates and the Chrome dialler (shared/cert.go, client/go_core/tls.go)\<close>

text \<open>
  Two helpers around cryptographic libraries: what the libraries compute is an argument, the
  order of the calls, the errors and the template of the certificate are the code's. Times are
  nanoseconds.
\<close>

subsection \<open>GenerateTempCertificate\<close>

record cert_template =
  SerialNumber :: int
  Organization :: "string list"
  NotBefore :: int
  NotAfter :: int
  KeyUsage :: "string list"
  ExtKeyUsage :: "string list"
  BasicConstraintsValid :: bool

record ('k, 'c) cert_library =
  generate_key :: "string + 'k"
  create_certificate :: "cert_template \<Rightarrow> 'k \<Rightarrow> string + bytes"
  marshal_key :: "'k \<Rightarrow> string + bytes"
  encode_pem :: "string \<Rightarrow> bytes \<Rightarrow> bytes"
  key_pair :: "bytes \<Rightarrow> bytes \<Rightarrow> string + 'c"

definition hour :: int where
  "hour = 3600 * 10 ^ 9"

text \<open>\<open>time.Now\<close> is read three times.\<close>

definition temp_template :: "int \<Rightarrow> int \<Rightarrow> int \<Rightarrow> cert_template" where
  "temp_template now1 now2 now3 =
     \<lparr>SerialNumber = now1, Organization = [''VPN 8 Security''], NotBefore = now2 - 24 * hour,
      NotAfter = now3 + 365 * 24 * hour, KeyUsage = [''KeyEncipherment'', ''DigitalSignature''],
      ExtKeyUsage = [''ServerAuth''], BasicConstraintsValid = True\<rparr>"

definition GenerateTempCertificate :: "('k, 'c) cert_library \<Rightarrow> int \<Rightarrow> int \<Rightarrow> int \<Rightarrow> string + 'c" where
  "GenerateTempCertificate lib now1 now2 now3 =
     (case generate_key lib of
        Inl e \<Rightarrow> Inl e
      | Inr key \<Rightarrow>
          (case create_certificate lib (temp_template now1 now2 now3) key of
             Inl e \<Rightarrow> Inl e
           | Inr der \<Rightarrow>
               let pemCert = encode_pem lib ''CERTIFICATE'' der in
               (case marshal_key lib key of
                  Inl e \<Rightarrow> Inl e
                | Inr priv \<Rightarrow> key_pair lib pemCert (encode_pem lib ''EC PRIVATE KEY'' priv))))"

definition valid_at :: "cert_template \<Rightarrow> int \<Rightarrow> bool" where
  "valid_at t now \<longleftrightarrow> NotBefore t \<le> now \<and> now \<le> NotAfter t"

text \<open>Valid from a day before its creation for a year after it, and no longer.\<close>

lemma temp_template_valid:
  assumes "now1 \<le> now2" and "now2 \<le> now3"
  shows "valid_at (temp_template now1 now2 now3) t \<longleftrightarrow> now2 - 24 * hour \<le> t \<and> t \<le> now3 + 365 * 24 * hour"
    and "valid_at (temp_template now1 now2 now3) now3"
  using assms by (auto simp: valid_at_def temp_template_def hour_def)

subsection \<open>DialChromeTLS\<close>

record dial_answers =
  da_dial :: "string + nat"
  da_deadline :: "string option"
  da_handshake :: "string option"

text \<open>The connection or the error, and the connections open afterwards.\<close>

definition DialChromeTLS :: "dial_answers \<Rightarrow> nat list \<Rightarrow> (string + nat) \<times> nat list" where
  "DialChromeTLS ans conns =
     (case da_dial ans of
        Inl e \<Rightarrow> (Inl e, conns)
      | Inr c \<Rightarrow>
          let conns = c # conns in
          (case da_deadline ans of
             Some e \<Rightarrow> (Inl e, remove1 c conns)
           | None \<Rightarrow>
               (case da_handshake ans of
                  Some e \<Rightarrow> (Inl e, remove1 c conns)
                | None \<Rightarrow> (Inr c, conns))))"

text \<open>No error leaves the connection open.\<close>

lemma DialChromeTLS_closes:
  "case DialChromeTLS ans conns of
     (Inl e, open_conns) \<Rightarrow> open_conns = conns
   | (Inr c, open_conns) \<Rightarrow> da_dial ans = Inr c \<and> open_conns = c # conns"
  by (auto simp: DialChromeTLS_def Let_def split: sum.split option.split)

end
