(* ===== verification/Client_Names.thy ===== *)
theory Client_Names
  imports Tun
begin

section \<open>The names the client draws (client/go_core/client.go)\<close>

text \<open>
  The server name of the TLS handshake and the name of the device are drawn at random; the
  draws of \<open>rand.Intn\<close> are arguments, below their bounds. On Linux the device name goes into
  the 16 bytes of the interface request.
\<close>

definition sniWhitelist :: "string list" where
  "sniWhitelist =
     [''www.microsoft.com'', ''updates.microsoft.com'', ''www.apple.com'', ''gateway.apple.com'', ''www.google.com'',
      ''clients3.google.com'', ''www.cloudflare.com'', ''api.stripe.com'', ''www.paypal.com'']"

definition selectRandomSNI :: "(nat \<Rightarrow> nat) \<Rightarrow> string option" where
  "selectRandomSNI intn =
     (let i = intn (length sniWhitelist) in if i < length sniWhitelist then Some (sniWhitelist ! i) else None)"

definition GenerateVirtualTUNName :: "nat \<Rightarrow> nat \<Rightarrow> nat \<Rightarrow> string" where
  "GenerateVirtualTUNName r num subnum =
     (let prefixes = [''utun'', ''tun''] in prefixes ! r @ format_nat num @ ''_virtual_'' @ format_nat subnum)"

definition draws_ok :: "nat \<Rightarrow> nat \<Rightarrow> nat \<Rightarrow> bool" where
  "draws_ok r num subnum \<longleftrightarrow> r < 2 \<and> num < 10 \<and> subnum < 100"

lemma length_format_nat_1: "n < 10 \<Longrightarrow> length (format_nat n) = 1"
  by (subst format_nat.simps) simp

lemma length_format_nat_2: "n < 100 \<Longrightarrow> length (format_nat n) = (if n < 10 then 1 else 2)"
  by (subst format_nat.simps) (simp add: length_format_nat_1)

lemma no_nul_format_nat: "CHR 0x00 \<notin> set (format_nat n)"
  using format_nat_digits [of "CHR 0x00" n] by (auto simp: is_digit_def)

lemma kernel_name_append: "CHR 0x00 \<notin> set xs \<Longrightarrow> kernel_name (xs @ ys) = xs @ kernel_name ys"
  by (induction xs) auto

lemma kernel_name_nuls: "kernel_name (replicate n (CHR 0x00)) = []"
  by (cases n) simp_all

text \<open>
  Every device name the client draws fits the interface request of Linux and is read back
  from it unchanged; the request is full, with no byte left for the terminating zero, exactly
  for the prefix \<open>utun\<close> with a two-digit number.
\<close>

theorem device_name_fits:
  assumes "draws_ok r num subnum"
  shows "length (ifreq_name (GenerateVirtualTUNName r num subnum)) = 16
     \<and> kernel_name (ifreq_name (GenerateVirtualTUNName r num subnum)) = GenerateVirtualTUNName r num subnum
     \<and> (CHR 0x00 \<notin> set (ifreq_name (GenerateVirtualTUNName r num subnum)) \<longleftrightarrow> r = 0 \<and> 10 \<le> subnum)"
proof -
  let ?nm = "GenerateVirtualTUNName r num subnum"
  have r: "r = 0 \<or> r = 1" and n: "num < 10" "subnum < 100" using assms by (auto simp: draws_ok_def)
  have len: "length ?nm = (if r = 0 then 14 else 13) + (if subnum < 10 then 1 else 2)"
    using r n by (auto simp: GenerateVirtualTUNName_def length_format_nat_1 length_format_nat_2)
  then have short: "length ?nm \<le> 16" by (simp split: if_splits)
  have nul: "CHR 0x00 \<notin> set ?nm"
    using r no_nul_format_nat by (auto simp: GenerateVirtualTUNName_def)
  have ifr: "ifreq_name ?nm = ?nm @ replicate (16 - length ?nm) (CHR 0x00)" using short by (simp add: ifreq_name_def)
  have "kernel_name (ifreq_name ?nm) = ?nm" by (simp add: ifr kernel_name_append [OF nul] kernel_name_nuls)
  moreover have "CHR 0x00 \<notin> set (ifreq_name ?nm) \<longleftrightarrow> length ?nm = 16"
    using nul short by (auto simp: ifr)
  moreover have "length ?nm = 16 \<longleftrightarrow> r = 0 \<and> 10 \<le> subnum" using r by (auto simp: len)
  ultimately show ?thesis using short by (simp add: ifr)
qed

lemma selectRandomSNI_listed:
  assumes "intn 9 < 9"
  shows "\<exists>name \<in> set sniWhitelist. selectRandomSNI intn = Some name"
proof -
  have "length sniWhitelist = 9" by (simp add: sniWhitelist_def)
  then show ?thesis using assms by (simp add: selectRandomSNI_def Let_def)
qed

end
